(* ===== verification/Prelude.thy ===== *)
theory Prelude
  imports Main "HOL-Library.Word" "HOL-Library.AList"
begin

text \<open>
  Shared vocabulary of the development: the machine types of the Rust source, big-endian byte
  codecs, 64-bit clock arithmetic, UTF-8 validation and byte-string helpers of the standard
  library, and the finite dictionaries that stand for \<open>HashMap\<close> and \<open>DashMap\<close>.

  A byte is an \<open>8 word\<close>, a datagram or a Rust \<open>String\<close> a list of bytes. Counters of
  type \<open>u64\<close> that the program only adds to, subtracts from and compares (clock readings,
  deadlines, allocation ids) are natural numbers whose additions wrap modulo \<open>2 ^ 64\<close>
  explicitly; values of other widths are words.
\<close>

unbundle bit_operations_syntax

section \<open>Types and proof collections\<close>

type_synonym u8 = "8 word"
type_synonym u16 = "16 word"
type_synonym u32 = "32 word"
type_synonym u64 = nat
type_synonym bytes = "u8 list"
type_synonym rstring = bytes

named_theorems codec_simps \<open>byte-level encoders and decoders evaluated on explicit bytes\<close>
named_theorems table_defs \<open>operations of the allocation table, unfolded\<close>
named_theorems frame_simps \<open>fields an operation leaves alone\<close>

section \<open>Options\<close>

lemma option_eqI: "(\<And>v. x = Some v \<longleftrightarrow> y = Some v) \<Longrightarrow> x = y"
  by (cases x; cases y) (metis option.discI option.inject)+

section \<open>64-bit and 32-bit counters\<close>

definition add_u64 :: "u64 \<Rightarrow> u64 \<Rightarrow> u64" where
  "add_u64 a b = (a + b) mod 2 ^ 64"

definition mul_u64 :: "u64 \<Rightarrow> u64 \<Rightarrow> u64" where
  "mul_u64 a b = (a * b) mod 2 ^ 64"

text \<open>\<open>u32::saturating_add(1)\<close> and \<open>u32::saturating_sub(1)\<close> on a counter kept as a number.\<close>

definition u32_max :: nat where
  "u32_max = 2 ^ 32 - 1"

definition sat_succ_u32 :: "nat \<Rightarrow> nat" where
  "sat_succ_u32 n = (if n < u32_max then n + 1 else u32_max)"

lemma add_u64_exact: "a + b < 2 ^ 64 \<Longrightarrow> add_u64 a b = a + b"
  by (simp add: add_u64_def)

lemma mul_u64_exact: "a * b < 2 ^ 64 \<Longrightarrow> mul_u64 a b = a * b"
  by (simp add: mul_u64_def)

lemma add_u64_bound [simp]: "add_u64 a b < 2 ^ 64"
  by (simp add: add_u64_def)

lemma sat_succ_u32_le: "n \<le> u32_max \<Longrightarrow> sat_succ_u32 n \<le> u32_max"
  by (simp add: sat_succ_u32_def)

section \<open>Big-endian integers\<close>

text \<open>\<open>from_be_bytes\<close> and \<open>to_be_bytes\<close> of \<open>u16\<close>, \<open>u32\<close> and \<open>u64\<close>.\<close>

definition be_nat :: "bytes \<Rightarrow> nat" where
  "be_nat bs = foldl (\<lambda>n b. n * 256 + unat b) 0 bs"

definition u16_be :: "u8 \<Rightarrow> u8 \<Rightarrow> u16" where
  "u16_be a b = word_of_nat (be_nat [a, b])"

definition u32_be :: "u8 \<Rightarrow> u8 \<Rightarrow> u8 \<Rightarrow> u8 \<Rightarrow> u32" where
  "u32_be a b c d = word_of_nat (be_nat [a, b, c, d])"

definition be16 :: "u16 \<Rightarrow> bytes" where
  "be16 w = [word_of_nat (unat w div 256), word_of_nat (unat w mod 256)]"

definition be32 :: "u32 \<Rightarrow> bytes" where
  "be32 w = [word_of_nat (unat w div 16777216), word_of_nat (unat w div 65536 mod 256),
             word_of_nat (unat w div 256 mod 256), word_of_nat (unat w mod 256)]"

text \<open>The eight bytes of a \<open>u64\<close> counter.\<close>

definition be64 :: "u64 \<Rightarrow> bytes" where
  "be64 n = map (\<lambda>i. word_of_nat (n div 256 ^ i mod 256)) [7, 6, 5, 4, 3, 2, 1, 0]"

lemma unat_u8_bound [simp]: "unat (b :: u8) < 256"
proof -
  have "unat b < 2 ^ LENGTH(8)" by (rule unsigned_less)
  then show ?thesis by simp
qed

lemma unat_u16_bound [simp]: "unat (w :: u16) < 65536"
proof -
  have "unat w < 2 ^ LENGTH(16)" by (rule unsigned_less)
  then show ?thesis by simp
qed

lemma unat_u32_bound [simp]: "unat (w :: u32) < 4294967296"
proof -
  have "unat w < 2 ^ LENGTH(32)" by (rule unsigned_less)
  then show ?thesis by simp
qed

lemma unat_byte [simp]: "n < 256 \<Longrightarrow> unat (word_of_nat n :: u8) = n"
  by (simp add: unat_of_nat)

lemma unat_u16 [simp]: "n < 65536 \<Longrightarrow> unat (word_of_nat n :: u16) = n"
  by (simp add: unat_of_nat)

lemma unat_u32 [simp]: "n < 4294967296 \<Longrightarrow> unat (word_of_nat n :: u32) = n"
  by (simp add: unat_of_nat)

lemma be_nat_simps [simp]:
  "be_nat [] = 0"
  "be_nat [a] = unat a"
  "be_nat [a, b] = unat a * 256 + unat b"
  "be_nat [a, b, c, d] = ((unat a * 256 + unat b) * 256 + unat c) * 256 + unat d"
  by (simp_all add: be_nat_def)

lemma base256_step: "x < m \<Longrightarrow> x * 256 + unat (b :: u8) < m * 256"
  using unat_u8_bound [of b] by linarith

lemma unat_u16_be: "unat (u16_be a b) = unat a * 256 + unat b"
proof -
  have "unat a * 256 + unat b < 65536"
    using base256_step [OF unat_u8_bound] by simp
  then show ?thesis by (simp only: u16_be_def be_nat_simps unat_u16)
qed

lemma unat_u32_be:
  "unat (u32_be a b c d) = ((unat a * 256 + unat b) * 256 + unat c) * 256 + unat d"
proof -
  have "((unat a * 256 + unat b) * 256 + unat c) * 256 + unat d < 4294967296"
    using base256_step [OF base256_step [OF base256_step [OF unat_u8_bound]]] by simp
  then show ?thesis by (simp only: u32_be_def be_nat_simps unat_u32)
qed

lemma length_be16 [simp]: "length (be16 w) = 2"
  by (simp add: be16_def)

lemma length_be32 [simp]: "length (be32 w) = 4"
  by (simp add: be32_def)

lemma length_be64 [simp]: "length (be64 n) = 8"
  by (simp add: be64_def)

text \<open>Decoding what was encoded gives the value back.\<close>

lemma u16_be_be16: "u16_be (be16 w ! 0) (be16 w ! 1) = w"
proof -
  have "unat w div 256 < 256" using unat_u16_bound [of w] by linarith
  then have "unat (u16_be (be16 w ! 0) (be16 w ! 1)) = unat w"
    by (simp add: unat_u16_be be16_def)
  then show ?thesis by (simp only: unsigned_word_eqI)
qed

lemma digits_base256:
  fixes n :: nat
  shows "((n div 16777216 * 256 + n div 65536 mod 256) * 256 + n div 256 mod 256) * 256
    + n mod 256 = n"
proof -
  have "n div 16777216 = n div 65536 div 256" "n div 65536 = n div 256 div 256"
    by (simp_all add: div_mult2_eq [symmetric])
  then show ?thesis by (simp add: div_mult_mod_eq)
qed

lemma u32_be_be32: "u32_be (be32 w ! 0) (be32 w ! 1) (be32 w ! 2) (be32 w ! 3) = w"
proof -
  have b: "unat w div 16777216 < 256" using unat_u32_bound [of w] by linarith
  have "unat (u32_be (be32 w ! 0) (be32 w ! 1) (be32 w ! 2) (be32 w ! 3)) =
    ((unat w div 16777216 * 256 + unat w div 65536 mod 256) * 256
      + unat w div 256 mod 256) * 256 + unat w mod 256"
    using b by (simp add: unat_u32_be be32_def)
  also have "\<dots> = unat w" by (rule digits_base256)
  finally show ?thesis by (simp only: unsigned_word_eqI)
qed

section \<open>Byte strings\<close>

text \<open>
  A Rust \<open>String\<close> is a byte list that is valid UTF-8; \<open>str\<close> writes an ASCII literal.
\<close>

definition str :: "string \<Rightarrow> rstring" where
  "str s = map of_char s"

definition COLON :: u8 where
  "COLON = 0x3A"

definition utf8_cont :: "u8 \<Rightarrow> bool" where
  "utf8_cont b \<longleftrightarrow> 0x80 \<le> b \<and> b \<le> 0xBF"

text \<open>The acceptance condition of \<open>String::from_utf8\<close>: no overlong forms, no surrogates.\<close>

fun utf8_valid :: "bytes \<Rightarrow> bool" where
  "utf8_valid [] = True"
| "utf8_valid (a # r) =
    (if a < 0x80 then utf8_valid r
     else if 0xC2 \<le> a \<and> a \<le> 0xDF then
       (case r of b # r' \<Rightarrow> utf8_cont b \<and> utf8_valid r' | _ \<Rightarrow> False)
     else if 0xE0 \<le> a \<and> a \<le> 0xEF then
       (case r of b # c # r' \<Rightarrow>
          (if a = 0xE0 then 0xA0 else 0x80) \<le> b \<and> b \<le> (if a = 0xED then 0x9F else 0xBF)
          \<and> utf8_cont c \<and> utf8_valid r'
        | _ \<Rightarrow> False)
     else if 0xF0 \<le> a \<and> a \<le> 0xF4 then
       (case r of b # c # d # r' \<Rightarrow>
          (if a = 0xF0 then 0x90 else 0x80) \<le> b \<and> b \<le> (if a = 0xF4 then 0x8F else 0xBF)
          \<and> utf8_cont c \<and> utf8_cont d \<and> utf8_valid r'
        | _ \<Rightarrow> False)
     else False)"

definition from_utf8 :: "bytes \<Rightarrow> rstring option" where
  "from_utf8 bs = (if utf8_valid bs then Some bs else None)"

text \<open>\<open>str::split_once\<close> (and \<open>splitn(2, _)\<close> giving two parts), and \<open>str::split\<close>.\<close>

fun split_once :: "u8 \<Rightarrow> bytes \<Rightarrow> (bytes \<times> bytes) option" where
  "split_once c [] = None"
| "split_once c (x # xs) =
    (if x = c then Some ([], xs)
     else map_option (\<lambda>(h, t). (x # h, t)) (split_once c xs))"

fun split_on :: "u8 \<Rightarrow> bytes \<Rightarrow> bytes list" where
  "split_on c [] = [[]]"
| "split_on c (x # xs) =
    (if x = c then [] # split_on c xs
     else (case split_on c xs of [] \<Rightarrow> [[x]] | p # ps \<Rightarrow> (x # p) # ps))"

lemma utf8_ascii: "(\<And>b. b \<in> set bs \<Longrightarrow> b < 0x80) \<Longrightarrow> utf8_valid bs"
  by (induction bs) auto

lemma split_once_Some_iff:
  "split_once c s = Some (h, t) \<longleftrightarrow> s = h @ c # t \<and> c \<notin> set h"
proof (induction s arbitrary: h)
  case (Cons x xs)
  show ?case
  proof (cases "x = c")
    case True
    then show ?thesis by (cases h) auto
  next
    case False
    then show ?thesis using Cons.IH by (cases h) auto
  qed
qed simp

lemma split_once_None_iff: "split_once c s = None \<longleftrightarrow> c \<notin> set s"
  by (induction s) auto

lemma split_once_append: "c \<notin> set h \<Longrightarrow> split_once c (h @ c # t) = Some (h, t)"
  by (simp add: split_once_Some_iff)

lemma split_on_single: "c \<notin> set s \<Longrightarrow> split_on c s = [s]"
  by (induction s) auto

lemma split_on_append: "c \<notin> set h \<Longrightarrow> split_on c (h @ c # t) = h # split_on c t"
  by (induction h) auto

text \<open>Zero padding of a known length, written out.\<close>

lemma replicate_numeral: "replicate (numeral k) x = x # replicate (pred_numeral k) x"
  by (simp add: numeral_eq_Suc)

section \<open>Dictionaries\<close>

text \<open>
  The contract of the hash maps the source keeps its state in: a lookup after an insert or a
  remove, and an iteration that yields each binding once. Iteration order is unspecified by the
  contract, so no law mentions it. Counting the bindings that satisfy a predicate is derived
  once for every dictionary.
\<close>

locale dict =
  fixes get :: "'m \<Rightarrow> 'k \<Rightarrow> 'v option"
    and put :: "'k \<Rightarrow> 'v \<Rightarrow> 'm \<Rightarrow> 'm"
    and del :: "'k \<Rightarrow> 'm \<Rightarrow> 'm"
    and entries :: "'m \<Rightarrow> ('k \<times> 'v) list"
    and wf :: "'m \<Rightarrow> bool"
  assumes get_put: "get (put k v m) = (get m)(k \<mapsto> v)"
    and get_del: "get (del k m) = (get m)(k := None)"
    and wf_put: "wf m \<Longrightarrow> wf (put k v m)"
    and wf_del: "wf m \<Longrightarrow> wf (del k m)"
    and entries_iff: "wf m \<Longrightarrow> (k, v) \<in> set (entries m) \<longleftrightarrow> get m k = Some v"
    and entries_once: "wf m \<Longrightarrow> distinct (map fst (entries m))"
begin

definition count_if :: "('k \<Rightarrow> 'v \<Rightarrow> bool) \<Rightarrow> 'm \<Rightarrow> nat" where
  "count_if P m = length (filter (\<lambda>(k, v). P k v) (entries m))"

definition hits :: "('k \<Rightarrow> 'v \<Rightarrow> bool) \<Rightarrow> 'm \<Rightarrow> 'k set" where
  "hits P m = {k. \<exists>v. get m k = Some v \<and> P k v}"

lemma hits_entries:
  assumes "wf m"
  shows "hits P m = fst ` set (filter (\<lambda>(k, v). P k v) (entries m))"
  using entries_iff [OF assms] unfolding hits_def by force

lemma finite_hits: "wf m \<Longrightarrow> finite (hits P m)"
  by (simp add: hits_entries)

lemma count_if_card: "wf m \<Longrightarrow> count_if P m = card (hits P m)"
proof -
  assume wf: "wf m"
  have "distinct (map fst (filter (\<lambda>(k, v). P k v) (entries m)))"
    using entries_once [OF wf] by (rule distinct_map_filter)
  then have "card (set (map fst (filter (\<lambda>(k, v). P k v) (entries m)))) = count_if P m"
    by (simp only: distinct_card count_if_def length_map)
  then show ?thesis by (simp add: hits_entries [OF wf])
qed

lemma hits_put_new:
  "get m k = None \<Longrightarrow> hits P (put k v m) = (if P k v then insert k (hits P m) else hits P m)"
  by (auto simp: hits_def get_put)

lemma hits_put_same:
  "get m k = Some w \<Longrightarrow> P k v = P k w \<Longrightarrow> hits P (put k v m) = hits P m"
  by (auto simp: hits_def get_put)

lemma hits_del: "hits P (del k m) = hits P m - {k}"
  by (auto simp: hits_def get_del)

lemma count_if_put_new:
  assumes "wf m" "get m k = None"
  shows "count_if P (put k v m) = count_if P m + (if P k v then 1 else 0)"
proof -
  have "k \<notin> hits P m" using assms(2) by (simp add: hits_def)
  then show ?thesis using assms
    by (simp add: count_if_card wf_put hits_put_new finite_hits)
qed

lemma count_if_put_same:
  "wf m \<Longrightarrow> get m k = Some w \<Longrightarrow> P k v = P k w \<Longrightarrow> count_if P (put k v m) = count_if P m"
  by (simp add: count_if_card wf_put hits_put_same)

lemma count_if_del:
  assumes "wf m" "get m k = Some v"
  shows "count_if P (del k m) = count_if P m - (if P k v then 1 else 0)"
    and "P k v \<Longrightarrow> 0 < count_if P m"
proof -
  have h: "k \<in> hits P m \<longleftrightarrow> P k v" using assms(2) by (simp add: hits_def)
  show "count_if P (del k m) = count_if P m - (if P k v then 1 else 0)"
    using h assms by (simp add: count_if_card wf_del hits_del finite_hits)
  show "P k v \<Longrightarrow> 0 < count_if P m"
    using h assms by (auto simp: count_if_card card_gt_0_iff finite_hits)
qed

end

text \<open>
  The model's dictionaries are association lists with distinct keys: lookup takes the first
  binding, an insert overwrites in place or appends, iteration follows the list.
\<close>

type_synonym ('k, 'v) dmap = "('k \<times> 'v) list"

definition dm_get :: "('k, 'v) dmap \<Rightarrow> 'k \<Rightarrow> 'v option" where
  "dm_get m k = map_of m k"

definition dm_put :: "'k \<Rightarrow> 'v \<Rightarrow> ('k, 'v) dmap \<Rightarrow> ('k, 'v) dmap" where
  "dm_put k v m = AList.update k v m"

definition dm_del :: "'k \<Rightarrow> ('k, 'v) dmap \<Rightarrow> ('k, 'v) dmap" where
  "dm_del k m = AList.delete k m"

definition dm_wf :: "('k, 'v) dmap \<Rightarrow> bool" where
  "dm_wf m \<longleftrightarrow> distinct (map fst m)"

definition dm_count :: "('k \<Rightarrow> 'v \<Rightarrow> bool) \<Rightarrow> ('k, 'v) dmap \<Rightarrow> nat" where
  "dm_count P m = length (filter (\<lambda>(k, v). P k v) m)"

text \<open>\<open>DashMap::remove_if\<close> and \<open>DashMap::retain\<close> with a pure predicate.\<close>

definition dm_del_if :: "'k \<Rightarrow> ('v \<Rightarrow> bool) \<Rightarrow> ('k, 'v) dmap \<Rightarrow> ('k, 'v) dmap" where
  "dm_del_if k P m = (case dm_get m k of Some v \<Rightarrow> if P v then dm_del k m else m | None \<Rightarrow> m)"

interpretation dm: dict dm_get dm_put dm_del "\<lambda>m. m" dm_wf
  by unfold_locales
    (auto simp: dm_get_def dm_put_def dm_del_def dm_wf_def update_conv' delete_conv'
      distinct_update distinct_delete map_of_eq_Some_iff)

lemma dm_count_eq: "dm_count P m = dm.count_if P m"
  by (simp add: dm_count_def dm.count_if_def)

lemma dm_get_Nil [simp]: "dm_get [] k = None"
  by (simp add: dm_get_def)

lemma dm_get_put [simp]: "dm_get (dm_put k v m) k' = (if k' = k then Some v else dm_get m k')"
  by (simp add: dm.get_put)

lemma dm_get_del [simp]: "dm_get (dm_del k m) k' = (if k' = k then None else dm_get m k')"
  by (simp add: dm.get_del)

lemma dm_get_del_if:
  "dm_get (dm_del_if k P m) k' =
    (if k' = k \<and> (\<exists>v. dm_get m k = Some v \<and> P v) then None else dm_get m k')"
  by (auto simp: dm_del_if_def split: option.splits)

lemma dm_wf_Nil [simp, intro]: "dm_wf []"
  by (simp add: dm_wf_def)

lemma dm_wf_put [intro]: "dm_wf m \<Longrightarrow> dm_wf (dm_put k v m)"
  by (rule dm.wf_put)

lemma dm_wf_del [intro]: "dm_wf m \<Longrightarrow> dm_wf (dm_del k m)"
  by (rule dm.wf_del)

lemma dm_wf_del_if [intro]: "dm_wf m \<Longrightarrow> dm_wf (dm_del_if k P m)"
  by (auto simp: dm_del_if_def split: option.splits)

lemma dm_get_filter:
  "dm_wf m \<Longrightarrow> dm_get (filter (\<lambda>(k, v). P k v) m) k =
    (case dm_get m k of Some v \<Rightarrow> if P k v then Some v else None | None \<Rightarrow> None)"
  unfolding dm_get_def dm_wf_def
  by (induction m) (auto split: option.splits simp: map_of_eq_None_iff rev_image_eqI)

lemma dm_wf_filter [intro]: "dm_wf m \<Longrightarrow> dm_wf (filter P m)"
  by (simp add: dm_wf_def distinct_map_filter)

lemma dm_mem_iff: "dm_wf m \<Longrightarrow> (k, v) \<in> set m \<longleftrightarrow> dm_get m k = Some v"
  by (rule dm.entries_iff)

lemma dm_get_mem: "dm_get m k = Some v \<Longrightarrow> (k, v) \<in> set m"
  by (simp add: dm_get_def map_of_SomeD)

lemma dm_get_keys: "dm_get m k = None \<longleftrightarrow> k \<notin> fst ` set m"
  by (simp add: dm_get_def map_of_eq_None_iff)

lemma dm_get_map: "dm_get (map (\<lambda>(k, v). (k, f v)) m) k = map_option f (dm_get m k)"
  by (induction m) (auto simp: dm_get_def)

lemma dm_wf_map: "dm_wf (map (\<lambda>(k, v). (k, f v)) m) = dm_wf m"
proof -
  have "map fst (map (\<lambda>(k, v). (k, f v)) m) = map fst m" by (induction m) auto
  then show ?thesis by (simp only: dm_wf_def)
qed

end
