(* ===== verification/Net_Addr.thy ===== *)
theory Net_Addr
  imports Prelude
begin

text \<open>
  The address types of \<open>std::net\<close> as the relay uses them, and the peer-address policy of
  \<open>turn/handler.rs\<close> that does not depend on the configuration. An IPv6 address is its sixteen
  octets; an IPv6 socket address also carries the flow label and the scope id, which take part in
  equality.
\<close>

section \<open>Addresses\<close>

datatype ip_addr = V4 u8 u8 u8 u8 | V6 bytes

datatype socket_addr = SockV4 u8 u8 u8 u8 u16 | SockV6 bytes u16 u32 u32

fun wf_ip :: "ip_addr \<Rightarrow> bool" where
  "wf_ip (V4 a b c d) = True"
| "wf_ip (V6 os) = (length os = 16)"

fun sa_ip :: "socket_addr \<Rightarrow> ip_addr" where
  "sa_ip (SockV4 a b c d p) = V4 a b c d"
| "sa_ip (SockV6 os p fl sc) = V6 os"

fun sa_port :: "socket_addr \<Rightarrow> u16" where
  "sa_port (SockV4 a b c d p) = p"
| "sa_port (SockV6 os p fl sc) = p"

text \<open>\<open>SocketAddr::new\<close>: flow label and scope id are zero.\<close>

fun sa_new :: "ip_addr \<Rightarrow> u16 \<Rightarrow> socket_addr" where
  "sa_new (V4 a b c d) p = SockV4 a b c d p"
| "sa_new (V6 os) p = SockV6 os p 0 0"

definition wf_sa :: "socket_addr \<Rightarrow> bool" where
  "wf_sa a \<longleftrightarrow> wf_ip (sa_ip a)"

text \<open>A socket address that a peer attribute can name: no flow label, no scope id.\<close>

definition plain_sa :: "socket_addr \<Rightarrow> bool" where
  "plain_sa a \<longleftrightarrow> a = sa_new (sa_ip a) (sa_port a)"

section \<open>Forbidden peers\<close>

definition v4_is_loopback :: "u8 \<Rightarrow> u8 \<Rightarrow> u8 \<Rightarrow> u8 \<Rightarrow> bool" where
  "v4_is_loopback a b c d \<longleftrightarrow> a = 127"

definition v4_is_multicast :: "u8 \<Rightarrow> u8 \<Rightarrow> u8 \<Rightarrow> u8 \<Rightarrow> bool" where
  "v4_is_multicast a b c d \<longleftrightarrow> 224 \<le> a \<and> a \<le> 239"

definition v4_is_broadcast :: "u8 \<Rightarrow> u8 \<Rightarrow> u8 \<Rightarrow> u8 \<Rightarrow> bool" where
  "v4_is_broadcast a b c d \<longleftrightarrow> a = 255 \<and> b = 255 \<and> c = 255 \<and> d = 255"

definition v4_is_unspecified :: "u8 \<Rightarrow> u8 \<Rightarrow> u8 \<Rightarrow> u8 \<Rightarrow> bool" where
  "v4_is_unspecified a b c d \<longleftrightarrow> a = 0 \<and> b = 0 \<and> c = 0 \<and> d = 0"

definition v4_is_link_local :: "u8 \<Rightarrow> u8 \<Rightarrow> u8 \<Rightarrow> u8 \<Rightarrow> bool" where
  "v4_is_link_local a b c d \<longleftrightarrow> a = 169 \<and> b = 254"

text \<open>\<open>Ipv6Addr::to_ipv4_mapped\<close>: the form \<open>::ffff:a.b.c.d\<close>.\<close>

definition to_ipv4_mapped :: "bytes \<Rightarrow> ip_addr option" where
  "to_ipv4_mapped os =
    (if take 12 os = replicate 10 0 @ [0xFF, 0xFF]
     then Some (V4 (os ! 12) (os ! 13) (os ! 14) (os ! 15)) else None)"

definition v6_is_loopback :: "bytes \<Rightarrow> bool" where
  "v6_is_loopback os \<longleftrightarrow> os = replicate 15 0 @ [1]"

definition v6_is_multicast :: "bytes \<Rightarrow> bool" where
  "v6_is_multicast os \<longleftrightarrow> u16_be (os ! 0) (os ! 1) AND 0xFF00 = 0xFF00"

definition v6_is_unspecified :: "bytes \<Rightarrow> bool" where
  "v6_is_unspecified os \<longleftrightarrow> os = replicate 16 0"

definition v6_unicast_link_local :: "bytes \<Rightarrow> bool" where
  "v6_unicast_link_local os \<longleftrightarrow> u16_be (os ! 0) (os ! 1) AND 0xFFC0 = 0xFE80"

fun is_forbidden_v4 :: "ip_addr \<Rightarrow> bool" where
  "is_forbidden_v4 (V4 a b c d) =
    (v4_is_loopback a b c d \<or> v4_is_multicast a b c d \<or> v4_is_broadcast a b c d
     \<or> v4_is_unspecified a b c d \<or> v4_is_link_local a b c d)"
| "is_forbidden_v4 (V6 os) = False"

fun is_forbidden_peer_ip :: "ip_addr \<Rightarrow> bool" where
  "is_forbidden_peer_ip (V4 a b c d) = is_forbidden_v4 (V4 a b c d)"
| "is_forbidden_peer_ip (V6 os) =
    (case to_ipv4_mapped os of
       Some v4 \<Rightarrow> is_forbidden_v4 v4
     | None \<Rightarrow> v6_is_loopback os \<or> v6_is_multicast os \<or> v6_is_unspecified os
         \<or> v6_unicast_link_local os)"

text \<open>The IPv4-mapped IPv6 form of an IPv4 address.\<close>

definition v4_mapped :: "u8 \<Rightarrow> u8 \<Rightarrow> u8 \<Rightarrow> u8 \<Rightarrow> ip_addr" where
  "v4_mapped a b c d = V6 (replicate 10 0 @ [0xFF, 0xFF, a, b, c, d])"

section \<open>Lemmas\<close>

lemmas v4_class_defs = v4_is_loopback_def v4_is_multicast_def v4_is_broadcast_def
  v4_is_unspecified_def v4_is_link_local_def

lemmas v6_class_defs = v6_is_loopback_def v6_is_multicast_def v6_is_unspecified_def
  v6_unicast_link_local_def

lemma sa_new_sel [simp]: "sa_ip (sa_new i p) = i" "sa_port (sa_new i p) = p"
  by (cases i; simp)+

lemma plain_sa_new [simp]: "plain_sa (sa_new i p)"
  by (simp add: plain_sa_def)

lemma sa_new_inj: "sa_new i p = sa_new j q \<longleftrightarrow> i = j \<and> p = q"
  by (cases i; cases j) auto

text \<open>Clearing the low bits of a word, read as arithmetic.\<close>

lemma and_not_mask_push: "w AND NOT (mask n) = push_bit n (drop_bit n (w::u16))"
  by (rule bit_word_eqI) (auto simp: bit_simps)
lemma unat_and_not_mask: "unat (w AND NOT (mask n)) = unat (w::u16) div 2 ^ n * 2 ^ n"
proof -
  have "unat w div 2 ^ n * 2 ^ n < 65536" 
    using div_times_less_eq_dividend [of "unat w" "2 ^ n"] unat_u16_bound [of w] by linarith
  then show ?thesis
    by (simp only: and_not_mask_push unsigned_push_bit_eq unat_drop_bit_eq)
      (simp add: push_bit_eq_mult drop_bit_eq_div take_bit_eq_mod)
qed
lemma high_byte_mask: "u16_be a b AND 0xFF00 = 0xFF00 \<longleftrightarrow> a = 0xFF"
proof -
  have m: "(0xFF00 :: u16) = NOT (mask 8)" by (simp add: mask_eq_decr_exp)
  have "u16_be a b AND 0xFF00 = 0xFF00 \<longleftrightarrow> unat (u16_be a b AND 0xFF00) = unat (0xFF00 :: u16)"
    by (rule word_unat_eq_iff)
  also have "\<dots> \<longleftrightarrow> unat a = 255"
    using unat_u8_bound [of b] by (simp only: m unat_and_not_mask unat_u16_be) (simp add: mask_eq_decr_exp)
  also have "\<dots> \<longleftrightarrow> a = 0xFF" by (simp add: word_unat_eq_iff)
  finally show ?thesis .
qed
lemma link_local_mask: "u16_be a b AND 0xFFC0 = 0xFE80 \<longleftrightarrow> a = 0xFE \<and> 0x80 \<le> b \<and> b \<le> 0xBF"
proof -
  have m: "(0xFFC0 :: u16) = NOT (mask 6)" by (simp add: mask_eq_decr_exp)
  have "u16_be a b AND 0xFFC0 = 0xFE80 \<longleftrightarrow> unat (u16_be a b AND 0xFFC0) = unat (0xFE80 :: u16)"
    by (rule word_unat_eq_iff)
  also have "\<dots> \<longleftrightarrow> (unat a * 256 + unat b) div 64 * 64 = 65152"
    by (simp only: m unat_and_not_mask unat_u16_be) simp
  also have "\<dots> \<longleftrightarrow> unat a = 254 \<and> 128 \<le> unat b \<and> unat b \<le> 191"
  proof
    assume h: "(unat a * 256 + unat b) div 64 * 64 = 65152"
    then have "65152 \<le> unat a * 256 + unat b" "unat a * 256 + unat b < 65216"
      by linarith+
    moreover have "unat b < 256" by simp
    ultimately have a: "unat a = 254" by presburger
    with h show "unat a = 254 \<and> 128 \<le> unat b \<and> unat b \<le> 191" by auto
  next
    assume "unat a = 254 \<and> 128 \<le> unat b \<and> unat b \<le> 191"
    then have "unat a = 254" "(unat a * 256 + unat b) div 64 = 1018" by linarith+
    then show "(unat a * 256 + unat b) div 64 * 64 = 65152" by simp
  qed
  also have "\<dots> \<longleftrightarrow> a = 0xFE \<and> 0x80 \<le> b \<and> b \<le> 0xBF" by (simp add: word_unat_eq_iff word_le_nat_alt)
  finally show ?thesis .
qed

text \<open>
  C38. The peer policy, read as address ranges: an IPv4 peer is refused exactly in 0.0.0.0,
  127/8, 169.254/16, 224/4 and 255.255.255.255; an IPv4-mapped IPv6 peer is refused exactly when
  the IPv4 address inside it is; any other IPv6 peer exactly for the unspecified address, the
  loopback address, ff00::/8 and fe80::/10.
\<close>

theorem is_forbidden_peer_ip_ranges:
  "(is_forbidden_peer_ip (V4 a b c d) \<longleftrightarrow>
     [a, b, c, d] = [0, 0, 0, 0] \<or> a = 127 \<or> (a = 169 \<and> b = 254) \<or> (224 \<le> a \<and> a < 240)
     \<or> [a, b, c, d] = [255, 255, 255, 255])
   \<and> (is_forbidden_peer_ip (v4_mapped a b c d) \<longleftrightarrow> is_forbidden_peer_ip (V4 a b c d))
   \<and> (to_ipv4_mapped os = None \<longrightarrow> is_forbidden_peer_ip (V6 os) =
     (os = replicate 16 0 \<or> os = replicate 15 0 @ [1] \<or> os ! 0 = 0xFF
     \<or> (os ! 0 = 0xFE \<and> 0x80 \<le> os ! 1 \<and> os ! 1 \<le> 0xBF)))"
proof (intro conjI impI)
  show "is_forbidden_peer_ip (V4 a b c d) \<longleftrightarrow>
     [a, b, c, d] = [0, 0, 0, 0] \<or> a = 127 \<or> (a = 169 \<and> b = 254) \<or> (224 \<le> a \<and> a < 240)
     \<or> [a, b, c, d] = [255, 255, 255, 255]"
    by (auto simp: v4_class_defs word_le_nat_alt word_less_nat_alt)
  show "is_forbidden_peer_ip (v4_mapped a b c d) \<longleftrightarrow> is_forbidden_peer_ip (V4 a b c d)"
    by (simp add: v4_mapped_def to_ipv4_mapped_def nth_append)
  assume "to_ipv4_mapped os = None"
  then show "is_forbidden_peer_ip (V6 os) =
     (os = replicate 16 0 \<or> os = replicate 15 0 @ [1] \<or> os ! 0 = 0xFF
     \<or> (os ! 0 = 0xFE \<and> 0x80 \<le> os ! 1 \<and> os ! 1 \<le> 0xBF))"
    by (auto simp: v6_class_defs high_byte_mask link_local_mask)
qed

theorem is_forbidden_peer_ip_ranges_witness:
  "is_forbidden_peer_ip (V4 169 254 169 254) \<and> is_forbidden_peer_ip (v4_mapped 127 0 0 1)
   \<and> is_forbidden_peer_ip (V6 (0xFE # 0x80 # replicate 13 0 @ [1]))
   \<and> \<not> is_forbidden_peer_ip (V6 (0x20 # 0x01 # 0x0D # 0xB8 # replicate 11 0 @ [1]))"
proof -
  have m: "to_ipv4_mapped (0xFE # 0x80 # replicate 13 0 @ [1]) = None"
    "to_ipv4_mapped (0x20 # 0x01 # 0x0D # 0xB8 # replicate 11 0 @ [1]) = None"
    by (simp_all add: to_ipv4_mapped_def replicate_numeral)
  show ?thesis
    using is_forbidden_peer_ip_ranges [of 169 254 169 254 "0xFE # 0x80 # replicate 13 0 @ [1]"]
      is_forbidden_peer_ip_ranges
        [of 127 0 0 1 "0x20 # 0x01 # 0x0D # 0xB8 # replicate 11 0 @ [1]"] m
    by (simp add: replicate_numeral)
qed

end
