(* ===== verification/Coarse_Time.thy ===== *)
theory Coarse_Time
  imports Prelude
begin

text \<open>
  The cached clock, \<open>src/coarse_time.rs\<close>. An \<open>Instant\<close> is a number of nanoseconds; the cached
  value is milliseconds since the base instant. Every other component takes the cached value as an
  argument \<open>now\<close>.
\<close>

section \<open>Definitions\<close>

type_synonym instant = nat

record coarse_time =
  base_instant :: "instant option"
  coarse_instant_ms :: u64

definition boot_clock :: coarse_time where
  "boot_clock = \<lparr>base_instant = None, coarse_instant_ms = 0\<rparr>"

text \<open>\<open>BASE_INSTANT.get_or_init(Instant::now)\<close>, with the current instant as an argument.\<close>

definition base_or_init :: "instant \<Rightarrow> coarse_time \<Rightarrow> instant" where
  "base_or_init t c = (case base_instant c of Some b \<Rightarrow> b | None \<Rightarrow> t)"

definition update_coarse_time :: "instant \<Rightarrow> coarse_time \<Rightarrow> coarse_time" where
  "update_coarse_time t c =
    (let base = base_or_init t c;
         elapsed_ms = (t - base) div 1000000 mod 2 ^ 64
     in \<lparr>base_instant = Some base, coarse_instant_ms = elapsed_ms\<rparr>)"

definition init_clock :: "instant \<Rightarrow> instant \<Rightarrow> coarse_time \<Rightarrow> coarse_time" where
  "init_clock t t' c = update_coarse_time t' (c\<lparr>base_instant := Some (base_or_init t c)\<rparr>)"

definition coarse_now_ms :: "coarse_time \<Rightarrow> u64" where
  "coarse_now_ms c = coarse_instant_ms c"

text \<open>\<open>is_expired_secs\<close>, with \<open>saturating_sub\<close> as subtraction on naturals.\<close>

definition is_expired_secs :: "u64 \<Rightarrow> u64 \<Rightarrow> u64 \<Rightarrow> bool" where
  "is_expired_secs now timestamp_ms timeout_secs \<longleftrightarrow>
    now - timestamp_ms \<ge> mul_u64 timeout_secs 1000"

definition elapsed_secs :: "u64 \<Rightarrow> u64 \<Rightarrow> u64" where
  "elapsed_secs now ms_since_init = (now - ms_since_init) div 1000"

definition is_older_than_secs :: "u64 \<Rightarrow> u64 \<Rightarrow> u64 \<Rightarrow> bool" where
  "is_older_than_secs now ms_since_init secs \<longleftrightarrow> elapsed_secs now ms_since_init \<ge> secs"

text \<open>\<open>CoarseInstant::now\<close>, the wrapped cached value.\<close>

definition coarse_instant :: "coarse_time \<Rightarrow> u64" where
  "coarse_instant c = coarse_now_ms c"

text \<open>
  \<open>spawn_updater\<close>: initialisation at the instants \<open>t\<close> and \<open>t'\<close>, then one update at the instant of every
  tick of the interval, oldest first.
\<close>

definition spawn_updater :: "instant \<Rightarrow> instant \<Rightarrow> instant list \<Rightarrow> coarse_time \<Rightarrow> coarse_time" where
  "spawn_updater t t' ticks c = fold update_coarse_time ticks (init_clock t t' c)"

section \<open>Properties\<close>

lemma is_older_iff_expired:
  "secs * 1000 < 2 ^ 64 \<Longrightarrow> is_older_than_secs now t secs \<longleftrightarrow> is_expired_secs now t secs"
  by (simp add: is_older_than_secs_def elapsed_secs_def is_expired_secs_def mul_u64_exact
      less_eq_div_iff_mult_less_eq)

text \<open>
  The cached clock counts whole milliseconds since the first reading and never runs backwards
  while the instants it is fed do not, up to the wrap of the 64-bit counter.
\<close>

lemma coarse_clock_monotone:
  assumes "b \<le> t" "t \<le> t'" "(t' - b) div 1000000 < 2 ^ 64"
    and "base_instant c = Some b"
  shows "coarse_now_ms (update_coarse_time t c) = (t - b) div 1000000
    \<and> coarse_now_ms (update_coarse_time t c)
        \<le> coarse_now_ms (update_coarse_time t' (update_coarse_time t c))
    \<and> base_instant (update_coarse_time t' (update_coarse_time t c)) = Some b"
proof -
  have le: "(t - b) div 1000000 \<le> (t' - b) div 1000000"
    using assms by (intro div_le_mono) simp
  then show ?thesis using assms
    by (simp add: update_coarse_time_def base_or_init_def coarse_now_ms_def Let_def)
qed


text \<open>After any number of ticks the cached clock shows the milliseconds from the base to the last of them.\<close>

lemma updater_reads_last_tick:
  assumes "(last (t' # ticks) - t) div 1000000 < 2 ^ 64"
  shows "coarse_now_ms (spawn_updater t t' ticks boot_clock) = (last (t' # ticks) - t) div 1000000
    \<and> base_instant (spawn_updater t t' ticks boot_clock) = Some t"
proof -
  have step: "update_coarse_time s c = \<lparr>base_instant = Some t, coarse_instant_ms = (s - t) div 1000000 mod 2 ^ 64\<rparr>"
    if "base_instant c = Some t" for s c
    using that by (simp add: update_coarse_time_def base_or_init_def Let_def)
  have "fold update_coarse_time ticks c = \<lparr>base_instant = Some t, coarse_instant_ms = (last (s # ticks) - t) div 1000000 mod 2 ^ 64\<rparr>"
    if "c = \<lparr>base_instant = Some t, coarse_instant_ms = (s - t) div 1000000 mod 2 ^ 64\<rparr>" for s c
    using that by (induction ticks arbitrary: s c) (auto simp: step)
  then show ?thesis
    using assms by (simp add: spawn_updater_def init_clock_def boot_clock_def base_or_init_def step coarse_now_ms_def)
qed

end
