(* ===== verification/Allocation.thy ===== *)
theory Allocation
  imports Net_Addr Coarse_Time
begin

text \<open>
  One TURN allocation, the first half of \<open>src/lookup/table.rs\<close>: its permissions, channel
  bindings, ICE credentials, activity stamps and lifetime. Locks and atomics are fields of a
  record; the cached clock reading is the argument \<open>now\<close> of every operation that reads it.
\<close>

section \<open>Definitions\<close>

type_synonym allocation_id = u64
type_synonym channel = u16

definition CHANNEL_LIFETIME_MS :: u64 where
  "CHANNEL_LIFETIME_MS = 600000"

definition PERMISSION_LIFETIME_MS :: u64 where
  "PERMISSION_LIFETIME_MS = 300000"

record channel_binding =
  cb_peer_addr :: socket_addr
  cb_expires_ms :: u64

record peer_info =
  last_seen_ms :: u64

record allocation =
  alloc_id :: allocation_id
  client_addr :: socket_addr
  permissions :: "(ip_addr, u64) dmap"
  channels :: "(channel, channel_binding) dmap"
  channels_reverse :: "(socket_addr, channel) dmap"
  known_peers :: "(socket_addr, peer_info) dmap"
  expires_at_ms :: u64
  lifetime_secs :: u64
  last_activity_ms :: u64
  last_received_ms :: u64
  last_successful_relay_ms :: u64
  has_relay_attempt :: bool
  username :: rstring
  allocate_txn_id :: bytes
  ice_ufrag :: "rstring option"
  ice_remote_ufrag :: "rstring option"

definition binding_is_live :: "u64 \<Rightarrow> channel_binding \<Rightarrow> bool" where
  "binding_is_live now_ms b \<longleftrightarrow> now_ms < cb_expires_ms b"

definition new_allocation ::
  "u64 \<Rightarrow> allocation_id \<Rightarrow> socket_addr \<Rightarrow> rstring \<Rightarrow> u32 \<Rightarrow> bytes \<Rightarrow> allocation" where
  "new_allocation now_ms i client user lifetime txn =
    \<lparr>alloc_id = i, client_addr = client, permissions = [], channels = [], channels_reverse = [],
     known_peers = [], expires_at_ms = add_u64 now_ms (unat lifetime * 1000),
     lifetime_secs = unat lifetime, last_activity_ms = now_ms, last_received_ms = now_ms,
     last_successful_relay_ms = 0, has_relay_attempt = False, username = user,
     allocate_txn_id = txn, ice_ufrag = None, ice_remote_ufrag = None\<rparr>"

text \<open>The setters return whether the value is new.\<close>

definition set_ice_ufrag :: "rstring \<Rightarrow> allocation \<Rightarrow> bool \<times> allocation" where
  "set_ice_ufrag ufrag a =
    (if ice_ufrag a = Some ufrag then (False, a) else (True, a\<lparr>ice_ufrag := Some ufrag\<rparr>))"

definition get_ice_ufrag :: "allocation \<Rightarrow> rstring option" where
  "get_ice_ufrag a = ice_ufrag a"

definition set_ice_remote_ufrag :: "rstring \<Rightarrow> allocation \<Rightarrow> bool \<times> allocation" where
  "set_ice_remote_ufrag ufrag a =
    (if ice_remote_ufrag a = Some ufrag then (False, a)
     else (True, a\<lparr>ice_remote_ufrag := Some ufrag\<rparr>))"

definition get_ice_remote_ufrag :: "allocation \<Rightarrow> rstring option" where
  "get_ice_remote_ufrag a = ice_remote_ufrag a"

definition is_permitted :: "u64 \<Rightarrow> allocation \<Rightarrow> ip_addr \<Rightarrow> bool" where
  "is_permitted now a peer_ip =
    (case dm_get (permissions a) peer_ip of Some expires_ms \<Rightarrow> now < expires_ms | None \<Rightarrow> False)"

definition alloc_add_permission :: "u64 \<Rightarrow> ip_addr \<Rightarrow> allocation \<Rightarrow> allocation" where
  "alloc_add_permission now peer_ip a =
    a\<lparr>permissions := dm_put peer_ip (add_u64 now PERMISSION_LIFETIME_MS) (permissions a)\<rparr>"

definition permissions_count :: "u64 \<Rightarrow> allocation \<Rightarrow> nat" where
  "permissions_count now a = dm_count (\<lambda>_ expires. now < expires) (permissions a)"

definition cleanup_expired_permissions :: "u64 \<Rightarrow> allocation \<Rightarrow> ip_addr list \<times> allocation" where
  "cleanup_expired_permissions now a =
    (let expired = map fst (filter (\<lambda>(_, expires). now \<ge> expires) (permissions a))
     in (expired, a\<lparr>permissions := fold dm_del expired (permissions a)\<rparr>))"

definition bind_channel :: "u64 \<Rightarrow> channel \<Rightarrow> socket_addr \<Rightarrow> allocation \<Rightarrow> allocation" where
  "bind_channel now chan peer_addr a =
    (let expires_ms = add_u64 now CHANNEL_LIFETIME_MS;
         fresh = \<lparr>cb_peer_addr = peer_addr, cb_expires_ms = expires_ms\<rparr>;
         a = (case dm_get (channels a) chan of
                Some b \<Rightarrow>
                  if cb_peer_addr b = peer_addr
                  then a\<lparr>channels := dm_put chan (b\<lparr>cb_expires_ms := expires_ms\<rparr>) (channels a)\<rparr>
                  else a\<lparr>channels := dm_put chan fresh (channels a),
                         channels_reverse := dm_del (cb_peer_addr b) (channels_reverse a)\<rparr>
              | None \<Rightarrow> a\<lparr>channels := dm_put chan fresh (channels a)\<rparr>);
         previous = dm_get (channels_reverse a) peer_addr;
         a = a\<lparr>channels_reverse := dm_put peer_addr chan (channels_reverse a)\<rparr>
     in case previous of
          Some old_channel \<Rightarrow>
            if old_channel \<noteq> chan then a\<lparr>channels := dm_del old_channel (channels a)\<rparr> else a
        | None \<Rightarrow> a)"

definition channels_count :: "u64 \<Rightarrow> allocation \<Rightarrow> nat" where
  "channels_count now a = dm_count (\<lambda>_ b. binding_is_live now b) (channels a)"

definition channel_for_peer :: "u64 \<Rightarrow> allocation \<Rightarrow> socket_addr \<Rightarrow> channel option" where
  "channel_for_peer now a peer_addr =
    (case dm_get (channels_reverse a) peer_addr of
       None \<Rightarrow> None
     | Some chan \<Rightarrow>
        (case dm_get (channels a) chan of
           None \<Rightarrow> None
         | Some b \<Rightarrow> if cb_peer_addr b = peer_addr \<and> binding_is_live now b then Some chan else None))"

definition peer_for_channel :: "u64 \<Rightarrow> allocation \<Rightarrow> channel \<Rightarrow> socket_addr option" where
  "peer_for_channel now a chan =
    (case dm_get (channels a) chan of
       None \<Rightarrow> None
     | Some b \<Rightarrow> if binding_is_live now b then Some (cb_peer_addr b) else None)"

text \<open>The removal loop of \<open>cleanup_expired_channels\<close>: one lapsed (channel, peer) pair.\<close>

fun drop_lapsed :: "channel \<times> socket_addr \<Rightarrow> allocation \<Rightarrow> allocation" where
  "drop_lapsed (chan, peer_addr) a =
    a\<lparr>channels := dm_del chan (channels a),
      channels_reverse := dm_del_if peer_addr (\<lambda>ch. ch = chan) (channels_reverse a)\<rparr>"

definition cleanup_expired_channels :: "u64 \<Rightarrow> allocation \<Rightarrow> allocation" where
  "cleanup_expired_channels now a =
    (let lapsed = map (\<lambda>(ch, b). (ch, cb_peer_addr b))
                    (filter (\<lambda>(ch, b). \<not> binding_is_live now b) (channels a))
     in fold drop_lapsed lapsed a)"

definition touch :: "u64 \<Rightarrow> allocation \<Rightarrow> allocation" where
  "touch now a = a\<lparr>last_activity_ms := now\<rparr>"

definition touch_received :: "u64 \<Rightarrow> allocation \<Rightarrow> allocation" where
  "touch_received now a = a\<lparr>last_received_ms := now, last_activity_ms := now\<rparr>"

definition is_inactive :: "u64 \<Rightarrow> u64 \<Rightarrow> allocation \<Rightarrow> bool" where
  "is_inactive now timeout_secs a = is_expired_secs now (last_received_ms a) timeout_secs"

definition touch_relay_success :: "u64 \<Rightarrow> allocation \<Rightarrow> allocation" where
  "touch_relay_success now a = a\<lparr>last_successful_relay_ms := now, has_relay_attempt := True\<rparr>"

definition touch_relay_attempt :: "u64 \<Rightarrow> allocation \<Rightarrow> allocation" where
  "touch_relay_attempt now a =
    (let before = has_relay_attempt a; a = a\<lparr>has_relay_attempt := True\<rparr>
     in if \<not> before then a\<lparr>last_successful_relay_ms := now\<rparr> else a)"

definition is_orphaned_sender :: "u64 \<Rightarrow> u64 \<Rightarrow> allocation \<Rightarrow> bool" where
  "is_orphaned_sender now timeout_secs a =
    (if \<not> has_relay_attempt a then False
     else is_expired_secs now (last_successful_relay_ms a) timeout_secs)"

definition is_expired :: "u64 \<Rightarrow> allocation \<Rightarrow> bool" where
  "is_expired now a \<longleftrightarrow> now > expires_at_ms a"

definition alloc_refresh :: "u64 \<Rightarrow> u32 \<Rightarrow> allocation \<Rightarrow> allocation" where
  "alloc_refresh now lifetime a =
    a\<lparr>expires_at_ms := add_u64 now (unat lifetime * 1000), lifetime_secs := unat lifetime\<rparr>"

definition remaining_lifetime :: "u64 \<Rightarrow> allocation \<Rightarrow> u32" where
  "remaining_lifetime now a =
    (if expires_at_ms a > now then word_of_nat ((expires_at_ms a - now) div 1000) else 0)"

section \<open>Leases\<close>

text \<open>
  Permissions and channel bindings are leases: a key is live until its deadline, and a periodic
  sweep drops what has lapsed. The contract asks that one sweep is invisible at its own time and
  later; that a whole history of sweeps is invisible, and that a lapsed key stays lapsed, follow
  for every store.
\<close>

locale lease_store =
  fixes live :: "u64 \<Rightarrow> 's \<Rightarrow> 'k \<Rightarrow> bool"
    and sweep :: "u64 \<Rightarrow> 's \<Rightarrow> 's"
    and inv :: "'s \<Rightarrow> bool"
  assumes inv_sweep: "inv s \<Longrightarrow> inv (sweep now s)"
    and sweep_live: "inv s \<Longrightarrow> now \<le> now' \<Longrightarrow> live now' (sweep now s) k = live now' s k"
    and live_before: "live now' s k \<Longrightarrow> now \<le> now' \<Longrightarrow> live now s k"
begin

lemma sweeps_invisible:
  assumes "inv s" "\<And>t. t \<in> set ts \<Longrightarrow> t \<le> now"
  shows "inv (fold sweep ts s) \<and> live now (fold sweep ts s) k = live now s k"
  using assms by (induction ts arbitrary: s) (auto simp: inv_sweep sweep_live)

lemma lapsed_stays_lapsed:
  assumes "inv s" "\<not> live now s k" "now \<le> now'" "\<And>t. t \<in> set ts \<Longrightarrow> t \<le> now'"
  shows "\<not> live now' (fold sweep ts s) k"
  using assms sweeps_invisible [of s ts now'] live_before by blast

end

section \<open>Invariants of one allocation\<close>

text \<open>
  The forward and the reverse channel maps are inverse to each other, and every dictionary is
  well formed.
\<close>

definition chan_inv :: "allocation \<Rightarrow> bool" where
  "chan_inv a \<longleftrightarrow>
    (\<forall>ch p. map_option cb_peer_addr (dm_get (channels a) ch) = Some p
        \<longleftrightarrow> dm_get (channels_reverse a) p = Some ch)"

definition alloc_maps_wf :: "allocation \<Rightarrow> bool" where
  "alloc_maps_wf a \<longleftrightarrow> dm_wf (permissions a) \<and> dm_wf (channels a) \<and> dm_wf (channels_reverse a)
    \<and> dm_wf (known_peers a)"

definition alloc_inv :: "allocation \<Rightarrow> bool" where
  "alloc_inv a \<longleftrightarrow> alloc_maps_wf a \<and> chan_inv a"

section \<open>Lemmas\<close>

lemma fold_dm_del_get: "dm_get (fold dm_del ks m) k = (if k \<in> set ks then None else dm_get m k)"
  by (induction ks arbitrary: m) auto

lemma fold_dm_del_wf: "dm_wf m \<Longrightarrow> dm_wf (fold dm_del ks m)"
  by (induction ks arbitrary: m) auto

text \<open>Permissions.\<close>

lemma expired_permissions_iff:
  assumes "dm_wf (permissions a)"
  shows "ip \<in> set (fst (cleanup_expired_permissions now a))
    \<longleftrightarrow> (\<exists>e. dm_get (permissions a) ip = Some e \<and> e \<le> now)"
  by (auto simp: cleanup_expired_permissions_def Let_def dm_mem_iff [OF assms] image_iff)

lemma cleanup_permissions_get:
  assumes "dm_wf (permissions a)"
  shows "dm_get (permissions (snd (cleanup_expired_permissions now a))) ip =
    (case dm_get (permissions a) ip of
       Some e \<Rightarrow> if now < e then Some e else None | None \<Rightarrow> None)"
  using expired_permissions_iff [OF assms, of ip now]
  by (auto simp: cleanup_expired_permissions_def Let_def fold_dm_del_get split: option.splits)

interpretation perm_lease: lease_store is_permitted "\<lambda>now a. snd (cleanup_expired_permissions now a)"
  "\<lambda>a. dm_wf (permissions a)"
proof unfold_locales
  show "dm_wf (permissions (snd (cleanup_expired_permissions now s)))"
    if "dm_wf (permissions s)" for s now
    using that by (simp add: cleanup_expired_permissions_def Let_def fold_dm_del_wf)
qed (auto simp: is_permitted_def cleanup_permissions_get split: option.splits)

text \<open>Channels.\<close>

lemma chan_inv_peer:
  "chan_inv a \<Longrightarrow> dm_get (channels a) ch = Some b \<Longrightarrow> dm_get (channels_reverse a) (cb_peer_addr b) = Some ch"
  by (auto simp: chan_inv_def)

lemma chan_inv_channel:
  assumes "chan_inv a" "dm_get (channels_reverse a) p = Some ch"
  obtains b where "dm_get (channels a) ch = Some b" "cb_peer_addr b = p"
proof -
  have "map_option cb_peer_addr (dm_get (channels a) ch) = Some p"
    using assms unfolding chan_inv_def by blast
  then show thesis using that by (auto simp: map_option_eq_Some)
qed

lemma chan_inv_inj:
  "chan_inv a \<Longrightarrow> dm_get (channels_reverse a) p = Some ch \<Longrightarrow>
    dm_get (channels_reverse a) q = Some ch \<longleftrightarrow> q = p"
  unfolding chan_inv_def by (metis option.inject)

lemma bind_channel_get:
  assumes "chan_inv a"
  shows "dm_get (channels (bind_channel now ch p a)) ch' =
      (if ch' = ch then Some \<lparr>cb_peer_addr = p, cb_expires_ms = add_u64 now CHANNEL_LIFETIME_MS\<rparr>
       else if dm_get (channels_reverse a) p = Some ch' then None
       else dm_get (channels a) ch')"
    and "dm_get (channels_reverse (bind_channel now ch p a)) q =
      (if q = p then Some ch
       else if dm_get (channels_reverse a) q = Some ch then None
       else dm_get (channels_reverse a) q)"
proof -
  have inv: "map_option cb_peer_addr (dm_get (channels a) ch) = Some p
      \<longleftrightarrow> dm_get (channels_reverse a) p = Some ch" for ch p
    using assms by (simp add: chan_inv_def)
  have inv': "dm_get (channels a) ch = Some b \<Longrightarrow>
      dm_get (channels_reverse a) p = Some ch \<longleftrightarrow> cb_peer_addr b = p" for ch p b
    using inv [of ch p] by simp
  have none: "dm_get (channels a) ch = None \<Longrightarrow> dm_get (channels_reverse a) p \<noteq> Some ch" for p
    using inv [of ch p] by simp
  show "dm_get (channels (bind_channel now ch p a)) ch' =
      (if ch' = ch then Some \<lparr>cb_peer_addr = p, cb_expires_ms = add_u64 now CHANNEL_LIFETIME_MS\<rparr>
       else if dm_get (channels_reverse a) p = Some ch' then None
       else dm_get (channels a) ch')"
    by (auto simp: bind_channel_def Let_def inv' dest: chan_inv_peer [OF assms] split: option.splits)
  show "dm_get (channels_reverse (bind_channel now ch p a)) q =
      (if q = p then Some ch
       else if dm_get (channels_reverse a) q = Some ch then None
       else dm_get (channels_reverse a) q)"
    using none [of q] by (auto simp: bind_channel_def Let_def inv' split: option.splits)
qed

lemma bind_channel_chan_inv:
  assumes "chan_inv a"
  shows "chan_inv (bind_channel now ch p a)"
  using assms unfolding chan_inv_def bind_channel_get [OF assms]
  by (auto simp: chan_inv_inj [OF assms] split: if_splits)

text \<open>One lookup gives the other back: the two directions agree at every time.\<close>

lemma channel_peer_agree:
  "chan_inv a \<Longrightarrow> channel_for_peer now a p = Some ch \<longleftrightarrow> peer_for_channel now a ch = Some p"
  unfolding channel_for_peer_def peer_for_channel_def
  by (auto dest: chan_inv_peer split: option.splits)

lemma drop_lapsed_get:
  "dm_get (channels (drop_lapsed (ch, p) a)) c = (if c = ch then None else dm_get (channels a) c)"
  "dm_get (channels_reverse (drop_lapsed (ch, p) a)) q =
    (if q = p \<and> dm_get (channels_reverse a) p = Some ch then None else dm_get (channels_reverse a) q)"
  by (auto simp: dm_get_del_if)

lemma fold_drop_lapsed_get:
  "dm_get (channels (fold drop_lapsed ls a)) c =
    (if c \<in> fst ` set ls then None else dm_get (channels a) c)"
  by (induction ls arbitrary: a) (auto simp: drop_lapsed_get simp del: drop_lapsed.simps)

lemma fold_drop_lapsed_reverse:
  "dm_get (channels_reverse (fold drop_lapsed ls a)) q =
    (case dm_get (channels_reverse a) q of
       Some c \<Rightarrow> if (c, q) \<in> set ls then None else Some c | None \<Rightarrow> None)"
proof (induction ls arbitrary: a)
  case (Cons l ls)
  then show ?case
    by (cases l) (auto simp: drop_lapsed_get simp del: drop_lapsed.simps split: option.splits)
qed (simp split: option.splits)

lemma drop_lapsed_wf: "alloc_maps_wf a \<Longrightarrow> alloc_maps_wf (fold drop_lapsed ls a)"
proof (induction ls arbitrary: a)
  case (Cons l ls)
  have "alloc_maps_wf (drop_lapsed l a)"
    using Cons.prems by (cases l) (simp add: alloc_maps_wf_def dm_wf_del dm_wf_del_if)
  then show ?case using Cons.IH by simp
qed simp

lemma cleanup_channels_get:
  assumes "dm_wf (channels a)"
  shows "dm_get (channels (cleanup_expired_channels now a)) ch =
    (case dm_get (channels a) ch of
       Some b \<Rightarrow> if binding_is_live now b then Some b else None | None \<Rightarrow> None)"
proof -
  have "ch \<in> fst ` set (map (\<lambda>(ch, b). (ch, cb_peer_addr b))
        (filter (\<lambda>(ch, b). \<not> binding_is_live now b) (channels a)))
      \<longleftrightarrow> (\<exists>b. dm_get (channels a) ch = Some b \<and> \<not> binding_is_live now b)"
    by (force simp: dm_mem_iff [OF assms, symmetric] image_iff)
  then show ?thesis
    by (auto simp: cleanup_expired_channels_def Let_def fold_drop_lapsed_get split: option.splits)
qed

lemma cleanup_channels_reverse:
  assumes "dm_wf (channels a)" "chan_inv a"
  shows "dm_get (channels_reverse (cleanup_expired_channels now a)) p =
    (case dm_get (channels_reverse a) p of
       Some ch \<Rightarrow> if peer_for_channel now a ch = Some p then Some ch else None | None \<Rightarrow> None)"
proof -
  have "(ch, p) \<in> set (map (\<lambda>(ch, b). (ch, cb_peer_addr b))
        (filter (\<lambda>(ch, b). \<not> binding_is_live now b) (channels a)))
      \<longleftrightarrow> peer_for_channel now a ch \<noteq> Some p" if rev: "dm_get (channels_reverse a) p = Some ch" for ch
  proof -
    obtain b where "dm_get (channels a) ch = Some b" "cb_peer_addr b = p"
      using chan_inv_channel [OF assms(2) rev] by blast
    then show ?thesis
      by (force simp: peer_for_channel_def dm_mem_iff [OF assms(1)] image_iff)
  qed
  then show ?thesis
    by (auto simp: cleanup_expired_channels_def Let_def fold_drop_lapsed_reverse split: option.splits)
qed

lemma cleanup_channels_inv:
  assumes "alloc_inv a"
  shows "alloc_inv (cleanup_expired_channels now a)"
proof -
  have wf: "dm_wf (channels a)" "chan_inv a" "alloc_maps_wf a"
    using assms by (simp_all add: alloc_inv_def alloc_maps_wf_def)
  have "alloc_maps_wf (cleanup_expired_channels now a)"
    using drop_lapsed_wf [OF wf(3)] by (simp add: cleanup_expired_channels_def Let_def)
  moreover have "chan_inv (cleanup_expired_channels now a)"
    unfolding chan_inv_def
  proof (intro allI)
    fix ch p
    have "map_option cb_peer_addr (dm_get (channels (cleanup_expired_channels now a)) ch) = Some p
        \<longleftrightarrow> peer_for_channel now a ch = Some p"
      by (auto simp: cleanup_channels_get [OF wf(1)] peer_for_channel_def split: option.splits)
    also have "\<dots> \<longleftrightarrow> dm_get (channels_reverse (cleanup_expired_channels now a)) p = Some ch"
      using chan_inv_peer [OF wf(2), of ch]
      by (auto simp: cleanup_channels_reverse [OF wf(1,2)] peer_for_channel_def
          split: option.splits if_splits)
    finally show "map_option cb_peer_addr (dm_get (channels (cleanup_expired_channels now a)) ch)
        = Some p \<longleftrightarrow> dm_get (channels_reverse (cleanup_expired_channels now a)) p = Some ch" .
  qed
  ultimately show ?thesis by (simp add: alloc_inv_def)
qed

lemma cleanup_channels_peer:
  assumes "dm_wf (channels a)" "now \<le> now'"
  shows "peer_for_channel now' (cleanup_expired_channels now a) ch = peer_for_channel now' a ch"
  using assms(2) by (auto simp: peer_for_channel_def cleanup_channels_get [OF assms(1)]
      binding_is_live_def split: option.splits)

interpretation chan_lease: lease_store "\<lambda>now a ch. peer_for_channel now a ch \<noteq> None"
  cleanup_expired_channels alloc_inv
proof unfold_locales
  show "alloc_inv (cleanup_expired_channels now s)" if "alloc_inv s" for s now
    using that by (rule cleanup_channels_inv)
  show "(peer_for_channel now' (cleanup_expired_channels now s) ch \<noteq> None)
      = (peer_for_channel now' s ch \<noteq> None)" if "alloc_inv s" "now \<le> now'" for s now now' ch
    using that cleanup_channels_peer by (simp add: alloc_inv_def alloc_maps_wf_def)
qed (auto simp: peer_for_channel_def binding_is_live_def split: option.splits if_splits)

text \<open>What the remaining operations keep.\<close>

lemma bind_channel_inv:
  assumes "alloc_inv a"
  shows "alloc_inv (bind_channel now ch p a)"
proof -
  have "alloc_maps_wf a" "chan_inv a" using assms by (simp_all add: alloc_inv_def)
  moreover have "alloc_maps_wf (bind_channel now ch p a)"
    using \<open>alloc_maps_wf a\<close>
    by (simp add: alloc_maps_wf_def bind_channel_def Let_def dm_wf_put dm_wf_del
        split: option.splits)
  ultimately show ?thesis by (simp add: alloc_inv_def bind_channel_chan_inv)
qed

lemma new_allocation_inv: "alloc_inv (new_allocation now i c u l t)"
  by (simp add: alloc_inv_def alloc_maps_wf_def chan_inv_def new_allocation_def)

lemma alloc_inv_update [simp]:
  "alloc_inv (touch now a) = alloc_inv a"
  "alloc_inv (touch_received now a) = alloc_inv a"
  "alloc_inv (touch_relay_success now a) = alloc_inv a"
  "alloc_inv (touch_relay_attempt now a) = alloc_inv a"
  "alloc_inv (alloc_refresh now l a) = alloc_inv a"
  "alloc_inv (snd (set_ice_ufrag u a)) = alloc_inv a"
  "alloc_inv (snd (set_ice_remote_ufrag u a)) = alloc_inv a"
  by (simp_all add: alloc_inv_def alloc_maps_wf_def chan_inv_def touch_def touch_received_def
      touch_relay_success_def touch_relay_attempt_def alloc_refresh_def set_ice_ufrag_def
      set_ice_remote_ufrag_def Let_def)

lemma add_permission_inv: "alloc_inv a \<Longrightarrow> alloc_inv (alloc_add_permission now ip a)"
  by (simp add: alloc_inv_def alloc_maps_wf_def chan_inv_def alloc_add_permission_def dm_wf_put)

lemma cleanup_permissions_inv: "alloc_inv a \<Longrightarrow> alloc_inv (snd (cleanup_expired_permissions now a))"
  using perm_lease.inv_sweep [of a now]
  by (simp add: alloc_inv_def alloc_maps_wf_def chan_inv_def cleanup_expired_permissions_def Let_def)

section \<open>Properties\<close>

lemma bind_channel_effect:
  assumes "alloc_inv a"
  shows "alloc_inv (bind_channel now ch p a)
    \<and> peer_for_channel t (bind_channel now ch p a) c =
        (if c = ch then if t < add_u64 now CHANNEL_LIFETIME_MS then Some p else None
         else if peer_for_channel t a c = Some p then None
         else peer_for_channel t a c)
    \<and> channel_for_peer t (bind_channel now ch p a) q =
        (if q = p then if t < add_u64 now CHANNEL_LIFETIME_MS then Some ch else None
         else if channel_for_peer t a q = Some ch then None
         else channel_for_peer t a q)"
proof -
  have inv: "chan_inv a" "chan_inv (bind_channel now ch p a)"
    using assms bind_channel_inv by (simp_all add: alloc_inv_def)
  have fwd: "peer_for_channel t (bind_channel now ch p a) c =
        (if c = ch then if t < add_u64 now CHANNEL_LIFETIME_MS then Some p else None
         else if peer_for_channel t a c = Some p then None
         else peer_for_channel t a c)" for c
  proof -
    have "dm_get (channels_reverse a) p = Some c
        \<longleftrightarrow> map_option cb_peer_addr (dm_get (channels a) c) = Some p"
      using inv(1) unfolding chan_inv_def by blast
    then show ?thesis
      by (auto simp: peer_for_channel_def bind_channel_get [OF inv(1)] binding_is_live_def
          split: option.splits)
  qed
  have "channel_for_peer t (bind_channel now ch p a) q =
        (if q = p then if t < add_u64 now CHANNEL_LIFETIME_MS then Some ch else None
         else if channel_for_peer t a q = Some ch then None
         else channel_for_peer t a q)"
  proof (rule option_eqI)
    fix c
    have "channel_for_peer t (bind_channel now ch p a) q = Some c
        \<longleftrightarrow> (if q = p then c = ch \<and> t < add_u64 now CHANNEL_LIFETIME_MS
           else c \<noteq> ch \<and> channel_for_peer t a q = Some c)"
      unfolding channel_peer_agree [OF inv(1)] channel_peer_agree [OF inv(2)] fwd by simp
    then show "channel_for_peer t (bind_channel now ch p a) q = Some c \<longleftrightarrow>
        (if q = p then if t < add_u64 now CHANNEL_LIFETIME_MS then Some ch else None
         else if channel_for_peer t a q = Some ch then None
         else channel_for_peer t a q) = Some c"
      by auto
  qed
  then show ?thesis using fwd bind_channel_inv [OF assms] by blast
qed

text \<open>
  C27. \<open>bind_channel\<close> keeps the forward and reverse channel maps inverse to each other, and its
  effect on both lookups is exact at every later time: the pair is bound until its ten-minute
  deadline, the peer's old channel and the channel's old peer are released, every other binding
  is untouched.
\<close>

theorem bind_channel_exact:
  assumes "alloc_inv a"
  shows "alloc_inv (bind_channel now ch p a)
    \<and> peer_for_channel t (bind_channel now ch p a) c =
        (if c = ch then if t < add_u64 now CHANNEL_LIFETIME_MS then Some p else None
         else if peer_for_channel t a c = Some p then None
         else peer_for_channel t a c)
    \<and> channel_for_peer t (bind_channel now ch p a) q =
        (if q = p then if t < add_u64 now CHANNEL_LIFETIME_MS then Some ch else None
         else if channel_for_peer t a q = Some ch then None
         else channel_for_peer t a q)"
  by (rule bind_channel_effect [OF assms])

definition demo_client :: socket_addr where
  "demo_client = SockV4 10 0 0 1 5000"

definition demo_peer :: socket_addr where
  "demo_peer = SockV4 10 0 0 2 6000"

definition demo_alloc :: allocation where
  "demo_alloc = new_allocation 0 1 demo_client (str ''u'') 600 (replicate 12 0)"

theorem bind_channel_exact_witness:
  "channel_for_peer 5 (bind_channel 3 0x4001 demo_peer (bind_channel 0 0x4000 demo_peer demo_alloc)) demo_peer
    = Some 0x4001
    \<and> peer_for_channel 5 (bind_channel 3 0x4001 demo_peer (bind_channel 0 0x4000 demo_peer demo_alloc)) 0x4000
    = None"
proof -
  have inv: "alloc_inv demo_alloc" by (simp add: demo_alloc_def new_allocation_inv)
  note first = bind_channel_exact [OF inv, of 0 "0x4000" demo_peer 5 "0x4000"]
  show ?thesis
    using bind_channel_exact [of "bind_channel 0 0x4000 demo_peer demo_alloc" 3 "0x4001" demo_peer 5 "0x4000" demo_peer]
      first by (simp add: CHANNEL_LIFETIME_MS_def add_u64_def)
qed

text \<open>
  Permissions and channel bindings expire on time and not before: a history of cleanup passes,
  each at a time no later than now, changes no answer at now, and what has lapsed never comes back
  by itself.
\<close>

lemma lease_sweeps_invisible:
  assumes "alloc_inv a" "\<forall>t \<in> set ts. t \<le> now"
  shows "is_permitted now (fold (\<lambda>t a. snd (cleanup_expired_permissions t a)) ts a) ip
      = is_permitted now a ip
    \<and> peer_for_channel now (fold cleanup_expired_channels ts a) ch = peer_for_channel now a ch
    \<and> (is_permitted now a ip \<longleftrightarrow>
        (\<exists>deadline. dm_get (permissions a) ip = Some deadline \<and> now < deadline))"
proof -
  have "dm_wf (permissions a)" using assms(1) by (simp add: alloc_inv_def alloc_maps_wf_def)
  then have "is_permitted now (fold (\<lambda>t a. snd (cleanup_expired_permissions t a)) ts a) ip
      = is_permitted now a ip"
    using perm_lease.sweeps_invisible assms(2) by blast
  moreover have "peer_for_channel now (fold cleanup_expired_channels ts a) ch
      = peer_for_channel now a ch"
    using assms
  proof (induction ts arbitrary: a)
    case (Cons t ts)
    then show ?case
      using cleanup_channels_peer [of a t now ch] cleanup_channels_inv [of a t]
      by (simp add: alloc_inv_def alloc_maps_wf_def)
  qed simp
  ultimately show ?thesis by (auto simp: is_permitted_def split: option.splits)
qed

end
