(* ===== verification/Alloc_Table.thy ===== *)
theory Alloc_Table
  imports Allocation
begin

text \<open>
  The multi-index allocation table, the second half of \<open>src/lookup/table.rs\<close>: the primary map
  by allocation id and the secondary indices by client address, permitted peer IP, peer tuple and
  ICE username fragment. Each operation is one atomic step here; \<open>Lock_Order\<close> has the guards the
  operations take and \<open>Create_Race\<close> the steps of concurrent \<open>create_or_get\<close> calls. The process-wide
  id counter is a field of the table.
\<close>

section \<open>Definitions\<close>

record alloc_table =
  allocations :: "(allocation_id, allocation) dmap"
  by_client :: "(socket_addr, allocation_id) dmap"
  by_permission :: "(ip_addr, allocation_id list) dmap"
  by_peer_tuple :: "(socket_addr, allocation_id) dmap"
  by_ice_ufrag :: "(rstring, allocation_id) dmap"
  id_counter :: u64

definition new_table :: alloc_table where
  "new_table = \<lparr>allocations = [], by_client = [], by_permission = [], by_peer_tuple = [],
     by_ice_ufrag = [], id_counter = 1\<rparr>"

definition create_or_get ::
  "u64 \<Rightarrow> socket_addr \<Rightarrow> rstring \<Rightarrow> u32 \<Rightarrow> bytes \<Rightarrow> alloc_table
     \<Rightarrow> (allocation_id \<times> bool) \<times> alloc_table" where
  "create_or_get now client user lifetime txn t =
    (case dm_get (by_client t) client of
       Some i \<Rightarrow> ((i, False), t)
     | None \<Rightarrow>
        let i = id_counter t;
            alloc = new_allocation now i client user lifetime txn;
            t = t\<lparr>id_counter := add_u64 i 1, allocations := dm_put i alloc (allocations t)\<rparr>
        in case dm_get (by_client t) client of
             Some existing \<Rightarrow>
               ((existing, False), t\<lparr>allocations := dm_del i (allocations t)\<rparr>)
           | None \<Rightarrow> ((i, True), t\<lparr>by_client := dm_put client i (by_client t)\<rparr>))"

definition table_create ::
  "u64 \<Rightarrow> socket_addr \<Rightarrow> rstring \<Rightarrow> u32 \<Rightarrow> alloc_table \<Rightarrow> allocation_id \<times> alloc_table" where
  "table_create now client user lifetime t =
    (let ((i, _), t) = create_or_get now client user lifetime (replicate 12 0) t in (i, t))"

definition table_get :: "alloc_table \<Rightarrow> allocation_id \<Rightarrow> allocation option" where
  "table_get t i = dm_get (allocations t) i"

definition get_by_client :: "alloc_table \<Rightarrow> socket_addr \<Rightarrow> allocation option" where
  "get_by_client t addr =
    (case dm_get (by_client t) addr of None \<Rightarrow> None | Some i \<Rightarrow> dm_get (allocations t) i)"

definition is_client :: "alloc_table \<Rightarrow> socket_addr \<Rightarrow> bool" where
  "is_client t addr \<longleftrightarrow> dm_get (by_client t) addr \<noteq> None"

definition lookup_by_peer_tuple :: "alloc_table \<Rightarrow> socket_addr \<Rightarrow> allocation_id option" where
  "lookup_by_peer_tuple t addr = dm_get (by_peer_tuple t) addr"

definition lookup_by_source :: "alloc_table \<Rightarrow> socket_addr \<Rightarrow> allocation_id option" where
  "lookup_by_source t addr =
    (case dm_get (by_client t) addr of Some i \<Rightarrow> Some i | None \<Rightarrow> dm_get (by_peer_tuple t) addr)"

text \<open>A method called on the allocation a lookup returned, when there is one.\<close>

definition with_alloc :: "allocation_id \<Rightarrow> (allocation \<Rightarrow> allocation) \<Rightarrow> alloc_table \<Rightarrow> alloc_table" where
  "with_alloc i f t =
    (case dm_get (allocations t) i of
       Some a \<Rightarrow> t\<lparr>allocations := dm_put i (f a) (allocations t)\<rparr> | None \<Rightarrow> t)"

definition set_ufrags :: "rstring \<Rightarrow> rstring \<Rightarrow> allocation \<Rightarrow> allocation" where
  "set_ufrags local_ufrag remote_ufrag a =
    snd (set_ice_remote_ufrag remote_ufrag (snd (set_ice_ufrag local_ufrag a)))"

definition register_ice_ufrags ::
  "allocation_id \<Rightarrow> rstring \<Rightarrow> rstring \<Rightarrow> alloc_table \<Rightarrow> bool \<times> alloc_table" where
  "register_ice_ufrags i local_ufrag remote_ufrag t =
    (case dm_get (allocations t) i of
       None \<Rightarrow> (False, t)
     | Some alloc \<Rightarrow>
        (case dm_get (by_ice_ufrag t) local_ufrag of
           Some owner \<Rightarrow>
             if owner \<noteq> i then (False, t)
             else (True, with_alloc i (set_ufrags local_ufrag remote_ufrag) t)
         | None \<Rightarrow>
             let t = (case get_ice_ufrag alloc of
                        Some old_local \<Rightarrow>
                          if old_local \<noteq> local_ufrag
                          then t\<lparr>by_ice_ufrag := dm_del old_local (by_ice_ufrag t)\<rparr> else t
                      | None \<Rightarrow> t)
             in case dm_get (by_ice_ufrag t) local_ufrag of
                  Some owner \<Rightarrow>
                    if owner \<noteq> i then (False, t)
                    else (True, with_alloc i (set_ufrags local_ufrag remote_ufrag) t)
                | None \<Rightarrow>
                    (True, (with_alloc i (set_ufrags local_ufrag remote_ufrag) t)
                        \<lparr>by_ice_ufrag := dm_put local_ufrag i (by_ice_ufrag t)\<rparr>)))"

definition lookup_by_ice_ufrag :: "alloc_table \<Rightarrow> rstring \<Rightarrow> allocation_id option" where
  "lookup_by_ice_ufrag t ufrag = dm_get (by_ice_ufrag t) ufrag"

definition find_ice_peer :: "alloc_table \<Rightarrow> rstring \<Rightarrow> rstring \<Rightarrow> allocation_id option" where
  "find_ice_peer t sender_local sender_remote =
    (case dm_get (by_ice_ufrag t) sender_remote of
       None \<Rightarrow> None
     | Some i \<Rightarrow>
        (case dm_get (allocations t) i of
           None \<Rightarrow> None
         | Some alloc \<Rightarrow>
            (case ice_remote_ufrag alloc of
               Some r \<Rightarrow> if r = sender_local then Some i else None
             | None \<Rightarrow> None)))"

definition find_ice_peers :: "alloc_table \<Rightarrow> rstring \<Rightarrow> rstring \<Rightarrow> allocation_id list" where
  "find_ice_peers t sender_local sender_remote =
    (case find_ice_peer t sender_local sender_remote of Some i \<Rightarrow> [i] | None \<Rightarrow> [])"

definition lookup_by_peer_ip :: "alloc_table \<Rightarrow> ip_addr \<Rightarrow> allocation_id list" where
  "lookup_by_peer_ip t ip = (case dm_get (by_permission t) ip of Some ids \<Rightarrow> ids | None \<Rightarrow> [])"

definition lookup_by_peer_addr :: "alloc_table \<Rightarrow> socket_addr \<Rightarrow> allocation_id list \<times> bool" where
  "lookup_by_peer_addr t addr =
    (case dm_get (by_peer_tuple t) addr of
       Some i \<Rightarrow> ([i], True)
     | None \<Rightarrow> let candidates = lookup_by_peer_ip t (sa_ip addr)
               in (candidates, length candidates = 1))"

definition remove_from_permission_index ::
  "ip_addr \<Rightarrow> allocation_id \<Rightarrow> alloc_table \<Rightarrow> alloc_table" where
  "remove_from_permission_index peer_ip i t =
    (case dm_get (by_permission t) peer_ip of
       Some ids \<Rightarrow>
         let ids = filter (\<lambda>j. j \<noteq> i) ids;
             t = t\<lparr>by_permission := dm_put peer_ip ids (by_permission t)\<rparr>
         in if ids = []
            then t\<lparr>by_permission := dm_del_if peer_ip (\<lambda>v. v = []) (by_permission t)\<rparr> else t
     | None \<Rightarrow> t)"

text \<open>\<open>by_permission.entry(ip).or_default()\<close> followed by the push of a missing id.\<close>

definition index_permission :: "allocation_id \<Rightarrow> ip_addr \<Rightarrow> alloc_table \<Rightarrow> alloc_table" where
  "index_permission i ip t =
    (let ids = (case dm_get (by_permission t) ip of Some ids \<Rightarrow> ids | None \<Rightarrow> [])
     in t\<lparr>by_permission := dm_put ip (if i \<in> set ids then ids else ids @ [i]) (by_permission t)\<rparr>)"

definition table_add_permission :: "u64 \<Rightarrow> allocation_id \<Rightarrow> ip_addr \<Rightarrow> alloc_table \<Rightarrow> alloc_table" where
  "table_add_permission now i peer_ip t =
    index_permission i peer_ip (with_alloc i (alloc_add_permission now peer_ip) t)"

definition new_ips :: "u64 \<Rightarrow> allocation \<Rightarrow> ip_addr list \<Rightarrow> ip_addr list" where
  "new_ips now alloc peer_ips =
    filter (\<lambda>ip. case dm_get (permissions alloc) ip of Some e \<Rightarrow> \<not> now < e | None \<Rightarrow> True) peer_ips"

definition try_add_permissions_capped ::
  "u64 \<Rightarrow> allocation_id \<Rightarrow> ip_addr list \<Rightarrow> nat \<Rightarrow> alloc_table \<Rightarrow> bool \<times> alloc_table" where
  "try_add_permissions_capped now i peer_ips cap t =
    (case dm_get (allocations t) i of
       None \<Rightarrow> (False, t)
     | Some alloc \<Rightarrow>
        let live = dm_count (\<lambda>_ e. now < e) (permissions alloc)
        in if live + length (new_ips now alloc peer_ips) > cap then (False, t)
           else (True, fold (index_permission i) peer_ips
                  (with_alloc i (fold (alloc_add_permission now) peer_ips) t)))"

definition register_peer_tuple :: "u64 \<Rightarrow> allocation_id \<Rightarrow> socket_addr \<Rightarrow> alloc_table \<Rightarrow> alloc_table" where
  "register_peer_tuple now i peer_addr t =
    with_alloc i
      (\<lambda>a. case dm_get (known_peers a) peer_addr of
             Some _ \<Rightarrow> a
           | None \<Rightarrow> a\<lparr>known_peers := dm_put peer_addr \<lparr>last_seen_ms = now\<rparr> (known_peers a)\<rparr>)
      (t\<lparr>by_peer_tuple := dm_put peer_addr i (by_peer_tuple t)\<rparr>)"

text \<open>
  The index cleanup that \<open>remove\<close> and the three \<open>cleanup_*\<close> closures repeat for an allocation
  that goes away.
\<close>

definition unindex :: "allocation_id \<Rightarrow> allocation \<Rightarrow> alloc_table \<Rightarrow> alloc_table" where
  "unindex i alloc t =
    (let t = t\<lparr>by_client := dm_del (client_addr alloc) (by_client t)\<rparr>;
         t = (case get_ice_ufrag alloc of
                Some u \<Rightarrow> t\<lparr>by_ice_ufrag := dm_del u (by_ice_ufrag t)\<rparr> | None \<Rightarrow> t);
         t = fold (\<lambda>ip. remove_from_permission_index ip i) (map fst (permissions alloc)) t
     in t\<lparr>by_peer_tuple := fold dm_del (map fst (known_peers alloc)) (by_peer_tuple t)\<rparr>)"

definition table_remove :: "allocation_id \<Rightarrow> alloc_table \<Rightarrow> bool \<times> alloc_table" where
  "table_remove i t =
    (case dm_get (allocations t) i of
       Some alloc \<Rightarrow> (True, unindex i alloc (t\<lparr>allocations := dm_del i (allocations t)\<rparr>))
     | None \<Rightarrow> (False, t))"

definition cleanup_channel_bindings :: "u64 \<Rightarrow> alloc_table \<Rightarrow> alloc_table" where
  "cleanup_channel_bindings now t =
    t\<lparr>allocations := map (\<lambda>(i, a). (i, cleanup_expired_channels now a)) (allocations t)\<rparr>"

fun reap_permissions :: "u64 \<Rightarrow> allocation_id \<times> allocation \<Rightarrow> alloc_table \<Rightarrow> alloc_table" where
  "reap_permissions now (i, a) t =
    (let (expired, a) = cleanup_expired_permissions now a
     in fold (\<lambda>ip. remove_from_permission_index ip i) expired
          (t\<lparr>allocations := dm_put i a (allocations t)\<rparr>))"

definition cleanup_permissions :: "u64 \<Rightarrow> alloc_table \<Rightarrow> alloc_table" where
  "cleanup_permissions now t = fold (reap_permissions now) (allocations t) t"

text \<open>
  \<open>DashMap::retain\<close> with a closure that unindexes every allocation satisfying \<open>P\<close>, collects
  its client IP and asks for its removal.
\<close>

definition retain_unless :: "(allocation \<Rightarrow> bool) \<Rightarrow> alloc_table \<Rightarrow> ip_addr list \<times> alloc_table" where
  "retain_unless P t =
    (let doomed = filter (\<lambda>(i, a). P a) (allocations t);
         t' = fold (\<lambda>(i, a). unindex i a) doomed t
     in (map (\<lambda>(i, a). sa_ip (client_addr a)) doomed,
         t'\<lparr>allocations := filter (\<lambda>(i, a). \<not> P a) (allocations t)\<rparr>))"

definition cleanup_expired :: "u64 \<Rightarrow> alloc_table \<Rightarrow> ip_addr list \<times> alloc_table" where
  "cleanup_expired now t = retain_unless (is_expired now) t"

definition cleanup_inactive :: "u64 \<Rightarrow> u64 \<Rightarrow> alloc_table \<Rightarrow> ip_addr list \<times> alloc_table" where
  "cleanup_inactive now timeout_secs t = retain_unless (is_inactive now timeout_secs) t"

definition cleanup_orphaned_senders :: "u64 \<Rightarrow> u64 \<Rightarrow> alloc_table \<Rightarrow> ip_addr list \<times> alloc_table" where
  "cleanup_orphaned_senders now timeout_secs t = retain_unless (is_orphaned_sender now timeout_secs) t"

section \<open>Index consistency\<close>

text \<open>
  The primary map is authoritative. Client addresses and ICE fragments are exact indices; the
  permission index lists, without duplicates, exactly the allocations that hold an entry for the
  IP; a peer tuple points at an allocation that knows the peer.
\<close>

definition table_wf :: "alloc_table \<Rightarrow> bool" where
  "table_wf t \<longleftrightarrow> dm_wf (allocations t) \<and> dm_wf (by_client t) \<and> dm_wf (by_permission t)
    \<and> dm_wf (by_peer_tuple t) \<and> dm_wf (by_ice_ufrag t)"

definition allocs_ok :: "alloc_table \<Rightarrow> bool" where
  "allocs_ok t \<longleftrightarrow> (\<forall>i a. dm_get (allocations t) i = Some a \<longrightarrow>
      alloc_id a = i \<and> i < id_counter t \<and> alloc_inv a)"

definition clients_ok :: "alloc_table \<Rightarrow> bool" where
  "clients_ok t \<longleftrightarrow> (\<forall>addr i. dm_get (by_client t) addr = Some i
      \<longleftrightarrow> map_option client_addr (dm_get (allocations t) i) = Some addr)"

definition ufrags_ok :: "alloc_table \<Rightarrow> bool" where
  "ufrags_ok t \<longleftrightarrow> (\<forall>u i. dm_get (by_ice_ufrag t) u = Some i
      \<longleftrightarrow> (case dm_get (allocations t) i of Some a \<Rightarrow> ice_ufrag a = Some u | None \<Rightarrow> False))"

definition holds_permission :: "alloc_table \<Rightarrow> allocation_id \<Rightarrow> ip_addr \<Rightarrow> bool" where
  "holds_permission t i ip =
    (case dm_get (allocations t) i of Some a \<Rightarrow> dm_get (permissions a) ip \<noteq> None | None \<Rightarrow> False)"

definition perm_index_wf :: "alloc_table \<Rightarrow> bool" where
  "perm_index_wf t \<longleftrightarrow>
    (\<forall>ip ids. dm_get (by_permission t) ip = Some ids \<longrightarrow> ids \<noteq> [] \<and> distinct ids)"

definition perms_ok :: "alloc_table \<Rightarrow> bool" where
  "perms_ok t \<longleftrightarrow> (\<forall>ip i. i \<in> set (lookup_by_peer_ip t ip) \<longleftrightarrow> holds_permission t i ip)
    \<and> perm_index_wf t"

definition knows_peer :: "alloc_table \<Rightarrow> allocation_id \<Rightarrow> socket_addr \<Rightarrow> bool" where
  "knows_peer t i p =
    (case dm_get (allocations t) i of Some a \<Rightarrow> dm_get (known_peers a) p \<noteq> None | None \<Rightarrow> False)"

definition tuples_ok :: "alloc_table \<Rightarrow> bool" where
  "tuples_ok t \<longleftrightarrow> (\<forall>p i. dm_get (by_peer_tuple t) p = Some i \<longrightarrow> knows_peer t i p)"

definition table_inv :: "alloc_table \<Rightarrow> bool" where
  "table_inv t \<longleftrightarrow> table_wf t \<and> allocs_ok t \<and> clients_ok t \<and> ufrags_ok t \<and> perms_ok t \<and> tuples_ok t"

section \<open>Lemmas\<close>

subsection \<open>Reading the invariant\<close>

lemma table_inv_client:
  "table_inv t \<Longrightarrow> dm_get (by_client t) addr = Some i
    \<longleftrightarrow> (\<exists>a. dm_get (allocations t) i = Some a \<and> client_addr a = addr)"
  by (simp add: table_inv_def clients_ok_def)

lemma table_inv_ufrag:
  "table_inv t \<Longrightarrow> dm_get (by_ice_ufrag t) u = Some i
    \<longleftrightarrow> (\<exists>a. dm_get (allocations t) i = Some a \<and> ice_ufrag a = Some u)"
  by (simp add: table_inv_def ufrags_ok_def split: option.splits)

lemma table_inv_tuple:
  assumes "table_inv t" "dm_get (by_peer_tuple t) p = Some i"
  shows "\<exists>a. dm_get (allocations t) i = Some a \<and> dm_get (known_peers a) p \<noteq> None"
proof -
  have "knows_peer t i p" using assms by (simp add: table_inv_def tuples_ok_def)
  then show ?thesis by (simp add: knows_peer_def split: option.splits)
qed

lemma table_inv_permission:
  "table_inv t \<Longrightarrow> i \<in> set (lookup_by_peer_ip t ip) \<longleftrightarrow> holds_permission t i ip"
  by (simp add: table_inv_def perms_ok_def)

lemma table_inv_alloc:
  "table_inv t \<Longrightarrow> dm_get (allocations t) i = Some a \<Longrightarrow> alloc_id a = i \<and> i < id_counter t \<and> alloc_inv a"
  by (simp add: table_inv_def allocs_ok_def)

lemma get_by_client_iff:
  assumes "table_inv t"
  shows "get_by_client t addr = Some a
    \<longleftrightarrow> dm_get (allocations t) (alloc_id a) = Some a \<and> client_addr a = addr"
proof (cases "dm_get (by_client t) addr")
  case None
  then have "\<not> (dm_get (allocations t) (alloc_id a) = Some a \<and> client_addr a = addr)"
    using table_inv_client [OF assms, of addr "alloc_id a"] by auto
  then show ?thesis using None by (simp add: get_by_client_def)
next
  case (Some i)
  then obtain b where b: "dm_get (allocations t) i = Some b" "client_addr b = addr"
    using table_inv_client [OF assms] by blast
  have "alloc_id b = i" using table_inv_alloc [OF assms b(1)] by simp
  moreover have "alloc_id a = i" if "dm_get (allocations t) (alloc_id a) = Some a" "client_addr a = addr"
    using that table_inv_client [OF assms, of addr "alloc_id a"] Some by simp
  ultimately show ?thesis using Some b by (auto simp: get_by_client_def)
qed

lemma get_by_client_id:
  "table_inv t \<Longrightarrow> get_by_client t addr = Some a \<Longrightarrow>
    dm_get (allocations t) (alloc_id a) = Some a \<and> dm_get (by_client t) addr = Some (alloc_id a)"
  by (auto simp: get_by_client_iff table_inv_client)

lemma is_client_iff:
  assumes "table_inv t"
  shows "is_client t addr \<longleftrightarrow> get_by_client t addr \<noteq> None"
proof (cases "dm_get (by_client t) addr")
  case (Some i)
  then show ?thesis
    using table_inv_client [OF assms, of addr i] by (auto simp: is_client_def get_by_client_def)
qed (simp add: is_client_def get_by_client_def)

subsection \<open>Updating one allocation in place\<close>

lemma with_alloc_get [simp]:
  "dm_get (allocations (with_alloc i f t)) j =
    (if j = i then map_option f (dm_get (allocations t) i) else dm_get (allocations t) j)"
  by (simp add: with_alloc_def split: option.splits)

lemma with_alloc_frame [simp]:
  "by_client (with_alloc i f t) = by_client t"
  "by_permission (with_alloc i f t) = by_permission t"
  "by_peer_tuple (with_alloc i f t) = by_peer_tuple t"
  "by_ice_ufrag (with_alloc i f t) = by_ice_ufrag t"
  "id_counter (with_alloc i f t) = id_counter t"
  "dm_wf (allocations t) \<Longrightarrow> dm_wf (allocations (with_alloc i f t))"
  by (simp_all add: with_alloc_def dm_wf_put split: option.splits)

lemma with_alloc_wf: "table_wf t \<Longrightarrow> table_wf (with_alloc i f t)"
  by (simp add: table_wf_def)

text \<open>
  An update is neutral when no index depends on what it changes: the id, the client address, the
  local fragment and the set of permission keys stay, known peers are only added.
\<close>

definition neutral :: "(allocation \<Rightarrow> allocation) \<Rightarrow> bool" where
  "neutral f \<longleftrightarrow> (\<forall>a. alloc_id (f a) = alloc_id a \<and> client_addr (f a) = client_addr a
     \<and> username (f a) = username a \<and> ice_ufrag (f a) = ice_ufrag a
     \<and> (\<forall>ip. dm_get (permissions (f a)) ip = None \<longleftrightarrow> dm_get (permissions a) ip = None)
     \<and> (\<forall>p. dm_get (known_peers a) p \<noteq> None \<longrightarrow> dm_get (known_peers (f a)) p \<noteq> None)
     \<and> (alloc_inv a \<longrightarrow> alloc_inv (f a)))"

lemma neutral_step_inv:
  assumes inv: "table_inv t" and f: "\<And>j. neutral (f j)"
    and get: "\<And>j. dm_get (allocations t') j = map_option (f j) (dm_get (allocations t) j)"
    and wf: "dm_wf (allocations t')"
    and frame: "by_client t' = by_client t" "by_permission t' = by_permission t"
      "by_peer_tuple t' = by_peer_tuple t" "by_ice_ufrag t' = by_ice_ufrag t"
      "id_counter t' = id_counter t"
  shows "table_inv t'"
proof -
  have f: "alloc_id (f j a) = alloc_id a" "client_addr (f j a) = client_addr a"
      "ice_ufrag (f j a) = ice_ufrag a" "alloc_inv a \<Longrightarrow> alloc_inv (f j a)"
      "dm_get (permissions (f j a)) ip = None \<longleftrightarrow> dm_get (permissions a) ip = None"
      "dm_get (known_peers a) p \<noteq> None \<Longrightarrow> dm_get (known_peers (f j a)) p \<noteq> None" for j a ip p
    using f [of j] by (simp_all add: neutral_def)
  have "allocs_ok t'" using inv by (auto simp: table_inv_def allocs_ok_def get frame f)
  moreover have "clients_ok t'"
    using inv by (simp add: table_inv_def clients_ok_def get frame map_option.compositionality o_def f)
  moreover have "ufrags_ok t'"
    using inv by (auto simp: table_inv_def ufrags_ok_def get frame f split: option.splits)
  moreover have "holds_permission t' j ip = holds_permission t j ip" for j ip
    by (simp add: holds_permission_def get f(5) split: option.splits del: not_None_eq)
  then have "perms_ok t'"
    using inv by (simp add: table_inv_def perms_ok_def perm_index_wf_def lookup_by_peer_ip_def frame)
  moreover have "knows_peer t j p \<Longrightarrow> knows_peer t' j p" for j p
    using f(6) by (auto simp: knows_peer_def get split: option.splits)
  then have "tuples_ok t'" using inv by (auto simp: table_inv_def tuples_ok_def frame)
  ultimately show ?thesis using inv wf by (simp add: table_inv_def table_wf_def frame)
qed

lemma neutral_id: "neutral (\<lambda>a. a)"
  by (simp add: neutral_def)

lemma with_alloc_inv:
  assumes "table_inv t" "neutral f"
  shows "table_inv (with_alloc i f t)"
proof (rule neutral_step_inv [OF assms(1), where f = "\<lambda>j. if j = i then f else (\<lambda>a. a)"])
  show "dm_wf (allocations (with_alloc i f t))"
    using assms(1) by (simp add: table_inv_def table_wf_def)
qed (use assms(2) in \<open>simp_all add: neutral_id option.map_ident\<close>)

lemma neutral_updates:
  "neutral (touch now)" "neutral (touch_received now)" "neutral (touch_relay_success now)"
  "neutral (touch_relay_attempt now)" "neutral (alloc_refresh now l)" "neutral (bind_channel now ch p)"
  "neutral (cleanup_expired_channels now)"
proof -
  have frame: "alloc_id (fold drop_lapsed ls a) = alloc_id a"
    "client_addr (fold drop_lapsed ls a) = client_addr a"
    "ice_ufrag (fold drop_lapsed ls a) = ice_ufrag a" "username (fold drop_lapsed ls a) = username a"
    "permissions (fold drop_lapsed ls a) = permissions a"
    "known_peers (fold drop_lapsed ls a) = known_peers a" for ls a
    by (induction ls arbitrary: a) auto
  show "neutral (cleanup_expired_channels now)"
    using cleanup_channels_inv
    by (simp add: neutral_def cleanup_expired_channels_def Let_def frame)
  show "neutral (bind_channel now ch p)"
    using bind_channel_inv
    by (simp add: neutral_def bind_channel_def Let_def split: option.splits)
qed (simp_all add: neutral_def touch_def touch_received_def touch_relay_success_def
    touch_relay_attempt_def alloc_refresh_def Let_def alloc_inv_def alloc_maps_wf_def chan_inv_def)

subsection \<open>The permission index\<close>

lemma rfpi_frame [simp]:
  "allocations (remove_from_permission_index ip i t) = allocations t"
  "by_client (remove_from_permission_index ip i t) = by_client t"
  "by_peer_tuple (remove_from_permission_index ip i t) = by_peer_tuple t"
  "by_ice_ufrag (remove_from_permission_index ip i t) = by_ice_ufrag t"
  "id_counter (remove_from_permission_index ip i t) = id_counter t"
  by (simp_all add: remove_from_permission_index_def Let_def split: option.splits)

lemma rfpi_get:
  "dm_get (by_permission (remove_from_permission_index ip i t)) q =
    (if q = ip then
       (case dm_get (by_permission t) ip of
          Some ids \<Rightarrow> if filter (\<lambda>j. j \<noteq> i) ids = [] then None else Some (filter (\<lambda>j. j \<noteq> i) ids)
        | None \<Rightarrow> None)
     else dm_get (by_permission t) q)"
  by (simp add: remove_from_permission_index_def Let_def dm_get_del_if split: option.splits)

lemma rfpi_lookup:
  "lookup_by_peer_ip (remove_from_permission_index ip i t) q =
    (if q = ip then filter (\<lambda>j. j \<noteq> i) (lookup_by_peer_ip t q) else lookup_by_peer_ip t q)"
  by (auto simp: lookup_by_peer_ip_def rfpi_get split: option.splits)

lemma rfpi_wf:
  assumes "dm_wf (by_permission t)" "perm_index_wf t"
  shows "dm_wf (by_permission (remove_from_permission_index ip i t))
    \<and> perm_index_wf (remove_from_permission_index ip i t)"
proof
  show "dm_wf (by_permission (remove_from_permission_index ip i t))"
    using assms(1)
    by (simp add: remove_from_permission_index_def Let_def dm_wf_put dm_wf_del_if split: option.splits)
  show "perm_index_wf (remove_from_permission_index ip i t)"
    using assms(2) by (auto simp: perm_index_wf_def rfpi_get split: option.splits if_splits)
qed

lemma fold_rfpi:
  "allocations (fold (\<lambda>ip. remove_from_permission_index ip i) ips t) = allocations t"
  "by_client (fold (\<lambda>ip. remove_from_permission_index ip i) ips t) = by_client t"
  "by_peer_tuple (fold (\<lambda>ip. remove_from_permission_index ip i) ips t) = by_peer_tuple t"
  "by_ice_ufrag (fold (\<lambda>ip. remove_from_permission_index ip i) ips t) = by_ice_ufrag t"
  "id_counter (fold (\<lambda>ip. remove_from_permission_index ip i) ips t) = id_counter t"
  by (induction ips arbitrary: t) auto

lemma fold_rfpi_lookup:
  "lookup_by_peer_ip (fold (\<lambda>ip. remove_from_permission_index ip i) ips t) q =
    (if q \<in> set ips then filter (\<lambda>j. j \<noteq> i) (lookup_by_peer_ip t q) else lookup_by_peer_ip t q)"
  by (induction ips arbitrary: t) (auto simp: rfpi_lookup)

lemma fold_rfpi_wf:
  "dm_wf (by_permission t) \<Longrightarrow> perm_index_wf t \<Longrightarrow>
    dm_wf (by_permission (fold (\<lambda>ip. remove_from_permission_index ip i) ips t))
    \<and> perm_index_wf (fold (\<lambda>ip. remove_from_permission_index ip i) ips t)"
  by (induction ips arbitrary: t) (simp_all add: rfpi_wf)

lemma fold_rfpi_cong:
  "by_permission s = by_permission s' \<Longrightarrow>
    by_permission (fold (\<lambda>ip. remove_from_permission_index ip i) ips s)
    = by_permission (fold (\<lambda>ip. remove_from_permission_index ip i) ips s')"
proof (induction ips arbitrary: s s')
  case (Cons ip ips)
  have "by_permission (remove_from_permission_index ip i s)
      = by_permission (remove_from_permission_index ip i s')"
    unfolding remove_from_permission_index_def Let_def Cons.prems
    by (simp add: Cons.prems split: option.splits)
  then show ?case unfolding fold_simps by (rule Cons.IH)
qed simp

lemma index_permission_frame [simp]:
  "allocations (index_permission i ip t) = allocations t"
  "by_client (index_permission i ip t) = by_client t"
  "by_peer_tuple (index_permission i ip t) = by_peer_tuple t"
  "by_ice_ufrag (index_permission i ip t) = by_ice_ufrag t"
  "id_counter (index_permission i ip t) = id_counter t"
  by (simp_all add: index_permission_def Let_def)

lemma index_permission_lookup:
  "set (lookup_by_peer_ip (index_permission i ip t) q) =
    (if q = ip then insert i (set (lookup_by_peer_ip t q)) else set (lookup_by_peer_ip t q))"
  by (auto simp: index_permission_def lookup_by_peer_ip_def Let_def split: option.splits)

lemma index_permission_wf:
  assumes "dm_wf (by_permission t)" "perm_index_wf t"
  shows "dm_wf (by_permission (index_permission i ip t)) \<and> perm_index_wf (index_permission i ip t)"
proof
  show "dm_wf (by_permission (index_permission i ip t))"
    using assms(1) by (simp add: index_permission_def Let_def dm_wf_put)
  show "perm_index_wf (index_permission i ip t)"
    using assms(2)
    by (auto simp: perm_index_wf_def index_permission_def Let_def split: option.splits if_splits)
qed

lemma fold_index:
  "allocations (fold (index_permission i) ips t) = allocations t"
  "by_client (fold (index_permission i) ips t) = by_client t"
  "by_peer_tuple (fold (index_permission i) ips t) = by_peer_tuple t"
  "by_ice_ufrag (fold (index_permission i) ips t) = by_ice_ufrag t"
  "id_counter (fold (index_permission i) ips t) = id_counter t"
  "set (lookup_by_peer_ip (fold (index_permission i) ips t) q) =
    (if q \<in> set ips then insert i (set (lookup_by_peer_ip t q)) else set (lookup_by_peer_ip t q))"
  by (induction ips arbitrary: t) (auto simp: index_permission_lookup)

lemma fold_index_wf:
  "dm_wf (by_permission t) \<Longrightarrow> perm_index_wf t \<Longrightarrow>
    dm_wf (by_permission (fold (index_permission i) ips t))
    \<and> perm_index_wf (fold (index_permission i) ips t)"
  by (induction ips arbitrary: t) (simp_all add: index_permission_wf)

subsection \<open>Granting permissions\<close>

lemma fold_add_permission:
  "dm_get (permissions (fold (alloc_add_permission now) ips a)) ip =
    (if ip \<in> set ips then Some (add_u64 now PERMISSION_LIFETIME_MS) else dm_get (permissions a) ip)"
  "alloc_id (fold (alloc_add_permission now) ips a) = alloc_id a"
  "client_addr (fold (alloc_add_permission now) ips a) = client_addr a"
  "ice_ufrag (fold (alloc_add_permission now) ips a) = ice_ufrag a"
  "known_peers (fold (alloc_add_permission now) ips a) = known_peers a"
  by (induction ips arbitrary: a) (auto simp: alloc_add_permission_def)

lemma fold_add_permission_inv:
  "alloc_inv a \<Longrightarrow> alloc_inv (fold (alloc_add_permission now) ips a)"
  by (induction ips arbitrary: a) (simp_all add: add_permission_inv)

lemma grant_inv:
  assumes inv: "table_inv t" and a: "dm_get (allocations t) i = Some a"
  shows "table_inv (fold (index_permission i) ips
           (with_alloc i (fold (alloc_add_permission now) ips) t))"
    (is "table_inv ?t'")
proof -
  let ?t1 = "with_alloc i (fold (alloc_add_permission now) ips) t"
  have "allocs_ok ?t'" "clients_ok ?t'" "ufrags_ok ?t'"
    using inv
    by (auto simp: table_inv_def allocs_ok_def clients_ok_def ufrags_ok_def
        fold_index fold_add_permission fold_add_permission_inv split: option.splits)
  moreover have "knows_peer ?t' j p = knows_peer t j p" for j p
    by (simp add: knows_peer_def fold_index fold_add_permission split: option.splits)
  then have "tuples_ok ?t'" using inv by (simp add: table_inv_def tuples_ok_def fold_index)
  moreover have wf: "dm_wf (by_permission ?t1)" "perm_index_wf ?t1"
    using inv by (simp_all add: table_inv_def table_wf_def perms_ok_def perm_index_wf_def)
  have "table_wf ?t'"
    using inv fold_index_wf [OF wf] by (simp add: table_inv_def table_wf_def fold_index)
  moreover have "perms_ok ?t'"
    unfolding perms_ok_def
  proof (intro conjI allI)
    show "perm_index_wf ?t'" using fold_index_wf [OF wf] by simp
    fix ip j
    have "j \<in> set (lookup_by_peer_ip t ip) \<longleftrightarrow> holds_permission t j ip"
      using inv by (simp add: table_inv_def perms_ok_def)
    moreover have "lookup_by_peer_ip ?t1 = lookup_by_peer_ip t"
      by (simp add: lookup_by_peer_ip_def fun_eq_iff)
    ultimately show "j \<in> set (lookup_by_peer_ip ?t' ip) \<longleftrightarrow> holds_permission ?t' j ip"
      using a by (auto simp: fold_index holds_permission_def fold_add_permission split: option.splits)
  qed
  ultimately show ?thesis by (simp add: table_inv_def)
qed

subsection \<open>Creating and learning\<close>

lemma create_or_get_cases:
  obtains (existing) i where "dm_get (by_client t) client = Some i"
      "create_or_get now client user lifetime txn t = ((i, False), t)"
    | (created) "dm_get (by_client t) client = None"
      "create_or_get now client user lifetime txn t = ((id_counter t, True),
         t\<lparr>id_counter := add_u64 (id_counter t) 1,
           allocations := dm_put (id_counter t)
             (new_allocation now (id_counter t) client user lifetime txn) (allocations t),
           by_client := dm_put client (id_counter t) (by_client t)\<rparr>)"
  by (cases "dm_get (by_client t) client") (simp_all add: create_or_get_def Let_def)

text \<open>A fresh id is not in use while the counter has not wrapped.\<close>

lemma fresh_id: "table_inv t \<Longrightarrow> dm_get (allocations t) (id_counter t) = None"
  using table_inv_alloc [of t "id_counter t"] by (cases "dm_get (allocations t) (id_counter t)") auto

text \<open>A new allocation whose client has none enters the table, indexed by its client.\<close>

lemma enter_inv:
  assumes inv: "table_inv t" and client: "dm_get (by_client t) client = None"
    and fresh: "dm_get (allocations t) i = None" and below: "i < id_counter t'" "id_counter t \<le> id_counter t'"
    and get: "\<And>j. dm_get (allocations t') j =
      (if j = i then Some (new_allocation now i client user lifetime txn) else dm_get (allocations t) j)"
    and wf: "dm_wf (allocations t')" and put: "by_client t' = dm_put client i (by_client t)"
    and frame: "by_permission t' = by_permission t" "by_peer_tuple t' = by_peer_tuple t"
      "by_ice_ufrag t' = by_ice_ufrag t"
  shows "table_inv t'"
proof -
  let ?a = "new_allocation now i client user lifetime txn"
  have new: "alloc_id ?a = i" "client_addr ?a = client" "ice_ufrag ?a = None"
    "permissions ?a = []" "known_peers ?a = []" by (simp_all add: new_allocation_def)
  have "allocs_ok t'"
    unfolding allocs_ok_def get using table_inv_alloc [OF inv] below
    by (auto simp: new new_allocation_inv intro: less_le_trans)
  moreover have "client_addr a \<noteq> client" if "dm_get (allocations t) j = Some a" for j a
    using that table_inv_client [OF inv, of client j] client by simp
  then have "clients_ok t'"
    unfolding clients_ok_def get put using table_inv_client [OF inv] fresh by (auto simp: new)
  moreover have "ufrags_ok t'"
    unfolding ufrags_ok_def get frame using table_inv_ufrag [OF inv] fresh
    by (auto simp: new split: option.splits)
  moreover have "holds_permission t' j ip = holds_permission t j ip" for j ip
    unfolding holds_permission_def get using fresh by (simp add: new)
  then have "perms_ok t'"
    using inv by (simp add: table_inv_def perms_ok_def perm_index_wf_def lookup_by_peer_ip_def frame)
  moreover have "knows_peer t j p \<Longrightarrow> knows_peer t' j p" for j p
    unfolding knows_peer_def get using fresh by auto
  then have "tuples_ok t'" using inv by (auto simp: table_inv_def tuples_ok_def frame)
  moreover have "table_wf t'"
    using inv wf by (simp add: table_inv_def table_wf_def dm_wf_put put frame)
  ultimately show ?thesis by (simp add: table_inv_def)
qed

lemma create_or_get_inv:
  assumes inv: "table_inv t" and room: "id_counter t + 1 < 2 ^ 64"
  shows "table_inv (snd (create_or_get now client user lifetime txn t))"
proof (cases rule: create_or_get_cases [of t client now user lifetime txn])
  case existing
  then show ?thesis using inv by simp
next
  case created
  have "dm_wf (allocations t)" using inv by (simp add: table_inv_def table_wf_def)
  with created room fresh_id [OF inv] show ?thesis
    by (intro enter_inv [OF inv created(1)]) (auto simp: add_u64_exact dm_wf_put)
qed

lemma register_peer_tuple_inv:
  assumes inv: "table_inv t" and a: "dm_get (allocations t) i = Some a"
  shows "table_inv (register_peer_tuple now i p t)"
proof -
  define f :: "allocation \<Rightarrow> allocation" where "f = (\<lambda>a. case dm_get (known_peers a) p of Some _ \<Rightarrow> a
      | None \<Rightarrow> a\<lparr>known_peers := dm_put p \<lparr>last_seen_ms = now\<rparr> (known_peers a)\<rparr>)"
  have "neutral f"
    by (auto simp: neutral_def f_def alloc_inv_def alloc_maps_wf_def chan_inv_def dm_wf_put
        split: option.splits)
  then have t1: "table_inv (with_alloc i f t)" by (rule with_alloc_inv [OF inv])
  have eq: "register_peer_tuple now i p t =
      (with_alloc i f t)\<lparr>by_peer_tuple := dm_put p i (by_peer_tuple t)\<rparr>"
    using a by (simp add: register_peer_tuple_def with_alloc_def f_def)
  have known: "dm_get (known_peers (f a)) p \<noteq> None" by (auto simp: f_def split: option.splits)
  have tuples: "knows_peer (with_alloc i f t) j q" if "dm_get (by_peer_tuple t) q = Some j" for j q
    using t1 that by (simp add: table_inv_def tuples_ok_def)
  show ?thesis
    using t1 known a tuples
    unfolding eq table_inv_def table_wf_def allocs_ok_def clients_ok_def ufrags_ok_def perms_ok_def
      perm_index_wf_def holds_permission_def lookup_by_peer_ip_def tuples_ok_def knows_peer_def
    by (simp add: dm_wf_put)
qed

lemma set_ufrags_sel [simp]:
  "ice_ufrag (set_ufrags l r a) = Some l" "ice_remote_ufrag (set_ufrags l r a) = Some r"
  "alloc_id (set_ufrags l r a) = alloc_id a" "client_addr (set_ufrags l r a) = client_addr a"
  "permissions (set_ufrags l r a) = permissions a" "known_peers (set_ufrags l r a) = known_peers a"
  "channels (set_ufrags l r a) = channels a" "alloc_inv (set_ufrags l r a) = alloc_inv a"
  by (simp_all add: set_ufrags_def set_ice_ufrag_def set_ice_remote_ufrag_def
      alloc_inv_def alloc_maps_wf_def chan_inv_def)

text \<open>
  Registration, seen through the invariant: refused when the fragment belongs to somebody else,
  otherwise the owner's pair is installed and its old fragment released.
\<close>

lemma register_ice_ufrags_cases:
  assumes inv: "table_inv t"
  obtains (refused) "register_ice_ufrags i l r t = (False, t)"
      "dm_get (allocations t) i = None
        \<or> (\<exists>owner. owner \<noteq> i \<and> dm_get (by_ice_ufrag t) l = Some owner)"
    | (installed) a t' where "register_ice_ufrags i l r t = (True, t')"
      "dm_get (allocations t) i = Some a"
      "allocations t' = allocations (with_alloc i (set_ufrags l r) t)"
      "\<And>u. dm_get (by_ice_ufrag t') u =
        (if u = l then Some i else if ice_ufrag a = Some u then None else dm_get (by_ice_ufrag t) u)"
      "dm_wf (by_ice_ufrag t')"
      "by_client t' = by_client t" "by_permission t' = by_permission t"
      "by_peer_tuple t' = by_peer_tuple t" "id_counter t' = id_counter t"
      "\<And>owner. dm_get (by_ice_ufrag t) l = Some owner \<Longrightarrow> owner = i"
proof (cases "dm_get (allocations t) i")
  case None
  then show thesis using refused by (simp add: register_ice_ufrags_def)
next
  case (Some a)
  have wf: "dm_wf (by_ice_ufrag t)" using inv by (simp add: table_inv_def table_wf_def)
  show thesis
  proof (cases "dm_get (by_ice_ufrag t) l")
    case (Some owner)
    show thesis
    proof (cases "owner = i")
      case False
      then show thesis using refused Some \<open>dm_get (allocations t) i = Some a\<close>
        by (simp add: register_ice_ufrags_def)
    next
      case True
      then have "ice_ufrag a = Some l"
        using table_inv_ufrag [OF inv, of l i] Some \<open>dm_get (allocations t) i = Some a\<close> by simp
      then show thesis using True Some \<open>dm_get (allocations t) i = Some a\<close> wf
        by (intro installed [of "with_alloc i (set_ufrags l r) t" a])
          (simp_all add: register_ice_ufrags_def)
    qed
  next
    case None
    then have "ice_ufrag a \<noteq> Some l"
      using table_inv_ufrag [OF inv, of l i] \<open>dm_get (allocations t) i = Some a\<close> by auto
    define m where "m = (case ice_ufrag a of
        Some old \<Rightarrow> dm_del old (by_ice_ufrag t) | None \<Rightarrow> by_ice_ufrag t)"
    have "register_ice_ufrags i l r t =
        (True, (with_alloc i (set_ufrags l r) t)\<lparr>by_ice_ufrag := dm_put l i m\<rparr>)"
      using None \<open>dm_get (allocations t) i = Some a\<close> \<open>ice_ufrag a \<noteq> Some l\<close>
      by (auto simp: register_ice_ufrags_def get_ice_ufrag_def Let_def with_alloc_def m_def
          split: option.splits)
    moreover have "dm_wf m" using wf by (auto simp: m_def dm_wf_del split: option.splits)
    ultimately show thesis using None \<open>dm_get (allocations t) i = Some a\<close>
      by (intro installed [of "(with_alloc i (set_ufrags l r) t)\<lparr>by_ice_ufrag := dm_put l i m\<rparr>" a])
        (auto simp: m_def dm_wf_put split: option.splits)
  qed
qed

lemma register_ice_ufrags_inv:
  assumes inv: "table_inv t"
  shows "table_inv (snd (register_ice_ufrags i l r t))"
  using inv
proof (cases rule: register_ice_ufrags_cases [of t i l r])
  case refused
  then show ?thesis using inv by simp
next
  case (installed a t')
  have get: "dm_get (allocations t') j =
      (if j = i then Some (set_ufrags l r a) else dm_get (allocations t) j)" for j
    using installed by simp
  have "allocs_ok t'"
    unfolding allocs_ok_def get using table_inv_alloc [OF inv] installed by auto
  moreover have "clients_ok t'"
    unfolding clients_ok_def get using table_inv_client [OF inv] installed by auto
  moreover have "ufrags_ok t'"
    unfolding ufrags_ok_def
  proof (intro allI)
    fix u j
    show "dm_get (by_ice_ufrag t') u = Some j \<longleftrightarrow>
        (case dm_get (allocations t') j of Some a \<Rightarrow> ice_ufrag a = Some u | None \<Rightarrow> False)"
      unfolding get installed(4)
      using table_inv_ufrag [OF inv, of u j] table_inv_ufrag [OF inv, of u i]
        table_inv_ufrag [OF inv, of l j] installed(2,10)
      by (auto split: option.splits)
  qed
  moreover have "holds_permission t' j ip = holds_permission t j ip" for j ip
    unfolding holds_permission_def get using installed(2) by simp
  then have "perms_ok t'"
    using inv installed by (simp add: table_inv_def perms_ok_def perm_index_wf_def lookup_by_peer_ip_def)
  moreover have "knows_peer t' j p = knows_peer t j p" for j p
    unfolding knows_peer_def get using installed(2) by simp
  then have "tuples_ok t'" using inv installed by (simp add: table_inv_def tuples_ok_def)
  moreover have "table_wf t'" using inv installed by (simp add: table_inv_def table_wf_def)
  ultimately show ?thesis using installed(1) by (simp add: table_inv_def)
qed

subsection \<open>Removing allocations\<close>

lemma unindex_frame [simp]:
  "allocations (unindex i a t) = allocations t" "id_counter (unindex i a t) = id_counter t"
  by (simp_all add: unindex_def Let_def fold_rfpi split: option.splits)

lemma unindex_client:
  "dm_get (by_client (unindex i a t)) addr =
    (if addr = client_addr a then None else dm_get (by_client t) addr)"
  by (simp add: unindex_def Let_def fold_rfpi split: option.splits)

lemma unindex_ufrag:
  "dm_get (by_ice_ufrag (unindex i a t)) u =
    (if ice_ufrag a = Some u then None else dm_get (by_ice_ufrag t) u)"
  by (auto simp: unindex_def Let_def fold_rfpi get_ice_ufrag_def split: option.splits)

lemma unindex_tuple:
  "dm_get (by_peer_tuple (unindex i a t)) p =
    (if dm_get (known_peers a) p \<noteq> None then None else dm_get (by_peer_tuple t) p)"
  by (simp add: unindex_def Let_def fold_rfpi fold_dm_del_get dm_get_keys del: not_None_eq
      split: option.splits)

lemma unindex_permission:
  "by_permission (unindex i a t) =
    by_permission (fold (\<lambda>ip. remove_from_permission_index ip i) (map fst (permissions a)) t)"
  by (cases "get_ice_ufrag a") (simp_all add: unindex_def Let_def, (rule fold_rfpi_cong, simp)+)

lemma lookup_by_peer_ip_cong [simp]:
  "lookup_by_peer_ip (t\<lparr>by_peer_tuple := x\<rparr>) = lookup_by_peer_ip t"
  "lookup_by_peer_ip (t\<lparr>by_client := y\<rparr>) = lookup_by_peer_ip t"
  "lookup_by_peer_ip (t\<lparr>by_ice_ufrag := z\<rparr>) = lookup_by_peer_ip t"
  "lookup_by_peer_ip (t\<lparr>allocations := w\<rparr>) = lookup_by_peer_ip t"
  by (simp_all add: lookup_by_peer_ip_def fun_eq_iff)

lemma unindex_lookup:
  "lookup_by_peer_ip (unindex i a t) q =
    (if dm_get (permissions a) q \<noteq> None then filter (\<lambda>j. j \<noteq> i) (lookup_by_peer_ip t q)
     else lookup_by_peer_ip t q)"
  by (simp add: unindex_def Let_def fold_rfpi_lookup dm_get_keys del: not_None_eq
      split: option.splits)

lemma unindex_wf:
  assumes "table_wf t" "perm_index_wf t"
  shows "table_wf (unindex i a t) \<and> perm_index_wf (unindex i a t)"
proof -
  let ?t1 = "t\<lparr>by_client := dm_del (client_addr a) (by_client t)\<rparr>"
  let ?t2 = "case get_ice_ufrag a of
      Some u \<Rightarrow> ?t1\<lparr>by_ice_ufrag := dm_del u (by_ice_ufrag ?t1)\<rparr> | None \<Rightarrow> ?t1"
  have "table_wf ?t2" "perm_index_wf ?t2"
    using assms by (simp_all add: table_wf_def perm_index_wf_def dm_wf_del split: option.splits)
  then show ?thesis
    using fold_rfpi_wf [of ?t2 i "map fst (permissions a)"]
    by (simp add: unindex_def table_wf_def perm_index_wf_def Let_def fold_rfpi fold_dm_del_wf)
qed

text \<open>Unindexing a list of allocations.\<close>

lemma fold_unindex:
  "allocations (fold (\<lambda>(i, a). unindex i a) ds t) = allocations t"
  "id_counter (fold (\<lambda>(i, a). unindex i a) ds t) = id_counter t"
  "dm_get (by_client (fold (\<lambda>(i, a). unindex i a) ds t)) addr =
    (if \<exists>(i, a) \<in> set ds. client_addr a = addr then None else dm_get (by_client t) addr)"
  "dm_get (by_ice_ufrag (fold (\<lambda>(i, a). unindex i a) ds t)) u =
    (if \<exists>(i, a) \<in> set ds. ice_ufrag a = Some u then None else dm_get (by_ice_ufrag t) u)"
  "dm_get (by_peer_tuple (fold (\<lambda>(i, a). unindex i a) ds t)) p =
    (if \<exists>(i, a) \<in> set ds. dm_get (known_peers a) p \<noteq> None then None
     else dm_get (by_peer_tuple t) p)"
  "lookup_by_peer_ip (fold (\<lambda>(i, a). unindex i a) ds t) q =
    filter (\<lambda>j. \<not> (\<exists>(i, a) \<in> set ds. i = j \<and> dm_get (permissions a) q \<noteq> None)) (lookup_by_peer_ip t q)"
proof (induction ds arbitrary: t)
  case (Cons d ds)
  {
    case 1 then show ?case by (simp add: Cons.IH split: prod.split)
  next
    case 2 then show ?case by (simp add: Cons.IH split: prod.split)
  next
    case 3 then show ?case by (simp add: Cons.IH unindex_client split: prod.split)
  next
    case 4 then show ?case by (simp add: Cons.IH unindex_ufrag split: prod.split)
  next
    case 5 then show ?case by (simp add: Cons.IH unindex_tuple split: prod.split)
  next
    case 6
    show ?case
      by (cases d) (auto simp: Cons.IH unindex_lookup intro!: filter_cong)
  }
qed simp_all

lemma fold_unindex_wf:
  "table_wf t \<Longrightarrow> perm_index_wf t \<Longrightarrow>
    table_wf (fold (\<lambda>(i, a). unindex i a) ds t) \<and> perm_index_wf (fold (\<lambda>(i, a). unindex i a) ds t)"
  by (induction ds arbitrary: t) (auto simp: unindex_wf)

definition reap :: "(allocation_id \<Rightarrow> allocation \<Rightarrow> bool) \<Rightarrow> alloc_table \<Rightarrow> alloc_table" where
  "reap P t = (fold (\<lambda>(i, a). unindex i a) (filter (\<lambda>(i, a). P i a) (allocations t)) t)
     \<lparr>allocations := filter (\<lambda>(i, a). \<not> P i a) (allocations t)\<rparr>"

lemma reap_get:
  "table_wf t \<Longrightarrow> dm_get (allocations (reap P t)) i =
    (case dm_get (allocations t) i of Some a \<Rightarrow> if P i a then None else Some a | None \<Rightarrow> None)"
  using dm_get_filter [of "allocations t" "\<lambda>i a. \<not> P i a" i]
  by (auto simp: reap_def table_wf_def split: option.splits)

lemma reap_views:
  assumes "table_wf t"
  shows "dm_get (by_client (reap P t)) addr =
      (if \<exists>i a. dm_get (allocations t) i = Some a \<and> P i a \<and> client_addr a = addr then None
       else dm_get (by_client t) addr)"
    and "dm_get (by_ice_ufrag (reap P t)) u =
      (if \<exists>i a. dm_get (allocations t) i = Some a \<and> P i a \<and> ice_ufrag a = Some u then None
       else dm_get (by_ice_ufrag t) u)"
    and "dm_get (by_peer_tuple (reap P t)) p =
      (if \<exists>i a. dm_get (allocations t) i = Some a \<and> P i a \<and> dm_get (known_peers a) p \<noteq> None
       then None else dm_get (by_peer_tuple t) p)"
    and "lookup_by_peer_ip (reap P t) q = filter (\<lambda>j. \<not> (\<exists>a. dm_get (allocations t) j = Some a
        \<and> P j a \<and> dm_get (permissions a) q \<noteq> None)) (lookup_by_peer_ip t q)"
    and "id_counter (reap P t) = id_counter t"
proof -
  have "(i, a) \<in> set (allocations t) \<longleftrightarrow> dm_get (allocations t) i = Some a" for i a
    using assms by (simp add: table_wf_def dm_mem_iff)
  note mem = this fold_unindex reap_def
  show "dm_get (by_client (reap P t)) addr =
      (if \<exists>i a. dm_get (allocations t) i = Some a \<and> P i a \<and> client_addr a = addr then None
       else dm_get (by_client t) addr)"
    and "dm_get (by_ice_ufrag (reap P t)) u =
      (if \<exists>i a. dm_get (allocations t) i = Some a \<and> P i a \<and> ice_ufrag a = Some u then None
       else dm_get (by_ice_ufrag t) u)"
    and "dm_get (by_peer_tuple (reap P t)) p =
      (if \<exists>i a. dm_get (allocations t) i = Some a \<and> P i a \<and> dm_get (known_peers a) p \<noteq> None
       then None else dm_get (by_peer_tuple t) p)"
    and "lookup_by_peer_ip (reap P t) q = filter (\<lambda>j. \<not> (\<exists>a. dm_get (allocations t) j = Some a
        \<and> P j a \<and> dm_get (permissions a) q \<noteq> None)) (lookup_by_peer_ip t q)"
    and "id_counter (reap P t) = id_counter t"
    by (auto simp: mem intro!: filter_cong)
qed

text \<open>Dropping entries from a map, and their keys from an exact index of it, keeps the index exact.\<close>

lemma exact_index_drop:
  assumes "\<And>k i. idx k = Some i \<longleftrightarrow> (\<exists>a. m i = Some a \<and> key a = Some k)"
  shows "(if \<exists>i a. m i = Some a \<and> P i a \<and> key a = Some k then None else idx k) = Some i
    \<longleftrightarrow> (\<exists>a. m i = Some a \<and> \<not> P i a \<and> key a = Some k)"
proof (cases "idx k = Some i")
  case True
  then obtain a where a: "m i = Some a" "key a = Some k" using assms by blast
  have "(\<exists>j b. m j = Some b \<and> P j b \<and> key b = Some k) \<longleftrightarrow> P i a"
  proof
    assume "\<exists>j b. m j = Some b \<and> P j b \<and> key b = Some k"
    then obtain j b where j: "m j = Some b" "P j b" "key b = Some k" by blast
    then have "idx k = Some j" unfolding assms by blast
    then show "P i a" using True j a by simp
  qed (use a in blast)
  then show ?thesis using a True by simp
next
  case False
  then have "\<not> (\<exists>a. m i = Some a \<and> key a = Some k)" unfolding assms .
  then show ?thesis using False by auto
qed

lemma reap_inv:
  assumes inv: "table_inv t"
  shows "table_inv (reap P t)"
proof -
  have wf: "table_wf t" using inv by (simp add: table_inv_def)
  note get = reap_get [OF wf, of P] and views = reap_views [OF wf, of P]
  let ?t = "reap P t"
  have "table_wf ?t" "perm_index_wf ?t"
    using inv fold_unindex_wf [OF wf, of "filter (\<lambda>(i, a). P i a) (allocations t)"]
    by (simp_all add: reap_def table_inv_def perms_ok_def table_wf_def perm_index_wf_def dm_wf_filter)
  moreover have "allocs_ok ?t"
    using table_inv_alloc [OF inv]
    by (auto simp: allocs_ok_def get views split: option.splits if_splits)
  moreover have "clients_ok ?t"
    unfolding clients_ok_def get views
    using exact_index_drop [of "dm_get (by_client t)" "dm_get (allocations t)" "\<lambda>a. Some (client_addr a)" P]
      table_inv_client [OF inv]
    by (simp split: option.split)
  moreover have "ufrags_ok ?t"
    unfolding ufrags_ok_def get views
    using exact_index_drop [of "dm_get (by_ice_ufrag t)" "dm_get (allocations t)" ice_ufrag P] table_inv_ufrag [OF inv]
    by (simp split: option.split)
  moreover have "j \<in> set (lookup_by_peer_ip t ip) \<longleftrightarrow> holds_permission t j ip" for j ip
    using inv by (simp add: table_inv_def perms_ok_def)
  then have "j \<in> set (lookup_by_peer_ip ?t ip) \<longleftrightarrow> holds_permission ?t j ip" for j ip
    by (auto simp: holds_permission_def get views split: option.splits)
  moreover have "knows_peer t j p" if "dm_get (by_peer_tuple t) p = Some j" for j p
    using inv that by (simp add: table_inv_def tuples_ok_def)
  then have "tuples_ok ?t"
    by (fastforce simp: tuples_ok_def knows_peer_def get views split: option.splits if_splits)
  ultimately show ?thesis by (simp add: table_inv_def perms_ok_def)
qed

lemma retain_is_reap: "snd (retain_unless P t) = reap (\<lambda>_. P) t"
  by (simp add: retain_unless_def reap_def Let_def)

lemma filter_one_key:
  assumes "dm_wf m" "dm_get m i = Some a"
  shows "filter (\<lambda>(j, _). j = i) m = [(i, a)]"
  using assms unfolding dm_wf_def dm_get_def
  by (induction m) (auto simp: filter_empty_conv rev_image_eqI split: if_splits)

lemma unindex_allocations_update:
  "unindex i a (t\<lparr>allocations := x\<rparr>) = (unindex i a t)\<lparr>allocations := x\<rparr>"
proof (rule alloc_table.equality)
  show "by_permission (unindex i a (t\<lparr>allocations := x\<rparr>))
      = by_permission ((unindex i a t)\<lparr>allocations := x\<rparr>)"
    using fold_rfpi_cong [of "t\<lparr>allocations := x\<rparr>" t] by (simp add: unindex_permission)
qed (simp_all add: unindex_def Let_def fold_rfpi split: option.splits)

lemma remove_is_reap:
  assumes "table_wf t"
  shows "table_remove i t =
    (case dm_get (allocations t) i of Some _ \<Rightarrow> (True, reap (\<lambda>j _. j = i) t) | None \<Rightarrow> (False, t))"
proof (cases "dm_get (allocations t) i")
  case (Some a)
  have wf: "dm_wf (allocations t)" using assms by (simp add: table_wf_def)
  have "dm_del i (allocations t) = filter (\<lambda>(j, _). j \<noteq> i) (allocations t)"
    by (auto simp: dm_del_def AList.delete_eq case_prod_unfold intro: filter_cong)
  then show ?thesis
    using Some filter_one_key [OF wf Some]
    by (simp add: table_remove_def reap_def unindex_allocations_update)
qed (simp add: table_remove_def)

subsection \<open>Periodic sweeps\<close>

lemma cleanup_channel_bindings_get:
  "dm_get (allocations (cleanup_channel_bindings now t)) i =
    map_option (cleanup_expired_channels now) (dm_get (allocations t) i)"
  by (simp add: cleanup_channel_bindings_def dm_get_map)

lemma cleanup_channel_bindings_inv:
  "table_inv t \<Longrightarrow> table_inv (cleanup_channel_bindings now t)"
  by (rule neutral_step_inv [where t = t and f = "\<lambda>_. cleanup_expired_channels now"])
    (simp_all add: cleanup_channel_bindings_def dm_get_map dm_wf_map neutral_updates
      table_inv_def table_wf_def)

lemma cleanup_expired_permissions_frame [simp]:
  "alloc_id (snd (cleanup_expired_permissions now a)) = alloc_id a"
  "client_addr (snd (cleanup_expired_permissions now a)) = client_addr a"
  "ice_ufrag (snd (cleanup_expired_permissions now a)) = ice_ufrag a"
  "known_peers (snd (cleanup_expired_permissions now a)) = known_peers a"
  by (simp_all add: cleanup_expired_permissions_def Let_def)

lemma reap_permissions_eq:
  "reap_permissions now (i, a) t =
    fold (\<lambda>ip. remove_from_permission_index ip i) (fst (cleanup_expired_permissions now a))
      (t\<lparr>allocations := dm_put i (snd (cleanup_expired_permissions now a)) (allocations t)\<rparr>)"
  by (simp add: case_prod_unfold Let_def)

declare reap_permissions.simps [simp del]

lemma reap_permissions_get:
  "dm_get (allocations (reap_permissions now (i, a) t)) j =
    (if j = i then Some (snd (cleanup_expired_permissions now a)) else dm_get (allocations t) j)"
  by (simp add: reap_permissions_eq fold_rfpi)

lemma reap_permissions_inv:
  assumes inv: "table_inv t" and a: "dm_get (allocations t) i = Some a"
  shows "table_inv (reap_permissions now (i, a) t)"
proof -
  let ?b = "snd (cleanup_expired_permissions now a)"
  let ?s = "t\<lparr>allocations := dm_put i ?b (allocations t)\<rparr>"
  let ?t = "reap_permissions now (i, a) t"
  have ainv: "alloc_inv a" "alloc_id a = i" "i < id_counter t" using table_inv_alloc [OF inv a] by simp_all
  have pwf: "dm_wf (permissions a)" using ainv(1) by (simp add: alloc_inv_def alloc_maps_wf_def)
  have get: "dm_get (allocations ?t) j = (if j = i then Some ?b else dm_get (allocations t) j)" for j
    by (rule reap_permissions_get)
  have frame: "by_client ?t = by_client t" "by_ice_ufrag ?t = by_ice_ufrag t"
    "by_peer_tuple ?t = by_peer_tuple t" "id_counter ?t = id_counter t"
    by (simp_all add: reap_permissions_eq fold_rfpi)
  have "allocs_ok ?t"
    unfolding allocs_ok_def get frame
    using table_inv_alloc [OF inv] ainv cleanup_permissions_inv by auto
  moreover have "clients_ok ?t"
    unfolding clients_ok_def get frame using table_inv_client [OF inv] a by auto
  moreover have "ufrags_ok ?t"
    unfolding ufrags_ok_def get frame using table_inv_ufrag [OF inv] a by (auto split: option.splits)
  moreover have "knows_peer ?t j p = knows_peer t j p" for j p
    unfolding knows_peer_def get using a by simp
  then have "tuples_ok ?t" using inv by (simp add: table_inv_def tuples_ok_def frame)
  moreover have "perm_index_wf ?s" "dm_wf (by_permission ?s)" "dm_wf (allocations ?s)"
    using inv by (simp_all add: table_inv_def perms_ok_def perm_index_wf_def table_wf_def dm_wf_put)
  then have "perm_index_wf ?t" "dm_wf (by_permission ?t)" "dm_wf (allocations ?t)"
    using fold_rfpi_wf [of ?s]
    by (simp_all add: reap_permissions_eq fold_rfpi)
  moreover have "j \<in> set (lookup_by_peer_ip ?t ip) \<longleftrightarrow> holds_permission ?t j ip" for j ip
  proof -
    have "j \<in> set (lookup_by_peer_ip t ip) \<longleftrightarrow> holds_permission t j ip"
      using inv by (simp add: table_inv_def perms_ok_def)
    then show ?thesis
      unfolding holds_permission_def get
      using a expired_permissions_iff [OF pwf, of ip now] cleanup_permissions_get [OF pwf, of now ip]
      by (auto simp: reap_permissions_eq fold_rfpi_lookup
          split: option.splits)
  qed
  ultimately show ?thesis
    using inv by (simp add: table_inv_def table_wf_def perms_ok_def frame)
qed

lemma fold_reap_permissions:
  assumes "table_inv t" "distinct (map fst xs)"
    "\<And>i a. (i, a) \<in> set xs \<Longrightarrow> dm_get (allocations t) i = Some a"
  shows "table_inv (fold (reap_permissions now) xs t)
    \<and> dm_get (allocations (fold (reap_permissions now) xs t)) j =
      (if j \<in> fst ` set xs
       then map_option (\<lambda>a. snd (cleanup_expired_permissions now a)) (dm_get (allocations t) j)
       else dm_get (allocations t) j)"
  using assms
proof (induction xs arbitrary: t)
  case (Cons x xs)
  obtain i a where x: "x = (i, a)" by fastforce
  have a: "dm_get (allocations t) i = Some a" using Cons.prems(3) x by simp
  let ?s = "reap_permissions now (i, a) t"
  have "dm_get (allocations ?s) j = Some b" if "(j, b) \<in> set xs" for j b
    using that Cons.prems(2,3) x unfolding reap_permissions_get by (force simp: rev_image_eqI)
  then have "table_inv (fold (reap_permissions now) xs ?s)
    \<and> dm_get (allocations (fold (reap_permissions now) xs ?s)) j =
      (if j \<in> fst ` set xs
       then map_option (\<lambda>a. snd (cleanup_expired_permissions now a)) (dm_get (allocations ?s) j)
       else dm_get (allocations ?s) j)"
    using Cons.IH [of ?s] reap_permissions_inv [OF Cons.prems(1) a] Cons.prems(2) by simp
  then show ?case
    using Cons.prems(2) x a unfolding reap_permissions_get by auto
qed simp

lemma cleanup_permissions_table:
  assumes "table_inv t"
  shows "table_inv (cleanup_permissions now t)"
    and "dm_get (allocations (cleanup_permissions now t)) i =
      map_option (\<lambda>a. snd (cleanup_expired_permissions now a)) (dm_get (allocations t) i)"
proof -
  have wf: "dm_wf (allocations t)" using assms by (simp add: table_inv_def table_wf_def)
  then have "distinct (map fst (allocations t))" by (simp add: dm_wf_def)
  note * = fold_reap_permissions [OF assms this, of now i] dm_mem_iff [OF wf]
  show "table_inv (cleanup_permissions now t)" using * by (simp add: cleanup_permissions_def)
  have "i \<notin> fst ` set (allocations t) \<Longrightarrow> dm_get (allocations t) i = None"
    by (simp add: dm_get_keys)
  then show "dm_get (allocations (cleanup_permissions now t)) i =
      map_option (\<lambda>a. snd (cleanup_expired_permissions now a)) (dm_get (allocations t) i)"
    using * by (auto simp: cleanup_permissions_def)
qed

lemma remove_inv: "table_inv t \<Longrightarrow> table_inv (snd (table_remove i t))"
  using reap_inv [of t] by (auto simp: remove_is_reap table_inv_def split: option.splits)

text \<open>A sweep is the removal, one by one, of what it dooms.\<close>

lemma fold_remove_eq:
  assumes "dm_wf (allocations t)" "distinct (map fst ds)" "set ds \<subseteq> set (allocations t)"
  shows "fold (\<lambda>i t. snd (table_remove i t)) (map fst ds) t =
    (fold (\<lambda>(i, a). unindex i a) ds t)
      \<lparr>allocations := filter (\<lambda>(j, _). j \<notin> fst ` set ds) (allocations t)\<rparr>"
  using assms
proof (induction ds arbitrary: t)
  case (Cons d ds)
  obtain i a where d: "d = (i, a)" by fastforce
  have get: "dm_get (allocations t) i = Some a"
    using Cons.prems d by (simp add: dm_mem_iff [symmetric])
  let ?rest = "filter (\<lambda>(j, _). j \<noteq> i) (allocations t)"
  have del: "dm_del i (allocations t) = ?rest"
    by (auto simp: dm_del_def AList.delete_eq case_prod_unfold intro: filter_cong)
  let ?s = "(unindex i a t)\<lparr>allocations := ?rest\<rparr>"
  have fold_upd: "fold (\<lambda>(i, a). unindex i a) ds (s\<lparr>allocations := x\<rparr>)
      = (fold (\<lambda>(i, a). unindex i a) ds s)\<lparr>allocations := x\<rparr>" for s x
    by (induction ds arbitrary: s) (auto simp: unindex_allocations_update)
  have step: "snd (table_remove i t) = ?s"
    using get del by (simp add: table_remove_def unindex_allocations_update)
  have "i \<notin> fst ` set ds" using Cons.prems(2) d by simp
  then have "set ds \<subseteq> set (allocations ?s)"
    using Cons.prems(3) by (auto simp: rev_image_eqI)
  moreover have "dm_wf (allocations ?s)" using Cons.prems(1) by (simp add: dm_wf_filter)
  moreover have "distinct (map fst ds)" using Cons.prems(2) by simp
  ultimately have "fold (\<lambda>i t. snd (table_remove i t)) (map fst ds) ?s
      = (fold (\<lambda>(i, a). unindex i a) ds ?s)
        \<lparr>allocations := filter (\<lambda>(j, _). j \<notin> fst ` set ds) ?rest\<rparr>"
    using Cons.IH [of ?s] by simp
  then show ?case
    using d step by (simp add: fold_upd [unfolded case_prod_unfold] case_prod_unfold conj_commute)
qed (simp add: case_prod_unfold)

lemma retain_is_removals:
  assumes "dm_wf (allocations t)"
  shows "retain_unless P t =
    (map (\<lambda>(i, a). sa_ip (client_addr a)) (filter (\<lambda>(i, a). P a) (allocations t)),
     fold (\<lambda>i t. snd (table_remove i t)) (map fst (filter (\<lambda>(i, a). P a) (allocations t))) t)"
proof -
  let ?ds = "filter (\<lambda>(i, a). P a) (allocations t)"
  have "distinct (map fst ?ds)" using assms by (simp add: dm_wf_def distinct_map_filter)
  then have "fold (\<lambda>i t. snd (table_remove i t)) (map fst ?ds) t =
      (fold (\<lambda>(i, a). unindex i a) ?ds t)
        \<lparr>allocations := filter (\<lambda>(j, _). j \<notin> fst ` set ?ds) (allocations t)\<rparr>"
    using fold_remove_eq [OF assms, of ?ds] by auto
  moreover have "filter (\<lambda>(j, _). j \<notin> fst ` set ?ds) (allocations t)
      = filter (\<lambda>(i, a). \<not> P a) (allocations t)"
  proof (rule filter_cong [OF refl])
    fix x assume "x \<in> set (allocations t)"
    then show "(case x of (j, _) \<Rightarrow> j \<notin> fst ` set ?ds) = (case x of (i, a) \<Rightarrow> \<not> P a)"
      using assms by (force simp: dm_mem_iff image_iff)
  qed
  ultimately show ?thesis by (simp add: retain_unless_def Let_def)
qed

subsection \<open>Allocations per address\<close>

definition ip_allocs :: "alloc_table \<Rightarrow> ip_addr \<Rightarrow> nat" where
  "ip_allocs t ip = dm_count (\<lambda>_ a. sa_ip (client_addr a) = ip) (allocations t)"

lemma ip_allocs_create:
  assumes "table_inv t"
  shows "ip_allocs (snd (create_or_get now client user lifetime txn t)) ip = ip_allocs t ip +
    (if snd (fst (create_or_get now client user lifetime txn t)) \<and> ip = sa_ip client then 1 else 0)"
proof (cases rule: create_or_get_cases [of t client now user lifetime txn])
  case created
  have "dm_wf (allocations t)" using assms by (simp add: table_inv_def table_wf_def)
  then show ?thesis
    using created fresh_id [OF assms]
    by (simp add: ip_allocs_def dm_count_eq dm.count_if_put_new new_allocation_def eq_commute)
qed simp

lemma ip_allocs_remove:
  assumes "table_inv t" "dm_get (allocations t) i = Some a"
  shows "ip_allocs (snd (table_remove i t)) ip =
      ip_allocs t ip - (if sa_ip (client_addr a) = ip then 1 else 0)"
    and "sa_ip (client_addr a) = ip \<Longrightarrow> 0 < ip_allocs t ip"
proof -
  have wf: "dm_wf (allocations t)" using assms by (simp add: table_inv_def table_wf_def)
  show "ip_allocs (snd (table_remove i t)) ip =
      ip_allocs t ip - (if sa_ip (client_addr a) = ip then 1 else 0)"
    using assms(2) dm.count_if_del(1) [OF wf assms(2)]
    by (simp add: ip_allocs_def dm_count_eq table_remove_def)
  show "sa_ip (client_addr a) = ip \<Longrightarrow> 0 < ip_allocs t ip"
    using dm.count_if_del(2) [OF wf assms(2), of "\<lambda>_ a. sa_ip (client_addr a) = ip"]
    by (simp add: ip_allocs_def dm_count_eq)
qed

lemma ip_allocs_retain:
  "ip_allocs (snd (retain_unless P t)) ip + count_list (fst (retain_unless P t)) ip = ip_allocs t ip"
proof -
  have "length (filter (\<lambda>(k, v). sa_ip (client_addr v) = ip) (filter (\<lambda>(i, a). \<not> P a) m))
      + count_list (map (\<lambda>(i, a). sa_ip (client_addr a)) (filter (\<lambda>(i, a). P a) m)) ip
      = length (filter (\<lambda>(k, v). sa_ip (client_addr v) = ip) m)" for m :: "(allocation_id, allocation) dmap"
    by (induction m) auto
  then show ?thesis by (simp add: ip_allocs_def dm_count_def retain_unless_def Let_def)
qed

lemma ip_allocs_same_clients:
  assumes "table_inv t" "dm_wf (allocations t')"
    and "\<And>i. map_option client_addr (dm_get (allocations t') i)
      = map_option client_addr (dm_get (allocations t) i)"
  shows "ip_allocs t' ip = ip_allocs t ip"
proof -
  have "dm_wf (allocations t)" using assms(1) by (simp add: table_inv_def table_wf_def)
  moreover have "dm.hits (\<lambda>_ a. sa_ip (client_addr a) = ip) (allocations s) =
      {k. case map_option client_addr (dm_get (allocations s) k) of Some c \<Rightarrow> sa_ip c = ip
          | None \<Rightarrow> False}" for s :: alloc_table
    by (auto simp: dm.hits_def split: option.splits)
  then have "dm.hits (\<lambda>_ a. sa_ip (client_addr a) = ip) (allocations t')
      = dm.hits (\<lambda>_ a. sa_ip (client_addr a) = ip) (allocations t)"
    by (simp only: assms(3))
  ultimately show ?thesis
    using assms(2) by (simp add: ip_allocs_def dm_count_eq dm.count_if_card)
qed

section \<open>The client map\<close>

text \<open>
  What the request handlers rely on: the table is a finite map from client addresses to
  allocations. Creating keeps an existing entry, dropping forgets one client and nobody else.
\<close>

locale client_registry =
  fixes lookup :: "'t \<Rightarrow> 'c \<Rightarrow> 'a option"
    and create :: "'p \<Rightarrow> 'c \<Rightarrow> 't \<Rightarrow> 't"
    and fresh :: "'p \<Rightarrow> 't \<Rightarrow> 'c \<Rightarrow> 'a"
    and drop_client :: "'c \<Rightarrow> 't \<Rightarrow> 't"
    and inv :: "'t \<Rightarrow> bool"
    and room :: "'t \<Rightarrow> bool"
  assumes create_inv: "inv t \<Longrightarrow> room t \<Longrightarrow> inv (create p c t)"
    and drop_inv: "inv t \<Longrightarrow> inv (drop_client c t)"
    and create_lookup: "inv t \<Longrightarrow> room t \<Longrightarrow> lookup (create p c t) =
      (case lookup t c of Some _ \<Rightarrow> lookup t | None \<Rightarrow> (lookup t)(c \<mapsto> fresh p t c))"
    and drop_lookup: "inv t \<Longrightarrow> lookup (drop_client c t) = (lookup t)(c := None)"
begin

lemma create_idem:
  assumes "inv t" "room t" "room (create p c t)"
  shows "lookup (create q c (create p c t)) = lookup (create p c t)"
  using assms by (auto simp: create_lookup create_inv split: option.splits)

lemma drop_create:
  assumes "inv t" "room t" "lookup t c = None"
  shows "lookup (drop_client c (create p c t)) = lookup t"
  using assms by (auto simp: drop_lookup create_lookup create_inv)

lemma drops_lookup:
  "inv t \<Longrightarrow> lookup (fold drop_client cs t) c = (if c \<in> set cs then None else lookup t c)"
  by (induction cs arbitrary: t) (auto simp: drop_lookup drop_inv)

end

definition drop_by_client :: "socket_addr \<Rightarrow> alloc_table \<Rightarrow> alloc_table" where
  "drop_by_client c t =
    (case get_by_client t c of Some a \<Rightarrow> snd (table_remove (alloc_id a) t) | None \<Rightarrow> t)"

fun create_for :: "u64 \<times> rstring \<times> u32 \<times> bytes \<Rightarrow> socket_addr \<Rightarrow> alloc_table \<Rightarrow> alloc_table" where
  "create_for (now, user, lifetime, txn) c t = snd (create_or_get now c user lifetime txn t)"

fun fresh_for :: "u64 \<times> rstring \<times> u32 \<times> bytes \<Rightarrow> alloc_table \<Rightarrow> socket_addr \<Rightarrow> allocation" where
  "fresh_for (now, user, lifetime, txn) t c = new_allocation now (id_counter t) c user lifetime txn"

lemma reap_by_client:
  assumes "table_inv t"
  shows "get_by_client (reap P t) c =
    (case get_by_client t c of
       Some a \<Rightarrow> if P (alloc_id a) a then None else Some a | None \<Rightarrow> None)"
proof (rule option_eqI)
  have wf: "table_wf t" using assms by (simp add: table_inv_def)
  fix a
  show "get_by_client (reap P t) c = Some a \<longleftrightarrow>
    (case get_by_client t c of
       Some a \<Rightarrow> if P (alloc_id a) a then None else Some a | None \<Rightarrow> None) = Some a"
    unfolding get_by_client_iff [OF reap_inv [OF assms]] reap_get [OF wf]
    using get_by_client_iff [OF assms, of c a]
    by (cases "get_by_client t c") (auto split: option.splits if_splits)
qed

lemma create_by_client:
  assumes "table_inv t"
  shows "get_by_client (snd (create_or_get now c user lifetime txn t)) =
    (case get_by_client t c of
       Some _ \<Rightarrow> get_by_client t
     | None \<Rightarrow> (get_by_client t)(c \<mapsto> new_allocation now (id_counter t) c user lifetime txn))"
proof (cases rule: create_or_get_cases [of t c now user lifetime txn])
  case existing
  then obtain a where "get_by_client t c = Some a"
    using table_inv_client [OF assms] by (auto simp: get_by_client_def)
  then show ?thesis using existing by simp
next
  case created
  moreover have "dm_get (by_client t) d \<noteq> Some (id_counter t)" for d
    using table_inv_client [OF assms, of d "id_counter t"] fresh_id [OF assms] by simp
  ultimately show ?thesis
    by (auto simp: get_by_client_def fun_eq_iff split: option.splits)
qed

interpretation registry: client_registry get_by_client create_for fresh_for drop_by_client table_inv
  "\<lambda>t. id_counter t + 1 < 2 ^ 64"
proof unfold_locales
  fix t :: alloc_table and p :: "u64 \<times> rstring \<times> u32 \<times> bytes" and c
  obtain now user lifetime txn where p: "p = (now, user, lifetime, txn)" by (cases p)
  assume inv: "table_inv t"
  show "table_inv (create_for p c t)" if "id_counter t + 1 < 2 ^ 64"
    using create_or_get_inv [OF inv that] by (simp add: p)
  show "get_by_client (create_for p c t) =
      (case get_by_client t c of Some _ \<Rightarrow> get_by_client t
       | None \<Rightarrow> (get_by_client t)(c \<mapsto> fresh_for p t c))"
    using create_by_client [OF inv] by (simp add: p split: option.split)
  show "table_inv (drop_by_client c t)"
    using remove_inv [OF inv] inv by (simp add: drop_by_client_def split: option.splits)
  show "get_by_client (drop_by_client c t) = (get_by_client t)(c := None)"
  proof (cases "get_by_client t c")
    case (Some a)
    then have "dm_get (allocations t) (alloc_id a) = Some a" "client_addr a = c"
      using get_by_client_iff [OF inv] by simp_all
    moreover have "alloc_id b \<noteq> alloc_id a" if "get_by_client t d = Some b" "d \<noteq> c" for b d
      using that calculation get_by_client_iff [OF inv, of d b] by auto
    ultimately show ?thesis
      using Some inv reap_by_client [OF inv]
      by (auto simp: drop_by_client_def remove_is_reap table_inv_def fun_eq_iff split: option.splits)
  qed (simp add: drop_by_client_def fun_eq_iff)
qed

section \<open>Histories of table operations\<close>

datatype table_op =
    OpCreate u64 socket_addr rstring u32 bytes
  | OpRegisterUfrags allocation_id rstring rstring
  | OpAddPermission u64 allocation_id ip_addr
  | OpTryAdd u64 allocation_id "ip_addr list" nat
  | OpRegisterTuple u64 allocation_id socket_addr
  | OpBind u64 allocation_id channel socket_addr
  | OpRefresh u64 allocation_id u32
  | OpTouch u64 allocation_id
  | OpTouchReceived u64 allocation_id
  | OpRelaySuccess u64 allocation_id
  | OpRelayAttempt u64 allocation_id
  | OpRemove allocation_id
  | OpSweepChannels u64
  | OpSweepPermissions u64
  | OpExpire u64
  | OpInactive u64 u64
  | OpOrphaned u64 u64

fun run_table_op :: "table_op \<Rightarrow> alloc_table \<Rightarrow> alloc_table" where
  "run_table_op (OpCreate now c u l x) t = snd (create_or_get now c u l x t)"
| "run_table_op (OpRegisterUfrags i l r) t = snd (register_ice_ufrags i l r t)"
| "run_table_op (OpAddPermission now i ip) t = table_add_permission now i ip t"
| "run_table_op (OpTryAdd now i ips cap) t = snd (try_add_permissions_capped now i ips cap t)"
| "run_table_op (OpRegisterTuple now i p) t = register_peer_tuple now i p t"
| "run_table_op (OpBind now i ch p) t = with_alloc i (bind_channel now ch p) t"
| "run_table_op (OpRefresh now i l) t = with_alloc i (alloc_refresh now l) t"
| "run_table_op (OpTouch now i) t = with_alloc i (touch now) t"
| "run_table_op (OpTouchReceived now i) t = with_alloc i (touch_received now) t"
| "run_table_op (OpRelaySuccess now i) t = with_alloc i (touch_relay_success now) t"
| "run_table_op (OpRelayAttempt now i) t = with_alloc i (touch_relay_attempt now) t"
| "run_table_op (OpRemove i) t = snd (table_remove i t)"
| "run_table_op (OpSweepChannels now) t = cleanup_channel_bindings now t"
| "run_table_op (OpSweepPermissions now) t = cleanup_permissions now t"
| "run_table_op (OpExpire now) t = snd (cleanup_expired now t)"
| "run_table_op (OpInactive now s) t = snd (cleanup_inactive now s t)"
| "run_table_op (OpOrphaned now s) t = snd (cleanup_orphaned_senders now s t)"

text \<open>
  What the calls of a history have in common: the id counter has not wrapped, and an id passed to
  \<open>add_permission\<close> is one the table has handed out, since \<open>AllocationId::new\<close> is private to its module.
  Whether that allocation is still there is not asked; no other call needs anything.
\<close>

fun op_ok :: "alloc_table \<Rightarrow> table_op \<Rightarrow> bool" where
  "op_ok t (OpCreate now c u l x) \<longleftrightarrow> id_counter t + 1 < 2 ^ 64"
| "op_ok t (OpAddPermission now i ip) \<longleftrightarrow> i < id_counter t"
| "op_ok t _ \<longleftrightarrow> True"

fun run_table_ops :: "table_op list \<Rightarrow> alloc_table \<Rightarrow> alloc_table option" where
  "run_table_ops [] t = Some t"
| "run_table_ops (x # xs) t = (if op_ok t x then run_table_ops xs (run_table_op x t) else None)"

lemma table_add_permission_inv:
  assumes "table_inv t" "dm_get (allocations t) i = Some a"
  shows "table_inv (table_add_permission now i ip t)"
  using grant_inv [OF assms, of "[ip]" now] by (simp add: table_add_permission_def comp_def id_def)

lemma try_add_permissions_inv:
  "table_inv t \<Longrightarrow> table_inv (snd (try_add_permissions_capped now i ips cap t))"
  using grant_inv by (simp add: try_add_permissions_capped_def Let_def split: option.splits)

lemma new_table_inv: "table_inv new_table"
  by (simp add: table_inv_def table_wf_def allocs_ok_def clients_ok_def ufrags_ok_def perms_ok_def
      perm_index_wf_def tuples_ok_def lookup_by_peer_ip_def holds_permission_def new_table_def)

text \<open>On an allocation that is there, every call keeps all the indices consistent.\<close>

fun op_alive :: "alloc_table \<Rightarrow> table_op \<Rightarrow> bool" where
  "op_alive t (OpAddPermission now i ip) \<longleftrightarrow> dm_get (allocations t) i \<noteq> None"
| "op_alive t (OpRegisterTuple now i p) \<longleftrightarrow> dm_get (allocations t) i \<noteq> None"
| "op_alive t _ \<longleftrightarrow> True"

lemma run_table_op_inv:
  assumes "table_inv t" "op_ok t x" "op_alive t x"
  shows "table_inv (run_table_op x t)"
  using assms
  by (cases x) (auto simp: create_or_get_inv register_ice_ufrags_inv table_add_permission_inv
      try_add_permissions_inv register_peer_tuple_inv with_alloc_inv neutral_updates remove_inv
      cleanup_channel_bindings_inv cleanup_permissions_table cleanup_expired_def cleanup_inactive_def
      cleanup_orphaned_senders_def retain_is_reap reap_inv)

section \<open>Properties\<close>

lemmas table_eval = create_or_get_def new_table_def table_get_def get_by_client_def is_client_def
  try_add_permissions_capped_def new_ips_def index_permission_def with_alloc_def
  register_peer_tuple_def cleanup_expired_def retain_unless_def is_expired_def new_allocation_def
  alloc_add_permission_def dm_count_def dm_get_def dm_put_def add_u64_def Let_def

definition demo_ops :: "table_op list" where
  "demo_ops = [OpCreate 0 demo_client (str ''u'') 600 (replicate 12 0),
     OpTryAdd 1 1 [sa_ip demo_peer] 10, OpRegisterTuple 2 1 demo_peer, OpExpire 3]"

text \<open>
  \<open>remove\<close> leaves no trace: afterwards the allocation is in no index, and every other
  allocation, client, ICE fragment and permission entry is what it was.
\<close>

lemma remove_leaves_no_trace:
  assumes "table_inv t" "table_get t i = Some a"
  shows "case table_remove i t of (removed, t') \<Rightarrow>
    removed \<and> table_inv t'
    \<and> (\<forall>j. table_get t' j = (if j = i then None else table_get t j))
    \<and> (\<forall>c. get_by_client t' c = (if c = client_addr a then None else get_by_client t c))
    \<and> (\<forall>u. lookup_by_ice_ufrag t' u = (if ice_ufrag a = Some u then None else lookup_by_ice_ufrag t u))
    \<and> (\<forall>ip. lookup_by_peer_ip t' ip = filter (\<lambda>j. j \<noteq> i) (lookup_by_peer_ip t ip))
    \<and> (\<forall>p. lookup_by_peer_tuple t' p \<noteq> Some i)"
proof -
  let ?t = "reap (\<lambda>j _. j = i) t"
  have wf: "table_wf t" using assms(1) by (simp add: table_inv_def)
  have a: "dm_get (allocations t) i = Some a" using assms(2) by (simp add: table_get_def)
  have rm: "table_remove i t = (True, ?t)" using a by (simp add: remove_is_reap [OF wf])
  have inv: "table_inv ?t" by (rule reap_inv [OF assms(1)])
  have gone: "dm_get (allocations ?t) i = None" using a by (simp add: reap_get [OF wf])
  have client: "get_by_client t (client_addr a) = Some a" "alloc_id a = i"
    using table_inv_alloc [OF assms(1) a] a by (simp_all add: get_by_client_iff [OF assms(1)])
  have "get_by_client ?t c = (if c = client_addr a then None else get_by_client t c)" for c
  proof (cases "get_by_client t c")
    case (Some b)
    then have "dm_get (allocations t) (alloc_id b) = Some b" "client_addr b = c"
      using get_by_client_iff [OF assms(1)] by simp_all
    then have "alloc_id b = i \<longleftrightarrow> c = client_addr a"
      using a client Some by (metis option.inject)
    then show ?thesis using Some by (simp add: reap_by_client [OF assms(1)])
  qed (simp add: reap_by_client [OF assms(1)])
  moreover have "lookup_by_peer_ip ?t ip = filter (\<lambda>j. j \<noteq> i) (lookup_by_peer_ip t ip)" for ip
  proof -
    have "i \<in> set (lookup_by_peer_ip t ip) \<longleftrightarrow> dm_get (permissions a) ip \<noteq> None"
      using assms(1) a by (simp add: table_inv_def perms_ok_def holds_permission_def)
    then have "(\<nexists>b. dm_get (allocations t) j = Some b \<and> j = i \<and> dm_get (permissions b) ip \<noteq> None)
        \<longleftrightarrow> j \<noteq> i" if "j \<in> set (lookup_by_peer_ip t ip)" for j
      using a that by (cases "j = i") simp_all
    then show ?thesis unfolding reap_views(4) [OF wf] by (rule filter_cong [OF refl])
  qed
  moreover have "lookup_by_peer_tuple ?t p \<noteq> Some i" for p
    using table_inv_tuple [OF inv, of p i] gone by (auto simp: lookup_by_peer_tuple_def)
  moreover have "table_get ?t j = (if j = i then None else table_get t j)" for j
    by (auto simp: table_get_def reap_get [OF wf] split: option.splits)
  moreover have "lookup_by_ice_ufrag ?t u
      = (if ice_ufrag a = Some u then None else lookup_by_ice_ufrag t u)" for u
    using a by (auto simp: lookup_by_ice_ufrag_def reap_views [OF wf])
  ultimately show ?thesis using rm inv by simp
qed

definition demo_table :: alloc_table where
  "demo_table = snd (create_or_get 0 demo_client (str ''u'') 600 (replicate 12 0) new_table)"

lemma demo_table_inv: "table_inv demo_table"
  unfolding demo_table_def by (intro create_or_get_inv new_table_inv) (simp add: new_table_def)

lemma demo_table_get: "table_get demo_table 1 = Some demo_alloc"
  by (simp add: demo_table_def demo_alloc_def table_eval)

lemma capped_count:
  assumes "dm_wf (permissions a)"
    and "permissions_count now a + length (new_ips now a ips) \<le> cap"
    and "alloc_inv (fold (alloc_add_permission now) ips a)"
  shows "permissions_count now (fold (alloc_add_permission now) ips a) \<le> cap"
proof -
  let ?b = "fold (alloc_add_permission now) ips a" and ?P = "\<lambda>_ e. now < e"
  have wf: "dm_wf (permissions ?b)" using assms(3) by (simp add: alloc_inv_def alloc_maps_wf_def)
  have "dm.hits ?P (permissions ?b) \<subseteq> dm.hits ?P (permissions a) \<union> set (new_ips now a ips)"
    by (auto simp: dm.hits_def fold_add_permission(1) new_ips_def split: if_splits option.splits)
  then have "card (dm.hits ?P (permissions ?b))
      \<le> card (dm.hits ?P (permissions a)) + card (set (new_ips now a ips))"
    by (meson List.finite_set assms(1) card_Un_le card_mono dm.finite_hits finite_UnI order_trans)
  also have "\<dots> \<le> card (dm.hits ?P (permissions a)) + length (new_ips now a ips)"
    by (simp add: card_length)
  finally show ?thesis
    using assms(1,2) wf by (simp add: permissions_count_def dm_count_eq dm.count_if_card)
qed

text \<open>
  The permission cap holds and a refused request changes nothing. An accepted request gives
  every listed address a fresh five-minute permission, leaves at most \<open>cap\<close> live permissions and
  touches no other permission and no other allocation.
\<close>

lemma try_add_permissions_capped_exact:
  assumes "table_inv t"
  shows "case try_add_permissions_capped now i ips cap t of
      (False, t') \<Rightarrow> t' = t
    | (True, t') \<Rightarrow> table_inv t' \<and> (\<forall>j. j \<noteq> i \<longrightarrow> table_get t' j = table_get t j)
        \<and> (\<exists>a b. table_get t i = Some a \<and> table_get t' i = Some b
            \<and> permissions_count now b \<le> cap
            \<and> (\<forall>later ip. is_permitted later b ip \<longleftrightarrow>
                (if ip \<in> set ips then later < add_u64 now PERMISSION_LIFETIME_MS
                 else is_permitted later a ip)))"
proof (cases "dm_get (allocations t) i")
  case None
  then show ?thesis by (simp add: try_add_permissions_capped_def)
next
  case (Some a)
  let ?b = "fold (alloc_add_permission now) ips a"
  show ?thesis
  proof (cases "permissions_count now a + length (new_ips now a ips) > cap")
    case True
    then show ?thesis
      using Some by (simp add: try_add_permissions_capped_def permissions_count_def Let_def)
  next
    case False
    let ?t = "fold (index_permission i) ips (with_alloc i (fold (alloc_add_permission now) ips) t)"
    have "try_add_permissions_capped now i ips cap t = (True, ?t)"
      using False Some by (simp add: try_add_permissions_capped_def permissions_count_def Let_def)
    moreover have inv: "table_inv ?t" by (rule grant_inv [OF assms Some])
    moreover have "table_get ?t j = (if j = i then Some ?b else table_get t j)" for j
      using Some by (simp add: table_get_def fold_index)
    moreover have ainv: "alloc_inv a" using table_inv_alloc [OF assms Some] by simp
    then have "permissions_count now ?b \<le> cap"
      using capped_count False fold_add_permission_inv
      by (simp add: alloc_inv_def alloc_maps_wf_def)
    ultimately show ?thesis
      using Some by (simp add: table_get_def is_permitted_def fold_add_permission(1))
  qed
qed

text \<open>
  C26. An ICE username fragment belongs to the first allocation that registers it. While it does, a
  registration by any other allocation is refused without effect, and pair lookup finds exactly
  the allocation whose own pair is the sender's, mirrored.
\<close>

theorem ice_ufrag_ownership:
  assumes "table_inv t"
  shows "(lookup_by_ice_ufrag t l = Some owner \<and> owner \<noteq> i \<longrightarrow> register_ice_ufrags i l r t = (False, t))
    \<and> (fst (register_ice_ufrags i l r t) \<longrightarrow>
        lookup_by_ice_ufrag (snd (register_ice_ufrags i l r t)) l = Some i)
    \<and> (find_ice_peer t sl sr = Some j \<longleftrightarrow>
        (\<exists>b. table_get t j = Some b \<and> ice_ufrag b = Some sr \<and> ice_remote_ufrag b = Some sl))"
proof (intro conjI)
  show "lookup_by_ice_ufrag t l = Some owner \<and> owner \<noteq> i \<longrightarrow> register_ice_ufrags i l r t = (False, t)"
    by (simp add: lookup_by_ice_ufrag_def register_ice_ufrags_def split: option.splits)
  show "fst (register_ice_ufrags i l r t) \<longrightarrow>
      lookup_by_ice_ufrag (snd (register_ice_ufrags i l r t)) l = Some i"
    using assms
    by (cases rule: register_ice_ufrags_cases [of t i l r]) (simp_all add: lookup_by_ice_ufrag_def)
  show "find_ice_peer t sl sr = Some j \<longleftrightarrow>
      (\<exists>b. table_get t j = Some b \<and> ice_ufrag b = Some sr \<and> ice_remote_ufrag b = Some sl)"
  proof (cases "dm_get (by_ice_ufrag t) sr")
    case None
    then show ?thesis
      using table_inv_ufrag [OF assms, of sr j] by (auto simp: find_ice_peer_def table_get_def)
  next
    case (Some k)
    then obtain a where "dm_get (allocations t) k = Some a" "ice_ufrag a = Some sr"
      using table_inv_ufrag [OF assms] by blast
    moreover have "j = k" if "dm_get (allocations t) j = Some b" "ice_ufrag b = Some sr" for b
      using that Some table_inv_ufrag [OF assms, of sr j] by simp
    ultimately show ?thesis
      using Some by (auto simp: find_ice_peer_def table_get_def split: option.splits)
  qed
qed

theorem ice_ufrag_ownership_witness:
  "register_ice_ufrags 2 (str ''alice'') (str ''x'')
      (snd (register_ice_ufrags 1 (str ''alice'') (str ''bob'') demo_table))
    = (False, snd (register_ice_ufrags 1 (str ''alice'') (str ''bob'') demo_table))"
proof -
  let ?t = "snd (register_ice_ufrags 1 (str ''alice'') (str ''bob'') demo_table)"
  have "fst (register_ice_ufrags 1 (str ''alice'') (str ''bob'') demo_table)"
    using demo_table_get
    by (simp add: register_ice_ufrags_def table_get_def demo_table_def create_or_get_def
        new_table_def demo_alloc_def new_allocation_def get_ice_ufrag_def Let_def)
  then have "lookup_by_ice_ufrag ?t (str ''alice'') = Some 1"
    using ice_ufrag_ownership [OF demo_table_inv] by blast
  then show ?thesis
    using ice_ufrag_ownership [OF register_ice_ufrags_inv [OF demo_table_inv], where owner = 1]
    by simp
qed

end
