(* ===== verification/Rate_Limit.thy ===== *)
theory Rate_Limit
  imports Net_Addr Coarse_Time
begin

text \<open>
  Admission control for Allocate requests, \<open>src/lookup/rate_limit.rs\<close>: a sliding 60-second
  window of request times and a quota of active allocations per IP address.
\<close>

section \<open>Definitions\<close>

datatype rate_limit_error = TooManyRequests | QuotaExceeded

record rate_limit_entry =
  request_times :: "instant list"
  allocation_count_of :: nat

record rate_limiter =
  entries_of :: "(ip_addr, rate_limit_entry) dmap"
  max_requests_per_minute :: nat
  max_allocations_per_ip :: nat

definition default_entry :: rate_limit_entry where
  "default_entry = \<lparr>request_times = [], allocation_count_of = 0\<rparr>"

text \<open>60 seconds in the nanoseconds of an \<open>Instant\<close>.\<close>

definition WINDOW :: nat where
  "WINDOW = 60000000000"

definition new_rate_limiter :: "nat \<Rightarrow> nat \<Rightarrow> rate_limiter" where
  "new_rate_limiter max_requests max_allocations =
    \<lparr>entries_of = [], max_requests_per_minute = max_requests,
     max_allocations_per_ip = max_allocations\<rparr>"

text \<open>The \<open>while let Some(&oldest)\<close> loop over the deque.\<close>

fun pop_expired :: "instant \<Rightarrow> instant list \<Rightarrow> instant list" where
  "pop_expired now [] = []"
| "pop_expired now (oldest # rest) =
    (if now - oldest \<ge> WINDOW then pop_expired now rest else oldest # rest)"

definition entry_or_default :: "rate_limiter \<Rightarrow> ip_addr \<Rightarrow> rate_limit_entry" where
  "entry_or_default rl ip =
    (case dm_get (entries_of rl) ip of Some e \<Rightarrow> e | None \<Rightarrow> default_entry)"

definition set_entry :: "rate_limiter \<Rightarrow> ip_addr \<Rightarrow> rate_limit_entry \<Rightarrow> rate_limiter" where
  "set_entry rl ip e = rl\<lparr>entries_of := dm_put ip e (entries_of rl)\<rparr>"

text \<open>The quota half of \<open>check_allocation_request\<close>, on the entry with its times updated.\<close>

definition reserve_slot ::
  "rate_limiter \<Rightarrow> ip_addr \<Rightarrow> rate_limit_entry \<Rightarrow> (rate_limit_error + unit) \<times> rate_limiter" where
  "reserve_slot rl ip entry =
    (if max_allocations_per_ip rl > 0 \<and> allocation_count_of entry \<ge> max_allocations_per_ip rl
     then (Inl QuotaExceeded, set_entry rl ip entry)
     else (Inr (), set_entry rl ip
             (entry\<lparr>allocation_count_of := sat_succ_u32 (allocation_count_of entry)\<rparr>)))"

definition check_allocation_request ::
  "instant \<Rightarrow> rate_limiter \<Rightarrow> ip_addr \<Rightarrow> (rate_limit_error + unit) \<times> rate_limiter" where
  "check_allocation_request now rl ip =
    (let entry = entry_or_default rl ip
     in if max_requests_per_minute rl > 0 then
          let recent = pop_expired now (request_times entry)
          in if length recent \<ge> max_requests_per_minute rl
             then (Inl TooManyRequests, set_entry rl ip (entry\<lparr>request_times := recent\<rparr>))
             else reserve_slot rl ip (entry\<lparr>request_times := recent @ [now]\<rparr>)
        else reserve_slot rl ip entry)"

definition record_allocation :: "rate_limiter \<Rightarrow> ip_addr \<Rightarrow> rate_limiter" where
  "record_allocation rl ip = rl"

definition cancel_reservation :: "rate_limiter \<Rightarrow> ip_addr \<Rightarrow> rate_limiter" where
  "cancel_reservation rl ip =
    (case dm_get (entries_of rl) ip of
       Some entry \<Rightarrow> set_entry rl ip
         (entry\<lparr>allocation_count_of := allocation_count_of entry - 1\<rparr>)
     | None \<Rightarrow> rl)"

definition record_deallocation :: "rate_limiter \<Rightarrow> ip_addr \<Rightarrow> rate_limiter" where
  "record_deallocation rl ip =
    (case dm_get (entries_of rl) ip of
       Some entry \<Rightarrow> set_entry rl ip
         (entry\<lparr>allocation_count_of := allocation_count_of entry - 1\<rparr>)
     | None \<Rightarrow> rl)"

definition allocation_count :: "rate_limiter \<Rightarrow> ip_addr \<Rightarrow> nat" where
  "allocation_count rl ip =
    (case dm_get (entries_of rl) ip of Some e \<Rightarrow> allocation_count_of e | None \<Rightarrow> 0)"

text \<open>\<open>RateLimiter::cleanup\<close>: the closure given to \<open>retain\<close> trims each entry and says whether it stays.\<close>

definition trim_entry :: "instant \<Rightarrow> rate_limit_entry \<Rightarrow> rate_limit_entry" where
  "trim_entry now e = e\<lparr>request_times := pop_expired now (request_times e)\<rparr>"

definition keeps_entry :: "rate_limit_entry \<Rightarrow> bool" where
  "keeps_entry e \<longleftrightarrow> allocation_count_of e > 0 \<or> request_times e \<noteq> []"

definition limiter_cleanup :: "instant \<Rightarrow> rate_limiter \<Rightarrow> rate_limiter" where
  "limiter_cleanup now rl =
    rl\<lparr>entries_of := filter (\<lambda>(ip, e). keeps_entry e)
                       (map (\<lambda>(ip, e). (ip, trim_entry now e)) (entries_of rl))\<rparr>"

text \<open>\<open>Display\<close> of the error.\<close>

fun rate_limit_error_text :: "rate_limit_error \<Rightarrow> string" where
  "rate_limit_error_text TooManyRequests = ''rate limit exceeded''"
| "rate_limit_error_text QuotaExceeded = ''allocation quota exceeded''"

section \<open>Operations over time\<close>

text \<open>
  A history of the limiter: each operation with the instant it ran at. \<open>run_ops\<close> returns the
  final state and the log of admitted requests, those that passed the rate check and whose time
  was recorded.
\<close>

datatype limiter_op = Check ip_addr | Cancel ip_addr | Dealloc ip_addr | Cleanup

fun limiter_step ::
  "instant \<times> limiter_op \<Rightarrow> rate_limiter \<Rightarrow> rate_limiter \<times> (instant \<times> ip_addr) list" where
  "limiter_step (now, Check ip) rl =
    (case check_allocation_request now rl ip of
       (Inl TooManyRequests, rl') \<Rightarrow> (rl', [])
     | (_, rl') \<Rightarrow> (rl', [(now, ip)]))"
| "limiter_step (now, Cancel ip) rl = (cancel_reservation rl ip, [])"
| "limiter_step (now, Dealloc ip) rl = (record_deallocation rl ip, [])"
| "limiter_step (now, Cleanup) rl = (limiter_cleanup now rl, [])"

fun run_ops ::
  "(instant \<times> limiter_op) list \<Rightarrow> rate_limiter \<Rightarrow> rate_limiter \<times> (instant \<times> ip_addr) list" where
  "run_ops [] rl = (rl, [])"
| "run_ops (x # xs) rl =
    (let (rl', l) = limiter_step x rl; (rl'', ls) = run_ops xs rl' in (rl'', l @ ls))"

text \<open>The admitted request times of one address that fall in the window starting at \<open>a\<close>.\<close>

definition in_window :: "ip_addr \<Rightarrow> instant \<Rightarrow> (instant \<times> ip_addr) list \<Rightarrow> nat" where
  "in_window ip a log = length (filter (\<lambda>(t, i). i = ip \<and> a \<le> t \<and> t < a + WINDOW) log)"

section \<open>Lemmas\<close>

lemma set_entry_sel [simp]:
  "max_requests_per_minute (set_entry rl ip e) = max_requests_per_minute rl"
  "max_allocations_per_ip (set_entry rl ip e) = max_allocations_per_ip rl"
  "dm_get (entries_of (set_entry rl ip e)) ip' = (if ip' = ip then Some e else dm_get (entries_of rl) ip')"
  "dm_wf (entries_of rl) \<Longrightarrow> dm_wf (entries_of (set_entry rl ip e))"
  by (simp_all add: set_entry_def dm_wf_put)

lemma entry_or_default_set [simp]:
  "entry_or_default (set_entry rl ip e) ip' = (if ip' = ip then e else entry_or_default rl ip')"
  by (simp add: entry_or_default_def)

lemma allocation_count_entry: "allocation_count rl ip = allocation_count_of (entry_or_default rl ip)"
  by (simp add: allocation_count_def entry_or_default_def default_entry_def split: option.splits)

lemma pop_expired_dropWhile: "pop_expired now ts = dropWhile (\<lambda>t. now - t \<ge> WINDOW) ts"
  by (induction ts) auto

lemma pop_expired_mono: "now \<le> now' \<Longrightarrow> pop_expired now' (pop_expired now ts) = pop_expired now' ts"
  by (induction ts) auto

lemma pop_expired_split:
  "\<exists>old. ts = old @ pop_expired now ts \<and> (\<forall>t \<in> set old. now - t \<ge> WINDOW)"
  unfolding pop_expired_dropWhile
  by (intro exI [of _ "takeWhile (\<lambda>t. now - t \<ge> WINDOW) ts"]) (auto dest: set_takeWhileD)

text \<open>Trimming and dropping idle entries is invisible through the entry view.\<close>

lemma trim_unkept: "\<not> keeps_entry (trim_entry now e) \<Longrightarrow> trim_entry now e = default_entry"
  by (cases e) (simp add: keeps_entry_def trim_entry_def default_entry_def)

lemma cleanup_entry:
  assumes "dm_wf (entries_of rl)"
  shows "entry_or_default (limiter_cleanup now rl) ip = trim_entry now (entry_or_default rl ip)"
proof -
  let ?m = "map (\<lambda>(ip, e). (ip, trim_entry now e)) (entries_of rl)"
  have "dm_get (filter (\<lambda>(ip, e). keeps_entry e) ?m) ip
      = (case dm_get ?m ip of Some e \<Rightarrow> if keeps_entry e then Some e else None | None \<Rightarrow> None)"
    using assms by (intro dm_get_filter) (simp add: dm_wf_map)
  moreover have "trim_entry now default_entry = default_entry"
    by (simp add: trim_entry_def default_entry_def)
  ultimately show ?thesis
    by (auto simp: entry_or_default_def limiter_cleanup_def dm_get_map trim_unkept
        split: option.splits)
qed

lemma cleanup_frame [simp]:
  "max_requests_per_minute (limiter_cleanup now rl) = max_requests_per_minute rl"
  "max_allocations_per_ip (limiter_cleanup now rl) = max_allocations_per_ip rl"
  "dm_wf (entries_of rl) \<Longrightarrow> dm_wf (entries_of (limiter_cleanup now rl))"
  by (simp_all add: limiter_cleanup_def dm_wf_filter dm_wf_map)

lemma cancel_is_dealloc: "cancel_reservation rl ip = record_deallocation rl ip"
  by (simp add: cancel_reservation_def record_deallocation_def)

lemma dealloc_frame [simp]:
  "max_requests_per_minute (record_deallocation rl ip) = max_requests_per_minute rl"
  "max_allocations_per_ip (record_deallocation rl ip) = max_allocations_per_ip rl"
  "dm_wf (entries_of rl) \<Longrightarrow> dm_wf (entries_of (record_deallocation rl ip))"
  by (auto simp: record_deallocation_def split: option.splits)

lemma dealloc_entry:
  "entry_or_default (record_deallocation rl ip) i =
    (if i = ip then (entry_or_default rl i)\<lparr>allocation_count_of :=
        allocation_count_of (entry_or_default rl i) - 1\<rparr>
     else entry_or_default rl i)"
  by (auto simp: record_deallocation_def entry_or_default_def default_entry_def
      split: option.splits)

lemma check_cases:
  obtains (limited) "check_allocation_request now rl ip = (Inl TooManyRequests, set_entry rl ip
        ((entry_or_default rl ip)\<lparr>request_times := pop_expired now (request_times (entry_or_default rl ip))\<rparr>))"
      "max_requests_per_minute rl > 0"
    | (quota) ts where "check_allocation_request now rl ip = (Inl QuotaExceeded, set_entry rl ip
        ((entry_or_default rl ip)\<lparr>request_times := ts\<rparr>))"
      "max_requests_per_minute rl > 0 \<longrightarrow>
         ts = pop_expired now (request_times (entry_or_default rl ip)) @ [now]
         \<and> length ts \<le> max_requests_per_minute rl"
    | (admitted) ts where "check_allocation_request now rl ip = (Inr (), set_entry rl ip
        ((entry_or_default rl ip)\<lparr>request_times := ts, allocation_count_of :=
           sat_succ_u32 (allocation_count_of (entry_or_default rl ip))\<rparr>))"
      "max_requests_per_minute rl > 0 \<longrightarrow>
         ts = pop_expired now (request_times (entry_or_default rl ip)) @ [now]
         \<and> length ts \<le> max_requests_per_minute rl"
      "max_allocations_per_ip rl > 0 \<longrightarrow>
         allocation_count_of (entry_or_default rl ip) < max_allocations_per_ip rl"
proof -
  let ?e = "entry_or_default rl ip"
  let ?ts = "if max_requests_per_minute rl > 0
    then pop_expired now (request_times ?e) @ [now] else request_times ?e"
  have same: "?e\<lparr>request_times := request_times ?e\<rparr> = ?e" by simp
  show thesis
  proof (cases "max_requests_per_minute rl > 0
      \<and> length (pop_expired now (request_times ?e)) \<ge> max_requests_per_minute rl")
    case True
    then show thesis by (intro limited) (simp_all add: check_allocation_request_def Let_def)
  next
    case pass: False
    have check: "check_allocation_request now rl ip = reserve_slot rl ip (?e\<lparr>request_times := ?ts\<rparr>)"
      using pass same by (auto simp: check_allocation_request_def Let_def)
    show thesis
    proof (cases "max_allocations_per_ip rl > 0
        \<and> allocation_count_of ?e \<ge> max_allocations_per_ip rl")
      case True
      then show thesis using pass
        by (intro quota [of ?ts]) (auto simp: check reserve_slot_def)
    next
      case False
      then show thesis using pass
        by (intro admitted [of ?ts]) (auto simp: check reserve_slot_def)
    qed
  qed
qed

section \<open>The quota as a ledger\<close>

text \<open>
  What the Allocate handler and the cleanup task rely on: a successful check raises the address's
  count by one and only below the cap, a failed one changes no count, a release lowers it, a sweep
  changes nothing. The client keeps a ledger \<open>held\<close> of what it owes each address.
\<close>

locale quota_ledger =
  fixes ok :: "'l \<Rightarrow> bool"
    and count :: "'l \<Rightarrow> 'i \<Rightarrow> nat"
    and cap :: "'l \<Rightarrow> nat"
    and reserve :: "'t \<Rightarrow> 'l \<Rightarrow> 'i \<Rightarrow> ('e + unit) \<times> 'l"
    and release :: "'l \<Rightarrow> 'i \<Rightarrow> 'l"
    and sweep :: "'t \<Rightarrow> 'l \<Rightarrow> 'l"
  assumes count_cap: "ok l \<Longrightarrow> count l i \<le> cap l"
    and reserve_admits: "ok l \<Longrightarrow> reserve t l i = (Inr (), l') \<Longrightarrow>
      ok l' \<and> cap l' = cap l \<and> count l i < cap l \<and> count l' = (count l)(i := Suc (count l i))"
    and reserve_refuses: "ok l \<Longrightarrow> reserve t l i = (Inl e, l') \<Longrightarrow>
      ok l' \<and> cap l' = cap l \<and> count l' = count l"
    and release_frees: "ok l \<Longrightarrow> ok (release l i) \<and> cap (release l i) = cap l
      \<and> count (release l i) = (count l)(i := count l i - 1)"
    and sweep_keeps: "ok l \<Longrightarrow> ok (sweep t l) \<and> cap (sweep t l) = cap l \<and> count (sweep t l) = count l"
begin

definition accounts :: "'l \<Rightarrow> ('i \<Rightarrow> nat) \<Rightarrow> bool" where
  "accounts l held \<longleftrightarrow> ok l \<and> count l = held"

lemma accounts_cap: "accounts l held \<Longrightarrow> held i \<le> cap l"
  using count_cap [of l i] by (auto simp: accounts_def)

lemma accounts_admit:
  "accounts l held \<Longrightarrow> reserve t l i = (Inr (), l') \<Longrightarrow>
    accounts l' (held(i := Suc (held i))) \<and> cap l' = cap l"
  using reserve_admits by (fastforce simp: accounts_def)

lemma accounts_refuse:
  "accounts l held \<Longrightarrow> reserve t l i = (Inl e, l') \<Longrightarrow> accounts l' held \<and> cap l' = cap l"
  using reserve_refuses by (fastforce simp: accounts_def)

lemma accounts_release:
  "accounts l held \<Longrightarrow> accounts (release l i) (held(i := held i - 1)) \<and> cap (release l i) = cap l"
  using release_frees by (auto simp: accounts_def)

lemma accounts_sweep: "accounts l held \<Longrightarrow> accounts (sweep t l) held \<and> cap (sweep t l) = cap l"
  using sweep_keeps by (auto simp: accounts_def)

lemma accounts_release_all:
  "accounts l held \<Longrightarrow>
    accounts (foldl release l is) (\<lambda>i. held i - count_list is i) \<and> cap (foldl release l is) = cap l"
proof (induction "is" arbitrary: l held)
  case (Cons j js)
  have eq: "(\<lambda>i. (held(j := held j - 1)) i - count_list js i) = (\<lambda>i. held i - count_list (j # js) i)"
    by (auto simp: fun_eq_iff)
  have held: "accounts (release l j) (held(j := held j - 1))" and cap: "cap (release l j) = cap l"
    using accounts_release [OF Cons.prems, of j] by simp_all
  from Cons.IH [OF held] show ?case unfolding eq using cap by simp
qed simp

end

text \<open>A limiter with a quota configured, its counts within it.\<close>

definition limiter_ok :: "rate_limiter \<Rightarrow> bool" where
  "limiter_ok rl \<longleftrightarrow> dm_wf (entries_of rl)
    \<and> 0 < max_allocations_per_ip rl \<and> max_allocations_per_ip rl \<le> u32_max
    \<and> (\<forall>ip. allocation_count rl ip \<le> max_allocations_per_ip rl)"

lemma check_reserves:
  assumes ok: "limiter_ok rl" and chk: "check_allocation_request now rl ip = (Inr (), rl')"
  shows "limiter_ok rl' \<and> max_allocations_per_ip rl' = max_allocations_per_ip rl
    \<and> allocation_count rl ip < max_allocations_per_ip rl
    \<and> allocation_count rl' = (allocation_count rl)(ip := Suc (allocation_count rl ip))"
proof (rule check_cases [of now rl ip])
  fix ts
  assume c: "check_allocation_request now rl ip = (Inr (), set_entry rl ip
      ((entry_or_default rl ip)\<lparr>request_times := ts, allocation_count_of :=
         sat_succ_u32 (allocation_count_of (entry_or_default rl ip))\<rparr>))"
    and q: "max_allocations_per_ip rl > 0 \<longrightarrow>
         allocation_count_of (entry_or_default rl ip) < max_allocations_per_ip rl"
  have lt: "allocation_count rl ip < max_allocations_per_ip rl"
    using ok q by (simp add: limiter_ok_def allocation_count_entry)
  have s: "sat_succ_u32 (allocation_count_of (entry_or_default rl ip))
      = Suc (allocation_count rl ip)"
    using lt ok by (simp add: limiter_ok_def sat_succ_u32_def allocation_count_entry)
  have "allocation_count rl' = (allocation_count rl)(ip := Suc (allocation_count rl ip))"
    using c chk s by (auto simp: fun_eq_iff allocation_count_entry)
  then show ?thesis using c chk ok lt by (auto simp: limiter_ok_def)
qed (use chk in auto)

lemma check_refuses:
  assumes ok: "limiter_ok rl" and chk: "check_allocation_request now rl ip = (Inl e, rl')"
  shows "limiter_ok rl' \<and> max_allocations_per_ip rl' = max_allocations_per_ip rl
    \<and> allocation_count rl' = allocation_count rl"
proof -
  obtain ts where rl': "rl' = set_entry rl ip ((entry_or_default rl ip)\<lparr>request_times := ts\<rparr>)"
  proof (cases rule: check_cases [of now rl ip])
    case limited
    then show thesis using chk that by simp
  next
    case (quota ts)
    then show thesis using chk that by simp
  next
    case (admitted ts)
    then show thesis using chk by simp
  qed
  have "allocation_count rl' = allocation_count rl"
    by (auto simp: rl' fun_eq_iff allocation_count_entry)
  then show ?thesis using ok by (auto simp: limiter_ok_def rl')
qed

lemma dealloc_releases:
  assumes ok: "limiter_ok rl"
  shows "limiter_ok (record_deallocation rl ip)
    \<and> max_allocations_per_ip (record_deallocation rl ip) = max_allocations_per_ip rl
    \<and> allocation_count (record_deallocation rl ip)
        = (allocation_count rl)(ip := allocation_count rl ip - 1)"
proof -
  have c: "allocation_count (record_deallocation rl ip)
      = (allocation_count rl)(ip := allocation_count rl ip - 1)"
    by (auto simp: fun_eq_iff allocation_count_entry dealloc_entry)
  have "((allocation_count rl)(ip := allocation_count rl ip - 1)) i \<le> max_allocations_per_ip rl" for i
    using ok by (auto simp: limiter_ok_def intro: le_trans [OF diff_le_self])
  with c ok show ?thesis by (simp add: limiter_ok_def)
qed

lemma cleanup_keeps_counts:
  assumes "limiter_ok rl"
  shows "limiter_ok (limiter_cleanup now rl)
    \<and> max_allocations_per_ip (limiter_cleanup now rl) = max_allocations_per_ip rl
    \<and> allocation_count (limiter_cleanup now rl) = allocation_count rl"
proof -
  have "allocation_count (limiter_cleanup now rl) = allocation_count rl"
    using assms
    by (auto simp: fun_eq_iff allocation_count_entry cleanup_entry limiter_ok_def trim_entry_def)
  then show ?thesis using assms by (simp add: limiter_ok_def)
qed

interpretation lim: quota_ledger limiter_ok allocation_count max_allocations_per_ip
  check_allocation_request record_deallocation limiter_cleanup
proof unfold_locales
  show "limiter_ok l \<Longrightarrow> allocation_count l i \<le> max_allocations_per_ip l" for l i
    by (simp add: limiter_ok_def)
qed (rule check_reserves check_refuses dealloc_releases cleanup_keeps_counts; assumption)+

section \<open>The sliding window over a history\<close>

definition times_of :: "ip_addr \<Rightarrow> (instant \<times> ip_addr) list \<Rightarrow> instant list" where
  "times_of ip log = map fst (filter (\<lambda>(t, i). i = ip) log)"

text \<open>
  The deque of an address holds the most recent admitted times; everything dropped from it is at
  least a window old at the last operation's time \<open>T\<close>.
\<close>

definition hist_inv :: "instant \<Rightarrow> rate_limiter \<Rightarrow> (instant \<times> ip_addr) list \<Rightarrow> bool" where
  "hist_inv T rl log \<longleftrightarrow> dm_wf (entries_of rl)
    \<and> (\<forall>ip. \<exists>old. times_of ip log = old @ request_times (entry_or_default rl ip)
          \<and> (\<forall>t \<in> set old. T - t \<ge> WINDOW))
    \<and> (\<forall>ip a. in_window ip a log \<le> max_requests_per_minute rl)"

lemma in_window_times:
  "in_window ip a log = length (filter (\<lambda>t. a \<le> t \<and> t < a + WINDOW) (times_of ip log))"
  by (induction log) (auto simp: in_window_def times_of_def)

lemma times_of_append:
  "times_of ip (log @ [(t, i)]) = times_of ip log @ (if i = ip then [t] else [])"
  by (simp add: times_of_def)

lemma window_drops_old:
  assumes "\<forall>t \<in> set old. now - t \<ge> WINDOW" "a \<le> now" "now < a + WINDOW"
  shows "filter (\<lambda>t. a \<le> t \<and> t < a + WINDOW) old = []"
proof -
  have "\<not> (a \<le> t \<and> t < a + WINDOW)" if "t \<in> set old" for t
    using assms that by (fastforce simp: WINDOW_def)
  then show ?thesis by (simp add: filter_empty_conv)
qed

lemma hist_inv_same_log:
  assumes inv: "hist_inv T rl log" and le: "T \<le> now"
    and wf: "dm_wf (entries_of rl')"
    and maxr: "max_requests_per_minute rl' = max_requests_per_minute rl"
    and trimmed: "\<And>ip. request_times (entry_or_default rl' ip)
        \<in> {request_times (entry_or_default rl ip), pop_expired now (request_times (entry_or_default rl ip))}"
  shows "hist_inv now rl' log"
proof -
  have "\<exists>old. times_of ip log = old @ request_times (entry_or_default rl' ip)
      \<and> (\<forall>t \<in> set old. now - t \<ge> WINDOW)" for ip
  proof -
    let ?q = "request_times (entry_or_default rl ip)"
    obtain old where old: "times_of ip log = old @ ?q" "\<forall>t \<in> set old. T - t \<ge> WINDOW"
      using inv unfolding hist_inv_def by blast
    obtain new where new: "?q = new @ pop_expired now ?q" "\<forall>t \<in> set new. now - t \<ge> WINDOW"
      using pop_expired_split by blast
    have o: "\<forall>t \<in> set old. now - t \<ge> WINDOW" using old(2) le by fastforce
    consider "request_times (entry_or_default rl' ip) = ?q"
      | "request_times (entry_or_default rl' ip) = pop_expired now ?q"
      using trimmed by auto
    then show ?thesis
    proof cases
      case 1
      then show ?thesis using old(1) o by auto
    next
      case 2
      then show ?thesis using old(1) new o by (intro exI [of _ "old @ new"]) auto
    qed
  qed
  then show ?thesis using inv wf maxr by (auto simp: hist_inv_def)
qed

lemma hist_inv_admit:
  assumes inv: "hist_inv T rl log" and le: "T \<le> now" and pos: "max_requests_per_minute rl > 0"
    and rl': "rl' = set_entry rl ip e" "request_times e
        = pop_expired now (request_times (entry_or_default rl ip)) @ [now]"
    and len: "length (request_times e) \<le> max_requests_per_minute rl"
  shows "hist_inv now rl' (log @ [(now, ip)])"
proof -
  have base: "hist_inv now (set_entry rl ip (e\<lparr>request_times :=
      pop_expired now (request_times (entry_or_default rl ip))\<rparr>)) log"
    by (rule hist_inv_same_log [OF inv le]) (use inv in \<open>auto simp: hist_inv_def\<close>)
  then have times: "\<exists>old. times_of i log = old @ (if i = ip
        then pop_expired now (request_times (entry_or_default rl ip))
        else request_times (entry_or_default rl i)) \<and> (\<forall>t \<in> set old. now - t \<ge> WINDOW)" for i
    by (auto simp: hist_inv_def split: if_splits)
  have "\<exists>old. times_of i (log @ [(now, ip)]) = old @ request_times (entry_or_default rl' i)
      \<and> (\<forall>t \<in> set old. now - t \<ge> WINDOW)" for i
    using times [of i] rl' by (auto simp: times_of_append)
  moreover have "in_window i a (log @ [(now, ip)]) \<le> max_requests_per_minute rl'" for i a
  proof (cases "i = ip \<and> a \<le> now \<and> now < a + WINDOW")
    case False
    then have "in_window i a (log @ [(now, ip)]) = in_window i a log"
      by (auto simp: in_window_def)
    then show ?thesis using inv rl' by (simp add: hist_inv_def)
  next
    case True
    obtain old where old: "times_of ip (log @ [(now, ip)]) = old @ request_times e"
      "\<forall>t \<in> set old. now - t \<ge> WINDOW"
      using times [of ip] rl' by (auto simp: times_of_append)
    have "in_window ip a (log @ [(now, ip)])
        = length (filter (\<lambda>t. a \<le> t \<and> t < a + WINDOW) (request_times e))"
      using window_drops_old [OF old(2)] True by (simp add: in_window_times old(1))
    also have "\<dots> \<le> length (request_times e)" by (rule length_filter_le)
    also have "\<dots> \<le> max_requests_per_minute rl" by (rule len)
    finally show ?thesis using True rl' by simp
  qed
  ultimately show ?thesis using inv rl' by (simp add: hist_inv_def)
qed

lemma hist_inv_step:
  assumes inv: "hist_inv T rl log" and le: "T \<le> now" and pos: "max_requests_per_minute rl > 0"
    and step: "limiter_step (now, op) rl = (rl', l)"
  shows "hist_inv now rl' (log @ l) \<and> max_requests_per_minute rl' = max_requests_per_minute rl"
proof (cases op)
  case (Check ip)
  show ?thesis
  proof (cases rule: check_cases [of now rl ip])
    case limited
    then have "rl' = set_entry rl ip ((entry_or_default rl ip)\<lparr>request_times :=
        pop_expired now (request_times (entry_or_default rl ip))\<rparr>)" "l = []"
      using step Check by auto
    then show ?thesis
      using hist_inv_same_log [OF inv le, of rl'] inv by (auto simp: hist_inv_def)
  next
    case (quota ts)
    then show ?thesis using step Check pos
      by (auto intro!: hist_inv_admit [OF inv le pos])
  next
    case (admitted ts)
    then show ?thesis using step Check pos
      by (auto intro!: hist_inv_admit [OF inv le pos])
  qed
next
  case (Cancel ip)
  then show ?thesis
    using step inv hist_inv_same_log [OF inv le, of rl']
    by (auto simp: cancel_is_dealloc dealloc_entry hist_inv_def)
next
  case (Dealloc ip)
  then show ?thesis
    using step inv hist_inv_same_log [OF inv le, of rl']
    by (auto simp: dealloc_entry hist_inv_def)
next
  case Cleanup
  then show ?thesis
    using step inv hist_inv_same_log [OF inv le, of rl']
    by (auto simp: cleanup_entry trim_entry_def hist_inv_def)
qed

lemma hist_inv_run:
  assumes "hist_inv T rl log" "sorted (T # map fst ops)" "max_requests_per_minute rl > 0"
    and "run_ops ops rl = (rl', l)"
  shows "\<exists>T'. hist_inv T' rl' (log @ l) \<and> max_requests_per_minute rl' = max_requests_per_minute rl"
  using assms
proof (induction ops arbitrary: T rl log l)
  case (Cons x ops)
  obtain now op where x: "x = (now, op)" by fastforce
  obtain rl1 l1 l2 where step: "limiter_step (now, op) rl = (rl1, l1)"
    and rest: "run_ops ops rl1 = (rl', l2)" and l: "l = l1 @ l2"
    using Cons.prems(4) by (auto simp: x Let_def split: prod.splits)
  have le: "T \<le> now" "sorted (now # map fst ops)" using Cons.prems(2) x by auto
  have s: "hist_inv now rl1 (log @ l1)" "max_requests_per_minute rl1 = max_requests_per_minute rl"
    using hist_inv_step [OF Cons.prems(1) le(1) Cons.prems(3) step] by simp_all
  show ?case
    using Cons.IH [OF s(1) le(2) _ rest] Cons.prems(3) s(2) l by simp
qed auto

section \<open>Properties\<close>

text \<open>
  C39. The rate limit holds over every history: whatever checks, cancellations, deallocations and
  cleanups run, at whatever non-decreasing times, no address gets more than the configured number
  of Allocate requests past the rate check in any 60-second window.
\<close>

theorem rate_limit_window:
  assumes "sorted (map fst ops)" "0 < max_requests"
    and "run_ops ops (new_rate_limiter max_requests max_allocations) = (rl, log)"
  shows "in_window ip a log \<le> max_requests"
proof -
  let ?new = "new_rate_limiter max_requests max_allocations"
  have "hist_inv 0 ?new []"
    by (auto simp: hist_inv_def new_rate_limiter_def in_window_def times_of_def
        entry_or_default_def default_entry_def)
  moreover have "sorted (0 # map fst ops)" using assms(1) by simp
  ultimately show ?thesis
    using hist_inv_run [of 0 ?new "[]" ops rl log] assms(2,3)
    by (auto simp: hist_inv_def new_rate_limiter_def)
qed

lemmas limiter_eval = check_allocation_request_def reserve_slot_def entry_or_default_def
  set_entry_def new_rate_limiter_def default_entry_def WINDOW_def limiter_cleanup_def
  keeps_entry_def trim_entry_def dm_get_def dm_put_def sat_succ_u32_def u32_max_def Let_def

definition demo_ip :: ip_addr where
  "demo_ip = V4 192 168 1 1"

theorem rate_limit_window_witness:
  "\<exists>rl log. run_ops [(0, Check demo_ip), (1, Check demo_ip), (2, Check demo_ip), (3, Cleanup),
       (WINDOW, Check demo_ip)] (new_rate_limiter 2 10) = (rl, log)
     \<and> log = [(0, demo_ip), (1, demo_ip), (WINDOW, demo_ip)]
     \<and> in_window demo_ip 1 log \<le> 2"
proof -
  let ?ops = "[(0, Check demo_ip), (1, Check demo_ip), (2, Check demo_ip), (3, Cleanup),
       (WINDOW, Check demo_ip)]"
  obtain rl log where r: "run_ops ?ops (new_rate_limiter 2 10) = (rl, log)" by fastforce
  have "snd (run_ops ?ops (new_rate_limiter 2 10)) = [(0, demo_ip), (1, demo_ip), (WINDOW, demo_ip)]"
    by (simp add: limiter_eval)
  then have "log = [(0, demo_ip), (1, demo_ip), (WINDOW, demo_ip)]" using r by simp
  moreover have "in_window demo_ip 1 log \<le> 2"
    by (rule rate_limit_window [OF _ _ r]) (simp_all add: WINDOW_def)
  ultimately show ?thesis using r by blast
qed

text \<open>
  The periodic cleanup is invisible: a check at any later time is answered the same, and
  leaves the same entry behind, whether or not the cleanup ran in between.
\<close>

lemma limiter_cleanup_invisible:
  assumes "dm_wf (entries_of rl)" "now \<le> now'"
  shows "fst (check_allocation_request now' (limiter_cleanup now rl) ip)
      = fst (check_allocation_request now' rl ip)
    \<and> (max_requests_per_minute rl > 0 \<longrightarrow>
        entry_or_default (snd (check_allocation_request now' (limiter_cleanup now rl) ip)) ip
        = entry_or_default (snd (check_allocation_request now' rl ip)) ip)
    \<and> allocation_count (limiter_cleanup now rl) ip = allocation_count rl ip"
proof -
  have e: "entry_or_default (limiter_cleanup now rl) ip = trim_entry now (entry_or_default rl ip)"
    using assms(1) by (rule cleanup_entry)
  have p: "pop_expired now' (request_times (trim_entry now (entry_or_default rl ip)))
      = pop_expired now' (request_times (entry_or_default rl ip))"
    using pop_expired_mono [OF assms(2)] by (simp add: trim_entry_def)
  show ?thesis
    unfolding allocation_count_entry check_allocation_request_def Let_def e p
    by (auto simp: trim_entry_def reserve_slot_def)
qed

end
