(* ===== verification/Stun_Msg.thy ===== *)
theory Stun_Msg
  imports Net_Addr
begin

text \<open>
  STUN message parsing, \<open>src/demux/stun.rs\<close>: the header, the attribute loop with its stop at
  MESSAGE-INTEGRITY, XOR addresses and the ICE user name. The lemmas show that the loop reads in
  bounds, terminates, and that what it returns is determined by the bytes MESSAGE-INTEGRITY covers.
\<close>

section \<open>Data\<close>

definition STUN_MAGIC_COOKIE :: u32 where
  "STUN_MAGIC_COOKIE = 0x2112A442"

definition ATTR_USERNAME :: u16 where "ATTR_USERNAME = 0x0006"
definition ATTR_MESSAGE_INTEGRITY :: u16 where "ATTR_MESSAGE_INTEGRITY = 0x0008"
definition ATTR_CHANNEL_NUMBER :: u16 where "ATTR_CHANNEL_NUMBER = 0x000C"
definition ATTR_LIFETIME :: u16 where "ATTR_LIFETIME = 0x000D"
definition ATTR_XOR_PEER_ADDRESS :: u16 where "ATTR_XOR_PEER_ADDRESS = 0x0012"
definition ATTR_DATA :: u16 where "ATTR_DATA = 0x0013"
definition ATTR_REALM :: u16 where "ATTR_REALM = 0x0014"
definition ATTR_NONCE :: u16 where "ATTR_NONCE = 0x0015"
definition ATTR_REQUESTED_TRANSPORT :: u16 where "ATTR_REQUESTED_TRANSPORT = 0x0019"

definition MAX_USERNAME_LEN :: nat where "MAX_USERNAME_LEN = 513"
definition MAX_REALM_LEN :: nat where "MAX_REALM_LEN = 763"
definition MAX_NONCE_LEN :: nat where "MAX_NONCE_LEN = 763"

datatype stun_class = Request | Indication | SuccessResponse | ErrorResponse

datatype stun_method =
  Binding | Allocate | Refresh | Send | Data | CreatePermission | ChannelBind | UnknownMethod u16

record stun_info =
  si_class :: stun_class
  si_method :: stun_method
  si_transaction_id :: bytes
  si_username :: "rstring option"
  si_xor_peer_addresses :: "socket_addr list"
  si_channel_number :: "u16 option"
  si_lifetime :: "u32 option"
  si_data :: "bytes option"
  si_realm :: "rstring option"
  si_nonce :: "rstring option"
  si_message_integrity :: "bytes option"
  si_message_integrity_offset :: "nat option"
  si_requested_transport :: "u8 option"
  si_raw :: bytes

record parsed_attrs =
  pa_username :: "rstring option"
  pa_xor_peer_addresses :: "socket_addr list"
  pa_channel_number :: "u16 option"
  pa_lifetime :: "u32 option"
  pa_data :: "bytes option"
  pa_realm :: "rstring option"
  pa_nonce :: "rstring option"
  pa_message_integrity :: "bytes option"
  pa_message_integrity_offset :: "nat option"
  pa_requested_transport :: "u8 option"

section \<open>Decoding\<close>

definition MAGIC_BYTES :: bytes where
  "MAGIC_BYTES = [0x21, 0x12, 0xA4, 0x42]"

definition decode_xor_address :: "bytes \<Rightarrow> bytes \<Rightarrow> socket_addr option" where
  "decode_xor_address value transaction_id =
    (if length value < 8 then None
     else
       let family = value ! 1;
           xor_port = u16_be (value ! 2) (value ! 3);
           port = xor_port XOR 0x2112
       in if family = 0x01 then
            Some (sa_new (V4 (value ! 4 XOR MAGIC_BYTES ! 0) (value ! 5 XOR MAGIC_BYTES ! 1)
                             (value ! 6 XOR MAGIC_BYTES ! 2) (value ! 7 XOR MAGIC_BYTES ! 3)) port)
          else if family = 0x02 then
            (if length value < 20 then None
             else Some (sa_new (V6 (map (\<lambda>i. value ! (4 + i) XOR MAGIC_BYTES ! i) [0..<4]
                              @ map (\<lambda>i. value ! (8 + i) XOR transaction_id ! i) [0..<12])) port))
          else None)"

definition empty_attrs :: parsed_attrs where
  "empty_attrs = \<lparr>pa_username = None, pa_xor_peer_addresses = [], pa_channel_number = None,
     pa_lifetime = None, pa_data = None, pa_realm = None, pa_nonce = None,
     pa_message_integrity = None, pa_message_integrity_offset = None,
     pa_requested_transport = None\<rparr>"

text \<open>One arm of the \<open>match attr_type\<close>; the MESSAGE-INTEGRITY arm also leaves the loop.\<close>

definition match_attr ::
  "u16 \<Rightarrow> bytes \<Rightarrow> bytes \<Rightarrow> nat \<Rightarrow> parsed_attrs \<Rightarrow> parsed_attrs" where
  "match_attr attr_type value transaction_id offset result =
    (if attr_type = ATTR_USERNAME \<and> length value \<le> MAX_USERNAME_LEN then
       result\<lparr>pa_username := from_utf8 value\<rparr>
     else if attr_type = ATTR_XOR_PEER_ADDRESS then
       (case decode_xor_address value transaction_id of
          Some addr \<Rightarrow>
            result\<lparr>pa_xor_peer_addresses := pa_xor_peer_addresses result @ [addr]\<rparr>
        | None \<Rightarrow> result)
     else if attr_type = ATTR_CHANNEL_NUMBER \<and> length value \<ge> 2 then
       let channel = u16_be (value ! 0) (value ! 1)
       in if 0x4000 \<le> channel \<and> channel \<le> 0x7FFF
          then result\<lparr>pa_channel_number := Some channel\<rparr> else result
     else if attr_type = ATTR_LIFETIME \<and> length value \<ge> 4 then
       result\<lparr>pa_lifetime := Some (u32_be (value ! 0) (value ! 1) (value ! 2) (value ! 3))\<rparr>
     else if attr_type = ATTR_DATA then
       result\<lparr>pa_data := Some value\<rparr>
     else if attr_type = ATTR_REALM \<and> length value \<le> MAX_REALM_LEN then
       result\<lparr>pa_realm := from_utf8 value\<rparr>
     else if attr_type = ATTR_NONCE \<and> length value \<le> MAX_NONCE_LEN then
       result\<lparr>pa_nonce := from_utf8 value\<rparr>
     else if attr_type = ATTR_MESSAGE_INTEGRITY \<and> length value = 20 then
       result\<lparr>pa_message_integrity := Some value,
              pa_message_integrity_offset := Some (20 + offset)\<rparr>
     else if attr_type = ATTR_REQUESTED_TRANSPORT \<and> value \<noteq> [] then
       result\<lparr>pa_requested_transport := Some (value ! 0)\<rparr>
     else result)"

definition stops_loop :: "u16 \<Rightarrow> bytes \<Rightarrow> bool" where
  "stops_loop attr_type value \<longleftrightarrow> attr_type = ATTR_MESSAGE_INTEGRITY \<and> length value = 20"

text \<open>\<open>(n + 3) & !3\<close> on a \<open>usize\<close>.\<close>

definition pad4 :: "nat \<Rightarrow> nat" where
  "pad4 n = (n + 3) div 4 * 4"

function parse_attributes_loop :: "bytes \<Rightarrow> bytes \<Rightarrow> nat \<Rightarrow> parsed_attrs \<Rightarrow> parsed_attrs" where
  "parse_attributes_loop attrs transaction_id offset result =
    (if offset + 4 \<le> length attrs then
       let attr_type = u16_be (attrs ! offset) (attrs ! (offset + 1));
           attr_len = unat (u16_be (attrs ! (offset + 2)) (attrs ! (offset + 3)))
       in if offset + 4 + attr_len > length attrs then result
          else
            let value = take attr_len (drop (offset + 4) attrs);
                result' = match_attr attr_type value transaction_id offset result
            in if stops_loop attr_type value then result'
               else parse_attributes_loop attrs transaction_id (offset + (4 + pad4 attr_len)) result'
     else result)"
  by pat_completeness auto
termination
  by (relation "measure (\<lambda>(attrs, t, offset, r). length attrs - offset)") auto

declare parse_attributes_loop.simps [simp del]

definition parse_attributes :: "bytes \<Rightarrow> bytes \<Rightarrow> parsed_attrs" where
  "parse_attributes attrs transaction_id = parse_attributes_loop attrs transaction_id 0 empty_attrs"

definition class_of :: "u16 \<Rightarrow> stun_class option" where
  "class_of msg_type =
    (let class_bits = (drop_bit 4 msg_type AND 0x01) OR (drop_bit 7 msg_type AND 0x02)
     in if class_bits = 0 then Some Request
        else if class_bits = 1 then Some Indication
        else if class_bits = 2 then Some SuccessResponse
        else if class_bits = 3 then Some ErrorResponse
        else None)"

definition method_of :: "u16 \<Rightarrow> stun_method" where
  "method_of msg_type =
    (let method_bits = (msg_type AND 0x000F) OR (drop_bit 1 msg_type AND 0x0070)
                         OR (drop_bit 2 msg_type AND 0x0F80)
     in if method_bits = 0x001 then Binding
        else if method_bits = 0x003 then Allocate
        else if method_bits = 0x004 then Refresh
        else if method_bits = 0x006 then Send
        else if method_bits = 0x007 then Data
        else if method_bits = 0x008 then CreatePermission
        else if method_bits = 0x009 then ChannelBind
        else UnknownMethod method_bits)"

text \<open>\<open>StunInfo::parse\<close>.\<close>

definition parse_stun_info :: "bytes \<Rightarrow> stun_info option" where
  "parse_stun_info data =
    (if length data < 20 then None
     else if u32_be (data ! 4) (data ! 5) (data ! 6) (data ! 7) \<noteq> STUN_MAGIC_COOKIE then None
     else
       let msg_type = u16_be (data ! 0) (data ! 1)
       in case class_of msg_type of
            None \<Rightarrow> None
          | Some class \<Rightarrow>
              let msg_len = unat (u16_be (data ! 2) (data ! 3))
              in if length data < 20 + msg_len then None
                 else
                   let transaction_id = take 12 (drop 8 data);
                       attrs = parse_attributes (take msg_len (drop 20 data)) transaction_id
                   in Some \<lparr>si_class = class, si_method = method_of msg_type,
                        si_transaction_id = transaction_id,
                        si_username = pa_username attrs,
                        si_xor_peer_addresses = pa_xor_peer_addresses attrs,
                        si_channel_number = pa_channel_number attrs,
                        si_lifetime = pa_lifetime attrs,
                        si_data = pa_data attrs,
                        si_realm = pa_realm attrs,
                        si_nonce = pa_nonce attrs,
                        si_message_integrity = pa_message_integrity attrs,
                        si_message_integrity_offset = pa_message_integrity_offset attrs,
                        si_requested_transport = pa_requested_transport attrs,
                        si_raw = data\<rparr>)"

text \<open>\<open>StunInfo::parse_ice_username\<close> and \<open>StunInfo::is_turn\<close>.\<close>

definition parse_ice_username :: "stun_info \<Rightarrow> (rstring \<times> rstring) option" where
  "parse_ice_username msg =
    (case si_username msg of None \<Rightarrow> None | Some username \<Rightarrow> split_once COLON username)"

definition is_turn :: "stun_info \<Rightarrow> bool" where
  "is_turn msg \<longleftrightarrow>
    si_method msg \<in> {Allocate, Refresh, Send, Data, CreatePermission, ChannelBind}"

section \<open>What a parsed message satisfies\<close>

definition wf_mi :: "bytes \<Rightarrow> bytes option \<Rightarrow> nat option \<Rightarrow> bool" where
  "wf_mi raw mi off =
    (case (mi, off) of
       (None, None) \<Rightarrow> True
     | (Some i, Some k) \<Rightarrow> length i = 20 \<and> 20 \<le> k \<and> k + 24 \<le> length raw
         \<and> i = take 20 (drop (k + 4) raw)
     | _ \<Rightarrow> False)"

definition short_utf8 :: "nat \<Rightarrow> rstring option \<Rightarrow> bool" where
  "short_utf8 n s = (case s of None \<Rightarrow> True | Some u \<Rightarrow> utf8_valid u \<and> length u \<le> n)"

definition channel_in_range :: "u16 \<Rightarrow> bool" where
  "channel_in_range c \<longleftrightarrow> 0x4000 \<le> c \<and> c \<le> 0x7FFF"

definition wf_attrs :: "parsed_attrs \<Rightarrow> bool" where
  "wf_attrs r \<longleftrightarrow>
    list_all (\<lambda>a. wf_sa a \<and> plain_sa a) (pa_xor_peer_addresses r)
    \<and> (case pa_channel_number r of None \<Rightarrow> True | Some c \<Rightarrow> channel_in_range c)
    \<and> short_utf8 MAX_USERNAME_LEN (pa_username r)
    \<and> short_utf8 MAX_REALM_LEN (pa_realm r)
    \<and> short_utf8 MAX_NONCE_LEN (pa_nonce r)"

definition wf_msg :: "stun_info \<Rightarrow> bool" where
  "wf_msg m \<longleftrightarrow>
    20 \<le> length (si_raw m)
    \<and> length (si_transaction_id m) = 12
    \<and> si_transaction_id m = take 12 (drop 8 (si_raw m))
    \<and> list_all (\<lambda>a. wf_sa a \<and> plain_sa a) (si_xor_peer_addresses m)
    \<and> (case si_channel_number m of None \<Rightarrow> True | Some c \<Rightarrow> channel_in_range c)
    \<and> short_utf8 MAX_USERNAME_LEN (si_username m)
    \<and> short_utf8 MAX_REALM_LEN (si_realm m)
    \<and> short_utf8 MAX_NONCE_LEN (si_nonce m)
    \<and> wf_mi (si_raw m) (si_message_integrity m) (si_message_integrity_offset m)"

section \<open>Lemmas: the attribute loop\<close>

lemmas attr_consts = ATTR_USERNAME_def ATTR_MESSAGE_INTEGRITY_def ATTR_CHANNEL_NUMBER_def
  ATTR_LIFETIME_def ATTR_XOR_PEER_ADDRESS_def ATTR_DATA_def ATTR_REALM_def ATTR_NONCE_def
  ATTR_REQUESTED_TRANSPORT_def

text \<open>The equations that evaluate the parser on explicit bytes.\<close>

lemmas stun_eval = parse_stun_info_def STUN_MAGIC_COOKIE_def u16_be_def u32_be_def class_of_def
  method_of_def parse_attributes_def parse_attributes_loop.simps match_attr_def attr_consts
  stops_loop_def pad4_def from_utf8_def MAX_USERNAME_LEN_def MAX_REALM_LEN_def MAX_NONCE_LEN_def
  str_def Let_def

lemma pad4_bounds: "n \<le> pad4 n" "pad4 n < n + 4"
  unfolding pad4_def by linarith+

lemma pad4_mod: "pad4 n mod 4 = 0"
  by (simp add: pad4_def)

lemma loop_end: "length attrs < offset + 4 \<Longrightarrow> parse_attributes_loop attrs t offset r = r"
  by (simp add: parse_attributes_loop.simps)

lemma take_drop_prefix:
  "a + l \<le> n \<Longrightarrow> n \<le> length xs \<Longrightarrow> take l (drop a (take n xs @ ys)) = take l (drop a xs)"
  by (simp add: drop_take)

text \<open>One well-formed attribute at the current offset is consumed in one iteration.\<close>

lemma loop_attr:
  assumes a: "attrs = pre @ be16 ty @ be16 (word_of_nat (length v)) @ v @ rest"
    and o: "offset = length pre" and l: "length v < 65536"
  shows "parse_attributes_loop attrs t offset r =
    (if stops_loop ty v then match_attr ty v t offset r
     else parse_attributes_loop attrs t (offset + (4 + pad4 (length v)))
            (match_attr ty v t offset r))"
proof -
  let ?n = "word_of_nat (length v) :: u16"
  have n: "attrs ! offset = be16 ty ! 0" "attrs ! (offset + 1) = be16 ty ! 1"
    "attrs ! (offset + 2) = be16 ?n ! 0" "attrs ! (offset + 3) = be16 ?n ! 1"
    by (simp_all add: a o nth_append be16_def)
  have ty: "u16_be (attrs ! offset) (attrs ! (offset + 1)) = ty"
    by (simp only: n u16_be_be16)
  have len: "unat (u16_be (attrs ! (offset + 2)) (attrs ! (offset + 3))) = length v"
    using l by (simp only: n u16_be_be16 unat_u16)
  have v: "take (length v) (drop (offset + 4) attrs) = v" by (simp add: a o be16_def)
  have "offset + 4 \<le> length attrs" "\<not> offset + 4 + length v > length attrs"
    by (simp_all add: a o)
  then show ?thesis
    unfolding parse_attributes_loop.simps [of attrs t offset r] Let_def ty len v by simp
qed

lemma match_attr_no_mi:
  "\<not> stops_loop ty v \<Longrightarrow>
    pa_message_integrity (match_attr ty v t off r) = pa_message_integrity r
    \<and> pa_message_integrity_offset (match_attr ty v t off r) = pa_message_integrity_offset r"
  by (auto simp: match_attr_def stops_loop_def Let_def attr_consts split: option.splits)

lemma match_attr_mi:
  "stops_loop ty v \<Longrightarrow> match_attr ty v t off r =
     r\<lparr>pa_message_integrity := Some v, pa_message_integrity_offset := Some (20 + off)\<rparr>"
  by (simp add: match_attr_def stops_loop_def attr_consts)

text \<open>The offset recorded for MESSAGE-INTEGRITY points at a complete 24-byte attribute.\<close>

lemma loop_mi:
  assumes "pa_message_integrity r = None" "pa_message_integrity_offset r = None"
    and "res = parse_attributes_loop attrs t offset r"
  shows "(pa_message_integrity res = None \<and> pa_message_integrity_offset res = None)
    \<or> (\<exists>k. offset \<le> k \<and> k + 24 \<le> length attrs
        \<and> pa_message_integrity_offset res = Some (20 + k)
        \<and> pa_message_integrity res = Some (take 20 (drop (k + 4) attrs)))"
  using assms
proof (induction attrs t offset r arbitrary: res rule: parse_attributes_loop.induct)
  case (1 attrs t offset r)
  let ?ty = "u16_be (attrs ! offset) (attrs ! (offset + 1))"
  let ?l = "unat (u16_be (attrs ! (offset + 2)) (attrs ! (offset + 3)))"
  let ?v = "take ?l (drop (offset + 4) attrs)"
  let ?r = "match_attr ?ty ?v t offset r"
  show ?case
  proof (cases "offset + 4 \<le> length attrs \<and> offset + 4 + ?l \<le> length attrs")
    case False
    then show ?thesis using "1.prems"
      by (auto simp: parse_attributes_loop.simps [of attrs t offset r] Let_def)
  next
    case in_bounds: True
    show ?thesis
    proof (cases "stops_loop ?ty ?v")
      case True
      then have "res = ?r" and l: "?l = 20"
        using "1.prems" in_bounds
        by (auto simp: parse_attributes_loop.simps [of attrs t offset r] Let_def stops_loop_def)
      then show ?thesis using True in_bounds by (simp add: match_attr_mi l)
    next
      case False
      then have res: "res = parse_attributes_loop attrs t (offset + (4 + pad4 ?l)) ?r"
        using "1.prems" in_bounds
        by (simp add: parse_attributes_loop.simps [of attrs t offset r] Let_def)
      have none: "pa_message_integrity ?r = None" "pa_message_integrity_offset ?r = None"
        using match_attr_no_mi [OF False] "1.prems" by simp_all
      have "\<not> length attrs < offset + 4 + ?l" using in_bounds by simp
      then show ?thesis
        using "1.IH" [OF _ refl refl _ refl refl False none res] in_bounds by force
    qed
  qed
qed

text \<open>
  The result does not depend on anything after the MESSAGE-INTEGRITY attribute it stopped at.
\<close>

lemma loop_prefix:
  assumes "pa_message_integrity r = None" "pa_message_integrity_offset r = None"
    and "pa_message_integrity_offset (parse_attributes_loop attrs t offset r) = Some (20 + k)"
  shows "parse_attributes_loop (take (k + 24) attrs @ suf) t offset r
    = parse_attributes_loop attrs t offset r"
  using assms
proof (induction attrs t offset r rule: parse_attributes_loop.induct)
  case (1 attrs t offset r)
  let ?ty = "u16_be (attrs ! offset) (attrs ! (offset + 1))"
  let ?l = "unat (u16_be (attrs ! (offset + 2)) (attrs ! (offset + 3)))"
  let ?v = "take ?l (drop (offset + 4) attrs)"
  let ?r = "match_attr ?ty ?v t offset r"
  let ?cut = "take (k + 24) attrs @ suf"
  let ?next = "offset + (4 + pad4 ?l)"
  have in_bounds: "offset + 4 \<le> length attrs" "offset + 4 + ?l \<le> length attrs"
    using "1.prems"
    by (auto simp: parse_attributes_loop.simps [of attrs t offset r] Let_def split: if_splits)
  have unfold: "parse_attributes_loop attrs t offset r =
      (if stops_loop ?ty ?v then ?r else parse_attributes_loop attrs t ?next ?r)"
    using in_bounds by (simp add: parse_attributes_loop.simps [of attrs t offset r] Let_def)
  have k: "k + 24 \<le> length attrs" "offset + 4 + ?l \<le> k + 24"
  proof -
    have "k + 24 \<le> length attrs \<and> offset + 4 + ?l \<le> k + 24"
    proof (cases "stops_loop ?ty ?v")
      case True
      then show ?thesis using "1.prems"(3) in_bounds
        by (auto simp: unfold match_attr_mi stops_loop_def)
    next
      case False
      then show ?thesis
        using "1.prems" loop_mi [OF _ _ refl, of ?r attrs t ?next] match_attr_no_mi [OF False]
          pad4_bounds(1) [of ?l]
        by (auto simp: unfold)
    qed
    then show "k + 24 \<le> length attrs" "offset + 4 + ?l \<le> k + 24" by simp_all
  qed
  have reads: "?cut ! i = attrs ! i" if "i < offset + 4" for i
    using that k by (simp add: nth_append)
  have v: "take ?l (drop (offset + 4) ?cut) = ?v" using k by (intro take_drop_prefix)
  have unfold_cut: "parse_attributes_loop ?cut t offset r =
      (if stops_loop ?ty ?v then ?r else parse_attributes_loop ?cut t ?next ?r)"
    using in_bounds k v
    by (subst parse_attributes_loop.simps) (simp add: reads Let_def)
  show ?case
  proof (cases "stops_loop ?ty ?v")
    case True
    then show ?thesis by (simp add: unfold unfold_cut)
  next
    case False
    have "\<not> length attrs < offset + 4 + ?l" using in_bounds by simp
    then have "parse_attributes_loop ?cut t ?next ?r = parse_attributes_loop attrs t ?next ?r"
      using "1.IH" [OF in_bounds(1) refl refl _ refl refl False] match_attr_no_mi [OF False]
        "1.prems" False
      by (simp add: unfold)
    then show ?thesis using False by (simp add: unfold unfold_cut)
  qed
qed

lemma wf_empty_attrs: "wf_attrs empty_attrs"
  by (simp add: wf_attrs_def empty_attrs_def short_utf8_def)

lemma decode_xor_address_wf:
  assumes "decode_xor_address v t = Some a"
  shows "wf_sa a \<and> plain_sa a"
proof -
  from assms obtain i p where "a = sa_new i p" "wf_ip i"
    by (auto simp: decode_xor_address_def Let_def simp del: sa_new.simps split: if_splits)
  then show ?thesis by (simp add: wf_sa_def)
qed

lemma match_attr_wf:
  assumes "wf_attrs r"
  shows "wf_attrs (match_attr ty v t off r)"
proof (cases "decode_xor_address v t")
  case None
  then show ?thesis using assms
    by (simp add: match_attr_def wf_attrs_def Let_def short_utf8_def from_utf8_def
        channel_in_range_def)
next
  case (Some a)
  then show ?thesis using assms decode_xor_address_wf [OF Some]
    by (simp add: match_attr_def wf_attrs_def Let_def short_utf8_def from_utf8_def
        channel_in_range_def)
qed

lemma loop_wf: "wf_attrs r \<Longrightarrow> wf_attrs (parse_attributes_loop attrs t offset r)"
proof (induction attrs t offset r rule: parse_attributes_loop.induct)
  case (1 attrs t offset r)
  then show ?case
    by (subst parse_attributes_loop.simps) (simp add: Let_def match_attr_wf)
qed

lemma parse_stun_info_sound:
  assumes "parse_stun_info data = Some msg"
  shows "wf_msg msg \<and> si_raw msg = data"
proof -
  let ?len = "unat (u16_be (data ! 2) (data ! 3))"
  let ?body = "take ?len (drop 20 data)"
  let ?attrs = "parse_attributes ?body (take 12 (drop 8 data))"
  have bounds: "20 \<le> length data" "20 + ?len \<le> length data"
    using assms by (auto simp: parse_stun_info_def Let_def split: if_splits option.splits)
  have fields: "si_raw msg = data" "si_transaction_id msg = take 12 (drop 8 data)"
    "si_xor_peer_addresses msg = pa_xor_peer_addresses ?attrs"
    "si_channel_number msg = pa_channel_number ?attrs"
    "si_username msg = pa_username ?attrs" "si_realm msg = pa_realm ?attrs"
    "si_nonce msg = pa_nonce ?attrs"
    "si_message_integrity msg = pa_message_integrity ?attrs"
    "si_message_integrity_offset msg = pa_message_integrity_offset ?attrs"
    using assms by (auto simp: parse_stun_info_def Let_def split: if_splits option.splits)
  have "wf_attrs ?attrs"
    unfolding parse_attributes_def by (intro loop_wf wf_empty_attrs)
  moreover have "wf_mi data (pa_message_integrity ?attrs) (pa_message_integrity_offset ?attrs)"
    using loop_mi [OF _ _ refl, of empty_attrs ?body "take 12 (drop 8 data)" 0] bounds
    by (auto simp: parse_attributes_def wf_mi_def empty_attrs_def drop_take add.commute)
  ultimately show ?thesis
    using bounds by (simp add: wf_msg_def fields wf_attrs_def)
qed

section \<open>Properties\<close>

text \<open>
  C36. Whatever bytes arrive, a message the parser accepts is well formed: it keeps the datagram,
  its transaction id is bytes 8 to 19 of it, the peer addresses, channel number and strings are
  within the ranges the attributes allow, and a recorded MESSAGE-INTEGRITY offset points at a
  whole 24-byte attribute inside the datagram, so that slicing at it cannot go out of bounds.
\<close>

theorem parse_stun_info_wf:
  "parse_stun_info data = Some msg \<Longrightarrow> wf_msg msg \<and> si_raw msg = data"
  by (rule parse_stun_info_sound)

definition demo_binding :: bytes where
  "demo_binding = [0x00, 0x01, 0x00, 0x08, 0x21, 0x12, 0xA4, 0x42, 1, 2, 3, 4, 5, 6, 7, 8, 9, 10,
     11, 12, 0x00, 0x06, 0x00, 0x03, 0x61, 0x3A, 0x62, 0x00]"

theorem parse_stun_info_wf_witness:
  "\<exists>msg. parse_stun_info demo_binding = Some msg \<and> wf_msg msg \<and> si_raw msg = demo_binding
     \<and> si_username msg = Some (str ''a:b'')"
proof -
  have "map_option si_username (parse_stun_info demo_binding) = Some (Some (str ''a:b''))"
    by (simp add: demo_binding_def stun_eval)
  then show ?thesis using parse_stun_info_wf [of demo_binding] by blast
qed

text \<open>
  C35. Everything the attribute parser returns is fixed by the bytes up to the end of the
  MESSAGE-INTEGRITY attribute at which it stopped: replacing whatever follows by other bytes
  changes nothing. No attribute outside the authenticated region can influence the request.
\<close>

theorem parse_attributes_ignores_after_integrity:
  assumes "pa_message_integrity_offset (parse_attributes attrs txn) = Some off"
  shows "20 \<le> off \<and> off + 4 \<le> length attrs
    \<and> parse_attributes (take (off + 4) attrs @ suffix) txn = parse_attributes attrs txn"
proof -
  have none: "pa_message_integrity empty_attrs = None" "pa_message_integrity_offset empty_attrs = None"
    by (simp_all add: empty_attrs_def)
  obtain k where k: "off = 20 + k" "k + 24 \<le> length attrs"
    using loop_mi [OF none refl, of attrs txn 0] assms by (auto simp: parse_attributes_def)
  have "parse_attributes_loop (take (k + 24) attrs @ suffix) txn 0 empty_attrs
      = parse_attributes_loop attrs txn 0 empty_attrs"
    using assms k by (intro loop_prefix none) (simp add: parse_attributes_def)
  then show ?thesis using k by (simp add: parse_attributes_def add.commute)
qed

definition demo_signed_attrs :: bytes where
  "demo_signed_attrs = [0x00, 0x06, 0x00, 0x01, 0x61, 0, 0, 0]
     @ [0x00, 0x08, 0x00, 0x14] @ replicate 20 0xAA @ [0x00, 0x06, 0x00, 0x01, 0x7A, 0, 0, 0]"

theorem parse_attributes_ignores_after_integrity_witness:
  "pa_message_integrity_offset (parse_attributes demo_signed_attrs (replicate 12 0)) = Some 28
   \<and> pa_username (parse_attributes demo_signed_attrs (replicate 12 0)) = Some (str ''a'')
   \<and> parse_attributes (take 32 demo_signed_attrs @ [1, 2, 3]) (replicate 12 0)
       = parse_attributes demo_signed_attrs (replicate 12 0)"
proof -
  have h: "pa_message_integrity_offset (parse_attributes demo_signed_attrs (replicate 12 0)) = Some 28"
    "pa_username (parse_attributes demo_signed_attrs (replicate 12 0)) = Some (str ''a'')"
    by code_simp+
  show ?thesis
    using h parse_attributes_ignores_after_integrity [OF h(1), of "[1, 2, 3]"] by simp
qed

end
