(* ===== verification/Rtp.thy ===== *)
theory Rtp
  imports Prelude
begin

text \<open>RTP fixed-header parsing, \<open>src/demux/rtp.rs\<close>.\<close>

record rtp_header =
  rtp_version :: u8
  rtp_padding :: bool
  rtp_extension :: bool
  rtp_csrc_count :: u8
  rtp_marker :: bool
  rtp_payload_type :: u8
  rtp_sequence_number :: u16
  rtp_timestamp :: u32
  rtp_ssrc :: u32

definition parse_rtp_header :: "bytes \<Rightarrow> rtp_header option" where
  "parse_rtp_header data =
    (if length data < 12 then None
     else
       let first_byte = data ! 0;
           second_byte = data ! 1;
           version = drop_bit 6 first_byte AND 0x03
       in if version \<noteq> 2 then None
          else
            let csrc_count = first_byte AND 0x0F;
                min_size = 12 + unat csrc_count * 4
            in if length data < min_size then None
               else Some \<lparr>rtp_version = version,
                 rtp_padding = (first_byte AND 0x20 \<noteq> 0),
                 rtp_extension = (first_byte AND 0x10 \<noteq> 0),
                 rtp_csrc_count = csrc_count,
                 rtp_marker = (second_byte AND 0x80 \<noteq> 0),
                 rtp_payload_type = second_byte AND 0x7F,
                 rtp_sequence_number = u16_be (data ! 2) (data ! 3),
                 rtp_timestamp = u32_be (data ! 4) (data ! 5) (data ! 6) (data ! 7),
                 rtp_ssrc = u32_be (data ! 8) (data ! 9) (data ! 10) (data ! 11)\<rparr>)"

definition header_size :: "rtp_header \<Rightarrow> nat" where
  "header_size h = 12 + unat (rtp_csrc_count h) * 4"

text \<open>The whole fixed header, the CSRC list included, lies inside the datagram.\<close>

lemma parse_rtp_header_Some:
  assumes "parse_rtp_header data = Some h"
  shows "header_size h \<le> length data \<and> rtp_version h = 2
    \<and> rtp_ssrc h = u32_be (data ! 8) (data ! 9) (data ! 10) (data ! 11)"
  using assms by (auto simp: parse_rtp_header_def header_size_def Let_def split: if_splits)

lemma version_bits: "drop_bit 6 (b :: u8) AND 0x03 = 2 \<longleftrightarrow> 0x80 \<le> b \<and> b < 0xC0"
proof -
  have m: "(0x03 :: u8) = mask 2" by (simp add: mask_eq_decr_exp)
  have "unat (drop_bit 6 b AND 0x03) = unat b div 64 mod 4"
    unfolding m take_bit_eq_mask [symmetric] unsigned_take_bit_eq unat_drop_bit_eq
    by (simp add: drop_bit_eq_div take_bit_eq_mod)
  moreover have "unat b div 64 mod 4 = 2 \<longleftrightarrow> 128 \<le> unat b \<and> unat b < 192"
  proof -
    have "unat b div 64 < 4" using unat_u8_bound [of b] by linarith
    then have "unat b div 64 mod 4 = unat b div 64" by simp
    then show ?thesis by linarith
  qed
  ultimately show ?thesis
    by (simp add: word_unat_eq_iff word_le_nat_alt word_less_nat_alt)
qed

end
