(* ===== verification/Demux.thy ===== *)
theory Demux
  imports Stun_Msg Rtp
begin

text \<open>
  Packet classification, \<open>src/demux/protocol.rs\<close>: the first byte selects the protocol, and the
  ChannelData, RTP and RTCP shapes are validated before a packet is classified as one.
\<close>

section \<open>Definitions\<close>

datatype packet_type =
    Stun stun_info
  | Dtls bytes
  | TurnChannelData u16 bytes
  | Rtp u32 bytes
  | Rtcp bytes
  | Unknown

definition parse_stun :: "bytes \<Rightarrow> packet_type" where
  "parse_stun data = (case parse_stun_info data of Some info \<Rightarrow> Stun info | None \<Rightarrow> Unknown)"

definition parse_channel_data :: "bytes \<Rightarrow> packet_type" where
  "parse_channel_data data =
    (if length data < 4 then Unknown
     else
       let channel = u16_be (data ! 0) (data ! 1);
           len = unat (u16_be (data ! 2) (data ! 3))
       in if length data < 4 + len then Unknown
          else TurnChannelData channel (take len (drop 4 data)))"

definition is_valid_rtcp :: "bytes \<Rightarrow> bool" where
  "is_valid_rtcp data =
    (if length data < 8 then False
     else if drop_bit 6 (data ! 0) AND 0x03 \<noteq> 2 then False
     else
       let length_field = unat (u16_be (data ! 2) (data ! 3));
           packet_bytes = (length_field + 1) * 4
       in if packet_bytes > length data then False
          else
            let pt = data ! 1;
                rc = unat (data ! 0 AND 0x1F)
            in if pt = 200 then length_field + 1 \<ge> 7 + rc * 6
               else if pt = 201 then length_field + 1 \<ge> 2 + rc * 6
               else 202 \<le> pt \<and> pt \<le> 204)"

definition parse_rtp_rtcp :: "bytes \<Rightarrow> packet_type" where
  "parse_rtp_rtcp data =
    (if length data < 8 then Unknown
     else if 200 \<le> data ! 1 \<and> data ! 1 \<le> 204 \<and> is_valid_rtcp data then Rtcp data
     else if length data < 12 then Unknown
     else (case parse_rtp_header data of
             Some header \<Rightarrow> Rtp (rtp_ssrc header) data
           | None \<Rightarrow> Unknown))"

text \<open>\<open>Demuxer::classify\<close>.\<close>

definition classify :: "bytes \<Rightarrow> packet_type" where
  "classify data =
    (case data of
       [] \<Rightarrow> Unknown
     | b # _ \<Rightarrow>
         if b \<le> 3 then parse_stun data
         else if 20 \<le> b \<and> b \<le> 63 then Dtls data
         else if 64 \<le> b \<and> b \<le> 127 then parse_channel_data data
         else if 128 \<le> b \<and> b \<le> 191 then parse_rtp_rtcp data
         else Unknown)"

section \<open>Lemmas\<close>

lemma classify_Cons:
  "classify (b # bs) =
    (if b \<le> 3 then parse_stun (b # bs)
     else if 20 \<le> b \<and> b \<le> 63 then Dtls (b # bs)
     else if 64 \<le> b \<and> b \<le> 127 then parse_channel_data (b # bs)
     else if 128 \<le> b \<and> b \<le> 191 then parse_rtp_rtcp (b # bs)
     else Unknown)"
  by (simp add: classify_def)

lemma channel_first_byte:
  "channel_in_range (u16_be a b) \<longleftrightarrow> 64 \<le> a \<and> a \<le> 127"
proof -
  have "channel_in_range (u16_be a b) \<longleftrightarrow> 16384 \<le> unat (u16_be a b) \<and> unat (u16_be a b) \<le> 32767"
    by (simp add: channel_in_range_def word_le_nat_alt)
  also have "\<dots> \<longleftrightarrow> 64 \<le> unat a \<and> unat a \<le> 127"
    unfolding unat_u16_be using unat_u8_bound [of b] by presburger
  finally show ?thesis by (simp add: word_le_nat_alt)
qed

lemma is_valid_rtcp_fits:
  "is_valid_rtcp data \<Longrightarrow> (unat (u16_be (data ! 2) (data ! 3)) + 1) * 4 \<le> length data
    \<and> 8 \<le> length data"
  by (auto simp: is_valid_rtcp_def Let_def split: if_splits)

lemma parse_rtp_rtcp_cases:
  "parse_rtp_rtcp data = Rtcp d \<Longrightarrow> d = data \<and> is_valid_rtcp data \<and> 200 \<le> data ! 1 \<and> data ! 1 \<le> 204"
  "parse_rtp_rtcp data = Rtp s d \<Longrightarrow> d = data \<and> 12 \<le> length data
     \<and> s = u32_be (data ! 8) (data ! 9) (data ! 10) (data ! 11)"
  by (auto simp: parse_rtp_rtcp_def dest: parse_rtp_header_Some split: if_splits option.splits)

section \<open>Properties\<close>

text \<open>
  C37. Classification is sound for every datagram: a STUN packet is a well-formed message that
  keeps the datagram, a ChannelData packet carries a channel number in 0x4000..0x7FFF and exactly
  the bytes its length field announces, an RTP packet has its 12-byte header (and the SSRC is
  bytes 8 to 11), an RTCP packet's announced length fits in the datagram, and the first byte is in
  the range RFC 7983 gives the protocol.
\<close>

theorem classify_sound:
  "case classify data of
     Stun msg \<Rightarrow> hd data \<le> 3 \<and> wf_msg msg \<and> si_raw msg = data
   | Dtls d \<Rightarrow> 20 \<le> hd data \<and> hd data \<le> 63 \<and> d = data
   | TurnChannelData c d \<Rightarrow> channel_in_range c \<and> c = u16_be (data ! 0) (data ! 1)
       \<and> length d = unat (u16_be (data ! 2) (data ! 3)) \<and> 4 + length d \<le> length data
       \<and> d = take (length d) (drop 4 data)
   | Rtp s d \<Rightarrow> 128 \<le> hd data \<and> hd data \<le> 191 \<and> d = data \<and> 12 \<le> length data
       \<and> s = u32_be (data ! 8) (data ! 9) (data ! 10) (data ! 11)
   | Rtcp d \<Rightarrow> 128 \<le> hd data \<and> hd data \<le> 191 \<and> d = data
       \<and> (unat (u16_be (data ! 2) (data ! 3)) + 1) * 4 \<le> length data
   | Unknown \<Rightarrow> True"
proof (cases data)
  case Nil
  then show ?thesis by (simp add: classify_def)
next
  case (Cons b bs)
  have "b \<le> 3 \<or> (20 \<le> b \<and> b \<le> 63) \<or> (64 \<le> b \<and> b \<le> 127) \<or> (128 \<le> b \<and> b \<le> 191)
    \<or> classify data = Unknown"
    by (simp add: classify_Cons Cons)
  then consider "b \<le> 3" | "20 \<le> b \<and> b \<le> 63" | "64 \<le> b \<and> b \<le> 127" | "128 \<le> b \<and> b \<le> 191"
    | "classify data = Unknown"
    by blast
  then show ?thesis
  proof cases
    case 1
    then show ?thesis
      by (auto simp: classify_Cons Cons parse_stun_def dest: parse_stun_info_sound
          split: option.splits)
  next
    case 2
    then have "\<not> b \<le> 3" by (simp add: word_le_nat_alt)
    with 2 show ?thesis by (simp add: classify_Cons Cons)
  next
    case 3
    then have "\<not> b \<le> 3" "\<not> b \<le> 63" by (simp_all add: word_le_nat_alt)
    with 3 show ?thesis
      using channel_first_byte [of b "hd bs"]
      by (cases bs) (auto simp: classify_Cons Cons parse_channel_data_def Let_def)
  next
    case 4
    then have "\<not> b \<le> 3" "\<not> b \<le> 63" "\<not> b \<le> 127" by (simp_all add: word_le_nat_alt)
    with 4 have "classify data = parse_rtp_rtcp data" by (simp add: classify_Cons Cons)
    moreover have "parse_rtp_rtcp data \<noteq> Stun m" "parse_rtp_rtcp data \<noteq> Dtls d"
      "parse_rtp_rtcp data \<noteq> TurnChannelData c d" for m c d
      by (auto simp: parse_rtp_rtcp_def split: option.splits)
    ultimately show ?thesis
      using 4 Cons parse_rtp_rtcp_cases [of data] is_valid_rtcp_fits [of data]
      by (auto split: packet_type.splits)
  next
    case 5
    then show ?thesis by simp
  qed
qed

end
