(* ===== verification/Auth.thy ===== *)
theory Auth
  imports Net_Addr
begin

text \<open>
  Long-term and time-limited credentials, nonces and message integrity (\<open>src/turn/auth.rs\<close>) and
  the server configuration that holds the credentials (\<open>src/config.rs\<close>). HMAC-SHA1, MD5 and
  base64 come from other crates: they are the fields of a record every definition that needs them
  takes as an argument, and the only thing assumed of them is the length of a digest.
\<close>

section \<open>Definitions\<close>

record crypto =
  hmac_sha1 :: "bytes \<Rightarrow> bytes \<Rightarrow> bytes"
  md5 :: "bytes \<Rightarrow> bytes"
  base64 :: "bytes \<Rightarrow> rstring"

definition digest_lengths :: "crypto \<Rightarrow> bool" where
  "digest_lengths c \<longleftrightarrow> (\<forall>key msg. length (hmac_sha1 c key msg) = 20) \<and> (\<forall>msg. length (md5 c msg) = 16)"

definition compute_key :: "crypto \<Rightarrow> rstring \<Rightarrow> rstring \<Rightarrow> rstring \<Rightarrow> bytes" where
  "compute_key c user realm password = md5 c (user @ COLON # realm @ COLON # password)"

text \<open>\<open>u64::from_str_radix\<close>: an optional plus sign, at least one digit, no overflow.\<close>

definition digit_val :: "nat \<Rightarrow> u8 \<Rightarrow> nat option" where
  "digit_val radix c =
    (let d = (if 0x30 \<le> c \<and> c \<le> 0x39 then unat c - 0x30
              else if 0x61 \<le> c \<and> c \<le> 0x7A then unat c - 0x61 + 10
              else if 0x41 \<le> c \<and> c \<le> 0x5A then unat c - 0x41 + 10
              else radix)
     in if d < radix then Some d else None)"

fun digits_u64 :: "nat \<Rightarrow> u64 \<Rightarrow> bytes \<Rightarrow> u64 option" where
  "digits_u64 radix acc [] = Some acc"
| "digits_u64 radix acc (c # r) =
    (case digit_val radix c of
       None \<Rightarrow> None
     | Some d \<Rightarrow> if acc * radix + d < 2 ^ 64 then digits_u64 radix (acc * radix + d) r else None)"

definition from_str_radix :: "nat \<Rightarrow> rstring \<Rightarrow> u64 option" where
  "from_str_radix radix s =
    (let digits = (case s of c # r \<Rightarrow> if c = 0x2B then r else s | [] \<Rightarrow> [])
     in if digits = [] then None else digits_u64 radix 0 digits)"

definition timestamp :: "rstring \<Rightarrow> u64 option" where
  "timestamp s =
    (if s = [] \<or> \<not> list_all (\<lambda>b. 0x30 \<le> b \<and> b \<le> 0x39) s then None else from_str_radix 10 s)"

definition ephemeral_expiry :: "rstring \<Rightarrow> u64 option" where
  "ephemeral_expiry user =
    (case split_once COLON user of
       Some (head, tail) \<Rightarrow>
         (case timestamp head of Some t \<Rightarrow> Some t | None \<Rightarrow> timestamp tail)
     | None \<Rightarrow> timestamp user)"

definition ephemeral_password :: "crypto \<Rightarrow> rstring \<Rightarrow> rstring \<Rightarrow> rstring" where
  "ephemeral_password c secret user = base64 c (hmac_sha1 c secret user)"

definition compute_message_integrity :: "crypto \<Rightarrow> bytes \<Rightarrow> bytes \<Rightarrow> bytes" where
  "compute_message_integrity c message key = hmac_sha1 c key message"

definition verify_message_integrity :: "crypto \<Rightarrow> bytes \<Rightarrow> bytes \<Rightarrow> bytes \<Rightarrow> bool" where
  "verify_message_integrity c message received_integrity key =
    (let computed = compute_message_integrity c message key
     in if length received_integrity \<noteq> 20 then False
        else foldl (\<lambda>diff (a, b). diff OR (a XOR b)) 0 (zip computed received_integrity) = 0)"

text \<open>\<open>format!("{:016x}", n)\<close> of a \<open>u64\<close>: sixteen lower-case hexadecimal digits.\<close>

definition hex_digit :: "nat \<Rightarrow> u8" where
  "hex_digit d = (if d < 10 then word_of_nat (0x30 + d) else word_of_nat (0x61 + (d - 10)))"

definition hex16 :: "u64 \<Rightarrow> rstring" where
  "hex16 n = map (\<lambda>i. hex_digit (n div 16 ^ i mod 16)) (rev [0..<16])"

definition nonce_mac :: "crypto \<Rightarrow> bytes \<Rightarrow> u64 \<Rightarrow> u64" where
  "nonce_mac c secret ts = be_nat (take 8 (hmac_sha1 c secret (be64 ts)))"

definition generate_nonce :: "crypto \<Rightarrow> u64 \<Rightarrow> bytes \<Rightarrow> rstring" where
  "generate_nonce c unix_now secret = hex16 unix_now @ COLON # hex16 (nonce_mac c secret unix_now)"

text \<open>The \<open>XOR\<close> of two integers is zero exactly when they are equal.\<close>

definition validate_nonce :: "crypto \<Rightarrow> u64 \<Rightarrow> rstring \<Rightarrow> u64 \<Rightarrow> bytes \<Rightarrow> bool" where
  "validate_nonce c unix_now nonce max_age_secs secret =
    (let parts = split_on COLON nonce
     in if length parts \<noteq> 2 then False
        else case from_str_radix 16 (parts ! 0) of
               None \<Rightarrow> False
             | Some ts \<Rightarrow>
                (case from_str_radix 16 (parts ! 1) of
                   None \<Rightarrow> False
                 | Some provided_hmac \<Rightarrow>
                     let hmac_ok = provided_hmac = nonce_mac c secret ts;
                         not_future = ts \<le> unix_now;
                         fresh = unix_now - ts < max_age_secs
                     in hmac_ok \<and> not_future \<and> fresh))"

subsection \<open>Configuration\<close>

record config =
  cfg_port :: u16
  cfg_external_ip :: ip_addr
  cfg_realm :: rstring
  cfg_credentials :: "(rstring \<times> rstring) list"
  cfg_auth_secrets :: "rstring list"
  cfg_max_allocations_per_ip :: nat
  cfg_rate_limit_per_minute :: nat
  cfg_nonce_lifetime_secs :: u64
  cfg_nonce_secret :: bytes
  cfg_allow_anonymous :: bool
  cfg_max_permissions_per_alloc :: nat
  cfg_max_channels_per_alloc :: nat

text \<open>
  \<open>Debug for Config\<close>: the fields that reach a log line, with their values. The standard library
  renders the values.
\<close>

datatype debug_value =
    ShownNat nat
  | ShownBool bool
  | ShownIp ip_addr
  | ShownStr rstring
  | ShownStrs "rstring list"
  | Redacted
  | RedactedCount nat

definition config_debug :: "config \<Rightarrow> (string \<times> debug_value) list" where
  "config_debug cfg =
    (let users = map fst (cfg_credentials cfg)
     in [(''port'', ShownNat (unat (cfg_port cfg))),
         (''external_ip'', ShownIp (cfg_external_ip cfg)),
         (''realm'', ShownStr (cfg_realm cfg)),
         (''credentials'', ShownStrs users),
         (''auth_secrets'', RedactedCount (length (cfg_auth_secrets cfg))),
         (''max_allocations_per_ip'', ShownNat (cfg_max_allocations_per_ip cfg)),
         (''rate_limit_per_minute'', ShownNat (cfg_rate_limit_per_minute cfg)),
         (''nonce_lifetime_secs'', ShownNat (cfg_nonce_lifetime_secs cfg)),
         (''nonce_secret'', Redacted),
         (''allow_anonymous'', ShownBool (cfg_allow_anonymous cfg)),
         (''max_permissions_per_alloc'', ShownNat (cfg_max_permissions_per_alloc cfg)),
         (''max_channels_per_alloc'', ShownNat (cfg_max_channels_per_alloc cfg))])"

definition config_new :: "bytes \<Rightarrow> ip_addr \<Rightarrow> config" where
  "config_new random_secret ip =
    \<lparr>cfg_port = 3478, cfg_external_ip = ip, cfg_realm = str ''uturn'', cfg_credentials = [],
     cfg_auth_secrets = [], cfg_max_allocations_per_ip = 200, cfg_rate_limit_per_minute = 30,
     cfg_nonce_lifetime_secs = 3600, cfg_nonce_secret = random_secret, cfg_allow_anonymous = False,
     cfg_max_permissions_per_alloc = 64, cfg_max_channels_per_alloc = 128\<rparr>"

definition with_port :: "u16 \<Rightarrow> config \<Rightarrow> config" where
  "with_port port cfg = cfg\<lparr>cfg_port := port\<rparr>"

definition with_realm :: "rstring \<Rightarrow> config \<Rightarrow> config" where
  "with_realm realm cfg = cfg\<lparr>cfg_realm := realm\<rparr>"

definition with_credential :: "rstring \<Rightarrow> rstring \<Rightarrow> config \<Rightarrow> config" where
  "with_credential user password cfg = cfg\<lparr>cfg_credentials := cfg_credentials cfg @ [(user, password)]\<rparr>"

definition with_auth_secret :: "rstring \<Rightarrow> config \<Rightarrow> config" where
  "with_auth_secret secret cfg = cfg\<lparr>cfg_auth_secrets := cfg_auth_secrets cfg @ [secret]\<rparr>"

definition auth_enabled :: "config \<Rightarrow> bool" where
  "auth_enabled cfg \<longleftrightarrow> cfg_credentials cfg \<noteq> [] \<or> cfg_auth_secrets cfg \<noteq> []"

definition candidate_passwords :: "crypto \<Rightarrow> config \<Rightarrow> rstring \<Rightarrow> u64 \<Rightarrow> rstring list" where
  "candidate_passwords c cfg user now =
    (case find (\<lambda>(u, _). u = user) (cfg_credentials cfg) of
       Some (_, p) \<Rightarrow> [p]
     | None \<Rightarrow>
        (case ephemeral_expiry user of
           Some expiry \<Rightarrow>
             if expiry > now
             then map (\<lambda>secret. ephemeral_password c secret user) (cfg_auth_secrets cfg) else []
         | None \<Rightarrow> []))"

section \<open>Lemmas\<close>

text \<open>Printing a configuration reveals no password, no shared secret and no nonce key.\<close>

lemma config_debug_hides_secrets:
  assumes "length passwords = length (cfg_credentials cfg)" "length secrets = length (cfg_auth_secrets cfg)"
  shows "config_debug (cfg\<lparr>cfg_credentials := zip (map fst (cfg_credentials cfg)) passwords,
      cfg_auth_secrets := secrets, cfg_nonce_secret := nonce_secret\<rparr>) = config_debug cfg"
  using assms by (simp add: config_debug_def)

text \<open>The constant-time comparison is equality.\<close>

lemma or_fold_zero:
  "length xs = length ys \<Longrightarrow>
    foldl (\<lambda>diff (a, b). diff OR (a XOR b)) d (zip xs ys) = 0 \<longleftrightarrow> d = 0 \<and> xs = (ys :: u8 list)"
proof (induction xs ys arbitrary: d rule: list_induct2)
  case (Cons x xs y ys)
  have "x XOR y = 0 \<longleftrightarrow> x = y" by (auto simp: bit_eq_iff bit_xor_iff)
  then have "d OR (x XOR y) = 0 \<longleftrightarrow> d = 0 \<and> x = y" by (simp add: or_eq_0_iff)
  then show ?case using Cons.IH by auto
qed simp

lemma verify_message_integrity_eq:
  assumes "digest_lengths c"
  shows "verify_message_integrity c m r k \<longleftrightarrow> r = compute_message_integrity c m k"
proof -
  have len: "length (compute_message_integrity c m k) = 20"
    using assms by (simp add: digest_lengths_def compute_message_integrity_def)
  then show ?thesis
    by (cases "length r = 20")
      (auto simp: verify_message_integrity_def Let_def or_fold_zero simp flip: len)
qed

text \<open>Hexadecimal printing and parsing.\<close>

lemma hex_digit_table:
  "list_all (\<lambda>d. digit_val 16 (hex_digit d) = Some d \<and> hex_digit d \<noteq> COLON
      \<and> hex_digit d \<noteq> 0x2B \<and> hex_digit d < 0x80)
    [0, 1, 2, 3, 4, 5, 6, 7, 8, 9, 10, 11, 12, 13, 14, 15]"
  by (simp add: digit_val_def hex_digit_def COLON_def)

lemma hex_digit_facts:
  "d < 16 \<Longrightarrow> digit_val 16 (hex_digit d) = Some d \<and> hex_digit d \<noteq> COLON
    \<and> hex_digit d \<noteq> 0x2B \<and> hex_digit d < 0x80"
proof -
  assume "d < 16"
  moreover have "[0..<16] = [0, 1, 2, 3, 4, 5, 6, 7, 8, 9, 10, 11, 12, 13, 14, 15]"
    by (simp add: upt_rec_numeral upt_rec)
  then have "{0..<16 :: nat} = set [0, 1, 2, 3, 4, 5, 6, 7, 8, 9, 10, 11, 12, 13, 14, 15]"
    by (metis set_upt)
  ultimately have "d \<in> set [0, 1, 2, 3, 4, 5, 6, 7, 8, 9, 10, 11, 12, 13, 14, 15]"
    by (metis atLeastLessThan_iff zero_le)
  then show ?thesis using hex_digit_table unfolding list_all_iff by (rule bspec [rotated])
qed

lemma digits_u64_hex:
  assumes "\<forall>d \<in> set ds. d < 16" "foldl (\<lambda>a d. a * 16 + d) acc ds < 2 ^ 64"
  shows "digits_u64 16 acc (map hex_digit ds) = Some (foldl (\<lambda>a d. a * 16 + d) acc ds)"
  using assms
proof (induction ds arbitrary: acc)
  case (Cons d ds)
  have "x \<le> foldl (\<lambda>a d. a * 16 + d) x ds" for x :: nat
  proof (induction ds arbitrary: x)
    case (Cons e ds)
    have "x \<le> x * 16 + e" by simp
    also have "\<dots> \<le> foldl (\<lambda>a d. a * 16 + d) (x * 16 + e) ds" by (rule Cons.IH)
    finally show ?case by simp
  qed simp
  then have "acc * 16 + d \<le> foldl (\<lambda>a d. a * 16 + d) acc (d # ds)" by simp
  also have "\<dots> < 2 ^ 64" by (rule Cons.prems(2))
  finally have "acc * 16 + d < 2 ^ 64" .
  then show ?case using Cons hex_digit_facts [of d] by simp
qed simp

lemma hex_digits_value:
  "foldl (\<lambda>a d. a * 16 + d) acc (map (\<lambda>i. n div 16 ^ i mod 16) (rev [0..<k])) = acc * 16 ^ k + n mod 16 ^ k"
  for n :: nat
proof (induction k arbitrary: acc)
  case (Suc k)
  have "n mod 16 ^ Suc k = 16 ^ k * (n div 16 ^ k mod 16) + n mod 16 ^ k"
    by (simp add: mod_mult2_eq power_Suc2 del: power_Suc)
  then have "(acc * 16 + n div 16 ^ k mod 16) * 16 ^ k + n mod 16 ^ k
      = acc * 16 ^ Suc k + n mod 16 ^ Suc k" by (simp add: add_mult_distrib)
  then show ?case by (simp add: Suc)
qed simp

lemma hex16_parse: "n < 2 ^ 64 \<Longrightarrow> from_str_radix 16 (hex16 n) = Some n"
proof -
  assume n: "n < 2 ^ 64"
  define ds where "ds = map (\<lambda>i. n div 16 ^ i mod 16) (rev [0..<16])"
  have h: "hex16 n = map hex_digit ds" by (simp add: hex16_def ds_def)
  have small: "\<forall>d \<in> set ds. d < 16" by (auto simp: ds_def)
  have v: "foldl (\<lambda>a d. a * 16 + d) 0 ds = n"
    using n unfolding ds_def hex_digits_value by simp
  have "ds \<noteq> []" by (simp add: ds_def)
  then obtain d r where "ds = d # r" by (cases ds) auto
  then have "from_str_radix 16 (hex16 n) = digits_u64 16 0 (map hex_digit ds)"
    using small hex_digit_facts [of d] by (simp add: from_str_radix_def h)
  then show ?thesis using digits_u64_hex [OF small, of 0] v n by simp
qed

lemma hex16_no_colon: "COLON \<notin> set (hex16 n)"
  using hex_digit_facts by (auto simp: hex16_def) (metis mod_less_divisor zero_less_numeral)

lemma generate_nonce_ascii: "utf8_valid (generate_nonce c ts secret)" "length (generate_nonce c ts secret) = 33"
proof -
  have "b < 0x80" if "b \<in> set (hex16 n)" for b n
    using that hex_digit_facts by (auto simp: hex16_def)
  then show "utf8_valid (generate_nonce c ts secret)"
    by (intro utf8_ascii) (auto simp: generate_nonce_def COLON_def)
  show "length (generate_nonce c ts secret) = 33" by (simp add: generate_nonce_def hex16_def)
qed

lemma be_nat_bound: "be_nat bs < 256 ^ length bs"
proof -
  have "foldl (\<lambda>n b. n * 256 + unat b) acc bs < (acc + 1) * 256 ^ length bs" for acc and bs :: bytes
  proof (induction bs arbitrary: acc)
    case (Cons b bs)
    have "foldl (\<lambda>n b. n * 256 + unat b) (acc * 256 + unat b) bs
        < (acc * 256 + unat b + 1) * 256 ^ length bs" by (rule Cons.IH)
    also have "\<dots> \<le> ((acc + 1) * 256) * 256 ^ length bs"
      using base256_step [of acc "acc + 1" b] by (intro mult_le_mono1) linarith
    finally show ?case by (simp add: algebra_simps)
  qed simp
  from this [of 0 bs] show ?thesis by (simp add: be_nat_def)
qed

lemma nonce_mac_bound: "nonce_mac c secret ts < 2 ^ 64"
proof -
  let ?b = "take 8 (hmac_sha1 c secret (be64 ts))"
  have "(256::nat) ^ length ?b \<le> 256 ^ 8" by (intro power_increasing) auto
  then show ?thesis using be_nat_bound [of ?b] by (simp add: nonce_mac_def)
qed

lemma split_on_nonempty: "split_on c s \<noteq> []"
  by (cases "(c, s)" rule: split_on.cases) (auto split: list.splits)

lemma validate_nonce_iff:
  "validate_nonce c now nonce max_age secret \<longleftrightarrow>
    (\<exists>a b ts. nonce = a @ COLON # b \<and> COLON \<notin> set a \<and> COLON \<notin> set b
      \<and> from_str_radix 16 a = Some ts \<and> from_str_radix 16 b = Some (nonce_mac c secret ts)
      \<and> ts \<le> now \<and> now - ts < max_age)"
proof (cases "split_once COLON nonce")
  case None
  then have "COLON \<notin> set nonce" by (simp add: split_once_None_iff)
  then show ?thesis by (auto simp: validate_nonce_def split_on_single)
next
  case (Some ab)
  then obtain a b where n: "nonce = a @ COLON # b" "COLON \<notin> set a"
    by (cases ab) (auto simp: split_once_Some_iff)
  have uniq: "a' = a \<and> b' = b" if "nonce = a' @ COLON # b'" "COLON \<notin> set a'" for a' b'
    using that n by (metis option.inject prod.inject split_once_append)
  show ?thesis
  proof (cases "COLON \<in> set b")
    case True
    then obtain x y where "b = x @ COLON # y" "COLON \<notin> set x" by (meson split_list_first)
    then have "length (split_on COLON nonce) \<noteq> 2"
      using n by (simp add: split_on_append) (metis list.size(3) split_on.simps(1) split_on_nonempty)
    then show ?thesis using True uniq by (auto simp: validate_nonce_def)
  next
    case False
    then have "split_on COLON nonce = [a, b]" using n by (simp add: split_on_append split_on_single)
    then have "validate_nonce c now nonce max_age secret \<longleftrightarrow>
        (\<exists>ts. from_str_radix 16 a = Some ts \<and> from_str_radix 16 b = Some (nonce_mac c secret ts)
          \<and> ts \<le> now \<and> now - ts < max_age)"
      by (auto simp: validate_nonce_def Let_def split: option.splits)
    then show ?thesis using n False uniq by blast
  qed
qed

lemma issued_nonce_valid:
  assumes "ts < 2 ^ 64"
  shows "validate_nonce c now (generate_nonce c ts secret) max_age secret
    \<longleftrightarrow> ts \<le> now \<and> now - ts < max_age"
proof
  assume "ts \<le> now \<and> now - ts < max_age"
  then show "validate_nonce c now (generate_nonce c ts secret) max_age secret"
    unfolding validate_nonce_iff generate_nonce_def
    using hex16_no_colon hex16_parse [OF assms] hex16_parse [OF nonce_mac_bound] by blast
next
  assume "validate_nonce c now (generate_nonce c ts secret) max_age secret"
  then obtain a b t where ab: "generate_nonce c ts secret = a @ COLON # b" "COLON \<notin> set a"
      and t: "from_str_radix 16 a = Some t" "t \<le> now \<and> now - t < max_age"
    unfolding validate_nonce_iff by blast
  have "a = hex16 ts"
    using split_once_append [OF ab(2), of b] split_once_append [OF hex16_no_colon]
    unfolding ab(1) [symmetric] generate_nonce_def by simp
  then show "ts \<le> now \<and> now - ts < max_age" using t hex16_parse [OF assms] by simp
qed

text \<open>Decimal expiry timestamps.\<close>

definition dec_value :: "bytes \<Rightarrow> nat" where
  "dec_value s = foldl (\<lambda>a b. a * 10 + (unat b - 0x30)) 0 s"

lemma digits_u64_dec:
  assumes "list_all (\<lambda>b. 0x30 \<le> b \<and> b \<le> 0x39) s"
    and "foldl (\<lambda>a b. a * 10 + (unat b - 0x30)) acc s < 2 ^ 64"
  shows "digits_u64 10 acc s = Some (foldl (\<lambda>a b. a * 10 + (unat b - 0x30)) acc s)"
  using assms
proof (induction s arbitrary: acc)
  case (Cons b s)
  let ?d = "unat b - 0x30"
  have "x \<le> foldl (\<lambda>a b. a * 10 + (unat b - 0x30)) x s" for x
  proof (induction s arbitrary: x)
    case (Cons e s)
    have "x \<le> x * 10 + (unat e - 0x30)" by simp
    also have "\<dots> \<le> foldl (\<lambda>a b. a * 10 + (unat b - 0x30)) (x * 10 + (unat e - 0x30)) s" by (rule Cons.IH)
    finally show ?case by simp
  qed simp
  then have "acc * 10 + ?d \<le> foldl (\<lambda>a b. a * 10 + (unat b - 0x30)) acc (b # s)" by simp
  also have "\<dots> < 2 ^ 64" by (rule Cons.prems(2))
  finally have fits: "acc * 10 + ?d < 2 ^ 64" .
  have "unat b \<le> 0x39" using Cons.prems(1) by (simp add: word_le_nat_alt)
  then have "?d < 10" by linarith
  then have "digit_val 10 b = Some ?d" using Cons.prems(1) by (simp add: digit_val_def Let_def)
  then show ?case using Cons fits by simp
qed simp

lemma timestamp_dec:
  assumes "s \<noteq> []" "list_all (\<lambda>b. 0x30 \<le> b \<and> b \<le> 0x39) s" "dec_value s < 2 ^ 64"
  shows "timestamp s = Some (dec_value s)"
proof -
  obtain b r where s: "s = b # r" using assms(1) by (cases s) auto
  then have "(0x30 :: u8) \<le> b" using assms(2) by simp
  then have "b \<noteq> 0x2B" by auto
  then show ?thesis
    using assms digits_u64_dec [of s 0] s by (simp add: timestamp_def from_str_radix_def dec_value_def)
qed

section \<open>Properties\<close>

definition demo_crypto :: crypto where
  "demo_crypto = \<lparr>hmac_sha1 = (\<lambda>k m. take 20 (k @ m @ replicate 20 0)),
     md5 = (\<lambda>m. take 16 (m @ replicate 16 0)), base64 = (\<lambda>b. b)\<rparr>"

lemma demo_digest_lengths: "digest_lengths demo_crypto"
  by (auto simp: digest_lengths_def demo_crypto_def min_def)

lemma accepted_nonce_authentic:
  assumes "validate_nonce c now nonce max_age secret"
  shows "\<exists>ts mac a b. split_on COLON nonce = [a, b]
    \<and> from_str_radix 16 a = Some ts \<and> from_str_radix 16 b = Some mac
    \<and> mac = be_nat (take 8 (hmac_sha1 c secret (be64 ts)))
    \<and> ts \<le> now \<and> now < ts + max_age"
proof -
  obtain a b ts where n: "nonce = a @ COLON # b" "COLON \<notin> set a" "COLON \<notin> set b"
    and ts: "from_str_radix 16 a = Some ts" "from_str_radix 16 b = Some (nonce_mac c secret ts)"
      "ts \<le> now" "now - ts < max_age"
    using assms unfolding validate_nonce_iff by blast
  have "split_on COLON nonce = [a, b]" using n by (simp add: split_on_append split_on_single)
  moreover have "now < ts + max_age" using ts(3,4) by simp
  ultimately show ?thesis using ts unfolding nonce_mac_def by blast
qed

text \<open>
  C28. A nonce the server issued at \<open>ts\<close> is accepted at \<open>now\<close> exactly while it is neither from the
  future nor older than the configured age. And whatever string is presented, acceptance means it
  carries a timestamp in the allowed window together with the first eight bytes of that timestamp's
  keyed hash: a nonce cannot be accepted on its age alone.
\<close>

theorem nonce_round_trip:
  assumes "ts < 2 ^ 64"
  shows "(validate_nonce c now (generate_nonce c ts secret) max_age secret
      \<longleftrightarrow> ts \<le> now \<and> now - ts < max_age) \<and>
    (\<forall>nonce. validate_nonce c now nonce max_age secret \<longrightarrow>
      (\<exists>ts mac a b. split_on COLON nonce = [a, b]
        \<and> from_str_radix 16 a = Some ts \<and> from_str_radix 16 b = Some mac
        \<and> mac = be_nat (take 8 (hmac_sha1 c secret (be64 ts)))
        \<and> ts \<le> now \<and> now < ts + max_age))"
  using issued_nonce_valid [OF assms] accepted_nonce_authentic by blast

theorem nonce_round_trip_witness:
  "validate_nonce demo_crypto 1000 (generate_nonce demo_crypto 900 (replicate 16 7)) 3600 (replicate 16 7)
    \<and> \<not> validate_nonce demo_crypto 5000 (generate_nonce demo_crypto 900 (replicate 16 7)) 3600 (replicate 16 7)
    \<and> (\<exists>ts. ts \<le> 1000 \<and> 1000 < ts + 3600 \<and>
        from_str_radix 16 (hd (split_on COLON (generate_nonce demo_crypto 900 (replicate 16 7)))) = Some ts)"
proof -
  let ?s = "replicate 16 7 :: bytes" let ?n = "generate_nonce demo_crypto 900 (replicate 16 7)"
  have "validate_nonce demo_crypto 1000 ?n 3600 ?s" "\<not> validate_nonce demo_crypto 5000 ?n 3600 ?s"
    using nonce_round_trip [of 900 demo_crypto 1000 ?s 3600] nonce_round_trip [of 900 demo_crypto 5000 ?s 3600]
    by simp_all
  moreover from this(1) obtain ts a b where "split_on COLON ?n = [a, b]" "from_str_radix 16 a = Some ts"
      "ts \<le> 1000" "1000 < ts + 3600"
    using nonce_round_trip [of 900 demo_crypto 1000 ?s 3600] by auto
  ultimately show ?thesis by auto
qed

text \<open>
  C29. Time-limited credentials: a username \<open>expiry\<close> alone, \<open>expiry:id\<close>, or \<open>id:expiry\<close> when the
  part before the colon is no timestamp, that is not a static user has one password per shared
  secret before its expiry and none from then on.
\<close>

theorem ephemeral_credentials_expire:
  assumes "digits \<noteq> []" "list_all (\<lambda>b. 0x30 \<le> b \<and> b \<le> 0x39) digits" "dec_value digits < 2 ^ 64"
    and "user = digits \<or> user = digits @ COLON # ident
      \<or> user = ident @ COLON # digits \<and> COLON \<notin> set ident \<and> timestamp ident = None"
    and "user \<notin> fst ` set (cfg_credentials cfg)"
  shows "candidate_passwords c cfg user now =
    (if now < dec_value digits
     then map (\<lambda>secret. base64 c (hmac_sha1 c secret user)) (cfg_auth_secrets cfg) else [])"
proof -
  have ts: "timestamp digits = Some (dec_value digits)" by (rule timestamp_dec [OF assms(1-3)])
  have "COLON \<notin> set digits" using assms(2) by (auto simp: list_all_iff COLON_def)
  then have "ephemeral_expiry user = Some (dec_value digits)"
    using assms(4) ts by (auto simp: ephemeral_expiry_def split_once_append split_once_None_iff [THEN iffD2])
  moreover have "find (\<lambda>(u, _). u = user) (cfg_credentials cfg) = None"
    using assms(5) by (auto simp: find_None_iff rev_image_eqI)
  ultimately show ?thesis by (simp add: candidate_passwords_def ephemeral_password_def)
qed

definition demo_config :: config where
  "demo_config = with_credential (str ''user'') (str ''pass'')
     (with_auth_secret (str ''0123456789abcdef'') (config_new (replicate 16 7) (V4 203 0 113 5)))"

theorem ephemeral_credentials_expire_witness:
  "candidate_passwords demo_crypto demo_config (str ''100:bob'') 99
      = [base64 demo_crypto (hmac_sha1 demo_crypto (str ''0123456789abcdef'') (str ''100:bob''))]
    \<and> candidate_passwords demo_crypto demo_config (str ''100:bob'') 100 = []
    \<and> candidate_passwords demo_crypto demo_config (str ''100'') 99
      = [base64 demo_crypto (hmac_sha1 demo_crypto (str ''0123456789abcdef'') (str ''100''))]
    \<and> candidate_passwords demo_crypto demo_config (str ''100'') 100 = []"
proof -
  have user: "str ''100:bob'' = str ''100'' @ COLON # str ''bob''" by code_simp
  have v: "dec_value (str ''100'') = 100" by code_simp
  have digits: "list_all (\<lambda>b. 0x30 \<le> b \<and> b \<le> 0x39) (str ''100'')" "str ''100'' \<noteq> []" by code_simp+
  have static: "str ''100:bob'' \<notin> fst ` set (cfg_credentials demo_config)"
    "str ''100'' \<notin> fst ` set (cfg_credentials demo_config)"
    and secrets: "cfg_auth_secrets demo_config = [str ''0123456789abcdef'']"
    by code_simp+
  note named = ephemeral_credentials_expire [OF digits(2,1) _ disjI2 [OF disjI1 [OF user]] static(1)]
  note bare = ephemeral_credentials_expire [OF digits(2,1) _ disjI1 [OF refl] static(2)]
  show ?thesis
    using named [of demo_crypto 99] named [of demo_crypto 100] bare [of demo_crypto 99] bare [of demo_crypto 100] v secrets
    by simp
qed

end
