(* ===== verification/Turn_Error.thy ===== *)
theory Turn_Error
  imports Prelude
begin

text \<open>TURN error codes and their reason phrases, \<open>src/turn/message.rs\<close>.\<close>

datatype turn_error_code =
    BadRequest | Unauthorized | Forbidden | UnknownAttribute | AllocationMismatch | StaleNonce
  | WrongCredentials | UnsupportedTransport | AllocationQuotaReached | ServerError
  | InsufficientCapacity

text \<open>The discriminants, what \<open>error as u16\<close> gives.\<close>

fun error_number :: "turn_error_code \<Rightarrow> nat" where
  "error_number BadRequest = 400"
| "error_number Unauthorized = 401"
| "error_number Forbidden = 403"
| "error_number UnknownAttribute = 420"
| "error_number AllocationMismatch = 437"
| "error_number StaleNonce = 438"
| "error_number WrongCredentials = 441"
| "error_number UnsupportedTransport = 442"
| "error_number AllocationQuotaReached = 486"
| "error_number ServerError = 500"
| "error_number InsufficientCapacity = 508"

fun reason_text :: "turn_error_code \<Rightarrow> string" where
  "reason_text BadRequest = ''Bad Request''"
| "reason_text Unauthorized = ''Unauthorized''"
| "reason_text Forbidden = ''Forbidden''"
| "reason_text UnknownAttribute = ''Unknown Attribute''"
| "reason_text AllocationMismatch = ''Allocation Mismatch''"
| "reason_text StaleNonce = ''Stale Nonce''"
| "reason_text WrongCredentials = ''Wrong Credentials''"
| "reason_text UnsupportedTransport = ''Unsupported Transport Protocol''"
| "reason_text AllocationQuotaReached = ''Allocation Quota Reached''"
| "reason_text ServerError = ''Server Error''"
| "reason_text InsufficientCapacity = ''Insufficient Capacity''"

definition reason :: "turn_error_code \<Rightarrow> rstring" where
  "reason e = str (reason_text e)"

record turn_error =
  te_code :: turn_error_code
  te_message :: "rstring option"

definition turn_error_new :: "turn_error_code \<Rightarrow> turn_error" where
  "turn_error_new code = \<lparr>te_code = code, te_message = None\<rparr>"

definition turn_error_with_message :: "turn_error_code \<Rightarrow> rstring \<Rightarrow> turn_error" where
  "turn_error_with_message code message = \<lparr>te_code = code, te_message = Some message\<rparr>"

text \<open>The \<open>Display\<close> implementation; the number has three decimal digits for every code.\<close>

definition dec3 :: "nat \<Rightarrow> rstring" where
  "dec3 n = map (\<lambda>d. word_of_nat (0x30 + d)) [n div 100 mod 10, n div 10 mod 10, n mod 10]"

definition turn_error_display :: "turn_error \<Rightarrow> rstring" where
  "turn_error_display e =
    dec3 (error_number (te_code e)) @ str '' '' @ reason (te_code e)
      @ (case te_message e of Some msg \<Rightarrow> str '': '' @ msg | None \<Rightarrow> [])"

lemma error_number_range: "300 \<le> error_number e \<and> error_number e < 600"
  by (cases e) simp_all

lemma error_number_inj: "error_number a = error_number b \<longleftrightarrow> a = b"
  by (cases a; cases b) simp_all

lemma reason_length: "length (reason e) \<le> 30"
  by (cases e) (simp_all add: reason_def str_def)

end
