(* ===== verification/Responses.thy ===== *)
theory Responses
  imports Demux Auth Turn_Error
begin

text \<open>
  Every message the server writes: the response builders of \<open>src/turn/handler.rs\<close>, and the data
  indications and ChannelData frames that \<open>handler.rs\<close>, \<open>src/relay/engine.rs\<close> and
  \<open>src/server.rs\<close> each build with their own code. A builder appends to a buffer and patches the
  length field at the end, as the source does. The lemmas bring every builder to one encoder
  \<open>stun_msg\<close>, whose output the parser of \<open>Stun_Msg\<close> is shown to read back.
\<close>

section \<open>Definitions\<close>

text \<open>\<open>buf[2..4].copy_from_slice(&len.to_be_bytes())\<close>.\<close>

definition put_len :: "nat \<Rightarrow> bytes \<Rightarrow> bytes" where
  "put_len n buf = (let w = be16 (word_of_nat n) in buf[2 := w ! 0, 3 := w ! 1])"

definition update_len :: "bytes \<Rightarrow> bytes" where
  "update_len buf = put_len (length buf - 20) buf"

text \<open>The type, length placeholder, cookie and transaction id every builder starts with.\<close>

definition start_msg :: "bytes \<Rightarrow> bytes \<Rightarrow> bytes" where
  "start_msg ty txn = ty @ [0x00, 0x00] @ [0x21, 0x12, 0xA4, 0x42] @ txn"

text \<open>The body of the three \<open>append_xor_*_address\<close> functions after the attribute type.\<close>

fun xor_address_body :: "socket_addr \<Rightarrow> bytes \<Rightarrow> bytes" where
  "xor_address_body (SockV4 a b c d port) txn =
    [0x00, 0x08] @ [0x00, 0x01] @ be16 (port XOR 0x2112)
      @ map (\<lambda>i. [a, b, c, d] ! i XOR MAGIC_BYTES ! i) [0..<4]"
| "xor_address_body (SockV6 octets port flow scope) txn =
    [0x00, 0x14] @ [0x00, 0x02] @ be16 (port XOR 0x2112)
      @ map (\<lambda>i. octets ! i XOR MAGIC_BYTES ! i) [0..<4]
      @ map (\<lambda>i. octets ! (4 + i) XOR txn ! i) [0..<12]"

definition append_xor_mapped_address :: "bytes \<Rightarrow> socket_addr \<Rightarrow> bytes \<Rightarrow> bytes" where
  "append_xor_mapped_address buf addr txn = buf @ [0x00, 0x20] @ xor_address_body addr txn"

definition append_xor_relayed_address :: "bytes \<Rightarrow> socket_addr \<Rightarrow> bytes \<Rightarrow> bytes" where
  "append_xor_relayed_address buf addr txn = buf @ [0x00, 0x16] @ xor_address_body addr txn"

definition append_xor_peer_address :: "bytes \<Rightarrow> socket_addr \<Rightarrow> bytes \<Rightarrow> bytes" where
  "append_xor_peer_address buf addr txn = buf @ [0x00, 0x12] @ xor_address_body addr txn"

text \<open>The relay engine and the server keep copies of their own.\<close>

definition engine_append_xor_peer_address :: "bytes \<Rightarrow> socket_addr \<Rightarrow> bytes \<Rightarrow> bytes" where
  "engine_append_xor_peer_address buf addr txn = buf @ [0x00, 0x12] @ xor_address_body addr txn"

definition server_append_xor_peer_address :: "bytes \<Rightarrow> socket_addr \<Rightarrow> bytes \<Rightarrow> bytes" where
  "server_append_xor_peer_address buf addr txn = buf @ [0x00, 0x12] @ xor_address_body addr txn"

definition append_lifetime :: "bytes \<Rightarrow> u32 \<Rightarrow> bytes" where
  "append_lifetime buf lifetime = buf @ [0x00, 0x0D] @ [0x00, 0x04] @ be32 lifetime"

text \<open>An attribute holding a string, padded with zeros to a multiple of four.\<close>

definition append_string_attr :: "bytes \<Rightarrow> bytes \<Rightarrow> rstring \<Rightarrow> bytes" where
  "append_string_attr ty buf s =
    buf @ ty @ be16 (word_of_nat (length s)) @ s @ replicate (pad4 (length s) - length s) 0"

definition append_realm :: "bytes \<Rightarrow> rstring \<Rightarrow> bytes" where
  "append_realm buf realm = append_string_attr [0x00, 0x14] buf realm"

definition append_nonce :: "bytes \<Rightarrow> rstring \<Rightarrow> bytes" where
  "append_nonce buf nonce = append_string_attr [0x00, 0x15] buf nonce"

definition append_message_integrity :: "crypto \<Rightarrow> bytes \<Rightarrow> bytes \<Rightarrow> bytes" where
  "append_message_integrity c buf key =
    (let buf = put_len (length buf - 20 + 24) buf;
         integrity = compute_message_integrity c buf key
     in buf @ [0x00, 0x08] @ [0x00, 0x14] @ integrity)"

text \<open>The tail of the builders that sign when a key is at hand.\<close>

definition finish :: "crypto \<Rightarrow> bytes option \<Rightarrow> bytes \<Rightarrow> bytes" where
  "finish c key buf =
    (case key of Some k \<Rightarrow> append_message_integrity c buf k | None \<Rightarrow> update_len buf)"

definition build_binding_response :: "stun_info \<Rightarrow> socket_addr \<Rightarrow> bytes" where
  "build_binding_response request client =
    update_len (append_xor_mapped_address (start_msg [0x01, 0x01] (si_transaction_id request))
      client (si_transaction_id request))"

definition build_allocate_response ::
  "crypto \<Rightarrow> config \<Rightarrow> stun_info \<Rightarrow> socket_addr \<Rightarrow> u32 \<Rightarrow> bytes option \<Rightarrow> bytes" where
  "build_allocate_response c cfg request client lifetime key =
    (let txn = si_transaction_id request;
         response = start_msg [0x01, 0x03] txn;
         relay_addr = sa_new (cfg_external_ip cfg) (cfg_port cfg);
         response = append_xor_relayed_address response relay_addr txn;
         response = append_xor_mapped_address response client txn;
         response = append_lifetime response lifetime
     in finish c key response)"

definition build_refresh_response :: "crypto \<Rightarrow> stun_info \<Rightarrow> u32 \<Rightarrow> bytes option \<Rightarrow> bytes" where
  "build_refresh_response c request lifetime key =
    finish c key (append_lifetime (start_msg [0x01, 0x04] (si_transaction_id request)) lifetime)"

definition request_type :: "stun_info \<Rightarrow> u16" where
  "request_type request = u16_be (si_raw request ! 0) (si_raw request ! 1)"

definition build_success_response :: "crypto \<Rightarrow> stun_info \<Rightarrow> bytes option \<Rightarrow> bytes" where
  "build_success_response c request key =
    finish c key (start_msg (be16 (request_type request OR 0x0100)) (si_transaction_id request))"

text \<open>\<open>while response.len() < n { response.push(0) }\<close>.\<close>

function push_until :: "nat \<Rightarrow> bytes \<Rightarrow> bytes" where
  "push_until n buf = (if length buf < n then push_until n (buf @ [0]) else buf)"
  by pat_completeness auto
termination by (relation "measure (\<lambda>(n, buf). n - length buf)") auto

declare push_until.simps [simp del]

definition append_error_code :: "bytes \<Rightarrow> nat \<Rightarrow> rstring \<Rightarrow> bytes" where
  "append_error_code buf number phrase =
    (let attr_len = 4 + length phrase; padded_len = pad4 attr_len
     in push_until (20 + 4 + padded_len)
          (buf @ [0x00, 0x09] @ be16 (word_of_nat attr_len) @ [0x00, 0x00]
            @ [word_of_nat (number div 100), word_of_nat (number mod 100)] @ phrase))"

definition build_signed_error_response ::
  "crypto \<Rightarrow> stun_info \<Rightarrow> turn_error_code \<Rightarrow> bytes option \<Rightarrow> bytes" where
  "build_signed_error_response c request error key =
    finish c key (append_error_code
      (start_msg (be16 (request_type request OR 0x0110)) (si_transaction_id request))
      (error_number error) (reason error))"

definition build_error_response :: "crypto \<Rightarrow> stun_info \<Rightarrow> turn_error_code \<Rightarrow> bytes" where
  "build_error_response c request error = build_signed_error_response c request error None"

definition build_unauthorized_response :: "crypto \<Rightarrow> config \<Rightarrow> u64 \<Rightarrow> stun_info \<Rightarrow> bytes" where
  "build_unauthorized_response c cfg unix_now request =
    (let response = append_error_code
           (start_msg (be16 (request_type request OR 0x0110)) (si_transaction_id request))
           401 (str ''Unauthorized'');
         response = append_realm response (cfg_realm cfg);
         nonce = generate_nonce c unix_now (cfg_nonce_secret cfg)
     in update_len (append_nonce response nonce))"

definition build_stale_nonce_response :: "crypto \<Rightarrow> config \<Rightarrow> u64 \<Rightarrow> stun_info \<Rightarrow> bytes" where
  "build_stale_nonce_response c cfg unix_now request =
    (let response = append_error_code
           (start_msg (be16 (request_type request OR 0x0110)) (si_transaction_id request))
           438 (str ''Stale Nonce'');
         response = append_realm response (cfg_realm cfg);
         nonce = generate_nonce c unix_now (cfg_nonce_secret cfg)
     in update_len (append_nonce response nonce))"

text \<open>ChannelData: the same code in \<open>handler.rs\<close> and \<open>engine.rs\<close>.\<close>

definition build_channel_data :: "u16 \<Rightarrow> bytes \<Rightarrow> bytes" where
  "build_channel_data chan data =
    (let padding = (4 - ((4 + length data) mod 4)) mod 4
     in be16 chan @ be16 (word_of_nat (length data)) @ data @ replicate padding 0)"

text \<open>
  The handler pads a data indication byte by byte; the engine and the server compute the padding.
  The random transaction id is an argument.
\<close>

lemma align_step: "n mod 4 \<noteq> 0 \<Longrightarrow> (4 - n mod 4) mod 4 = Suc ((4 - Suc n mod 4) mod 4)" for n :: nat
proof -
  assume "n mod 4 \<noteq> 0"
  then have "n mod 4 = 1 \<or> n mod 4 = 2 \<or> n mod 4 = 3" by presburger
  then show ?thesis by (auto simp: mod_Suc)
qed

function push_aligned :: "bytes \<Rightarrow> bytes" where
  "push_aligned packet =
    (if (length packet - 20) mod 4 \<noteq> 0 then push_aligned (packet @ [0]) else packet)"
  by pat_completeness auto
termination
proof (relation "measure (\<lambda>packet. (4 - (length packet - 20) mod 4) mod 4)")
  fix packet :: bytes
  assume a: "(length packet - 20) mod 4 \<noteq> 0"
  then have "20 \<le> length packet" by (cases "20 \<le> length packet") simp_all
  then have "length (packet @ [0 :: u8]) - 20 = Suc (length packet - 20)" by simp
  then show "(packet @ [0], packet) \<in> measure (\<lambda>packet. (4 - (length packet - 20) mod 4) mod 4)"
    using align_step [OF a] unfolding in_measure by (simp only: lessI)
qed simp

declare push_aligned.simps [simp del]

definition build_data_indication :: "bytes \<Rightarrow> socket_addr \<Rightarrow> bytes \<Rightarrow> bytes" where
  "build_data_indication txn peer data =
    (let packet = append_xor_peer_address (start_msg [0x00, 0x17] txn) peer txn;
         packet = packet @ [0x00, 0x13] @ be16 (word_of_nat (length data)) @ data;
         packet = push_aligned packet
     in update_len packet)"

definition engine_data_indication :: "bytes \<Rightarrow> socket_addr \<Rightarrow> bytes \<Rightarrow> bytes" where
  "engine_data_indication txn peer data =
    (let packet = engine_append_xor_peer_address (start_msg [0x00, 0x17] txn) peer txn;
         packet = packet @ [0x00, 0x13] @ be16 (word_of_nat (length data)) @ data;
         padding = (4 - ((length packet - 20) mod 4)) mod 4;
         packet = packet @ replicate padding 0
     in update_len packet)"

definition server_data_indication :: "bytes \<Rightarrow> socket_addr \<Rightarrow> bytes \<Rightarrow> bytes" where
  "server_data_indication txn peer data =
    (let packet = server_append_xor_peer_address (start_msg [0x00, 0x17] txn) peer txn;
         packet = packet @ [0x00, 0x13] @ be16 (word_of_nat (length data)) @ data;
         padding = (4 - ((length packet - 20) mod 4)) mod 4;
         packet = packet @ replicate padding 0
     in update_len packet)"

section \<open>One encoder for all messages\<close>

definition enc_attr :: "u16 \<times> bytes \<Rightarrow> bytes" where
  "enc_attr a = (case a of (ty, v) \<Rightarrow>
    be16 ty @ be16 (word_of_nat (length v)) @ v @ replicate (pad4 (length v) - length v) 0)"

definition enc_attrs :: "(u16 \<times> bytes) list \<Rightarrow> bytes" where
  "enc_attrs attrs = concat (map enc_attr attrs)"

definition stun_header :: "u16 \<Rightarrow> nat \<Rightarrow> bytes \<Rightarrow> bytes" where
  "stun_header ty len txn = be16 ty @ be16 (word_of_nat len) @ MAGIC_BYTES @ txn"

definition stun_msg :: "u16 \<Rightarrow> bytes \<Rightarrow> (u16 \<times> bytes) list \<Rightarrow> bytes" where
  "stun_msg ty txn attrs = stun_header ty (length (enc_attrs attrs)) txn @ enc_attrs attrs"

text \<open>What the attribute loop computes on an encoded list.\<close>

fun fold_attrs :: "bytes \<Rightarrow> nat \<Rightarrow> (u16 \<times> bytes) list \<Rightarrow> parsed_attrs \<Rightarrow> parsed_attrs" where
  "fold_attrs t off [] r = r"
| "fold_attrs t off ((ty, v) # as) r =
    (let r' = match_attr ty v t off r
     in if stops_loop ty v then r' else fold_attrs t (off + (4 + pad4 (length v))) as r')"

definition info_of :: "u16 \<Rightarrow> stun_class \<Rightarrow> bytes \<Rightarrow> parsed_attrs \<Rightarrow> bytes \<Rightarrow> stun_info" where
  "info_of ty cls txn r raw =
    \<lparr>si_class = cls, si_method = method_of ty, si_transaction_id = txn, si_username = pa_username r,
     si_xor_peer_addresses = pa_xor_peer_addresses r, si_channel_number = pa_channel_number r,
     si_lifetime = pa_lifetime r, si_data = pa_data r, si_realm = pa_realm r, si_nonce = pa_nonce r,
     si_message_integrity = pa_message_integrity r,
     si_message_integrity_offset = pa_message_integrity_offset r,
     si_requested_transport = pa_requested_transport r, si_raw = raw\<rparr>"

section \<open>Lemmas\<close>

lemma length_enc_attr: "length (enc_attr (ty, v)) = 4 + pad4 (length v)"
  using pad4_bounds(1) [of "length v"] by (simp add: enc_attr_def)

lemma enc_attrs_simps [simp]:
  "enc_attrs [] = []" "enc_attrs (a # as) = enc_attr a @ enc_attrs as"
  "enc_attrs (as @ bs) = enc_attrs as @ enc_attrs bs"
  by (simp_all add: enc_attrs_def)

lemma loop_fold_attrs:
  assumes "\<forall>(ty, v) \<in> set attrs. length v < 65536"
  shows "parse_attributes_loop (pre @ enc_attrs attrs) t (length pre) r
    = fold_attrs t (length pre) attrs r"
  using assms
proof (induction attrs arbitrary: pre r)
  case Nil
  then show ?case by (simp add: loop_end)
next
  case (Cons a attrs)
  obtain ty v where a: "a = (ty, v)" by fastforce
  have l: "length v < 65536" using Cons.prems a by simp
  let ?pre = "pre @ enc_attr (ty, v)"
  have "parse_attributes_loop (pre @ enc_attrs (a # attrs)) t (length pre) r =
    (if stops_loop ty v then match_attr ty v t (length pre) r
     else parse_attributes_loop (pre @ enc_attrs (a # attrs)) t (length pre + (4 + pad4 (length v)))
            (match_attr ty v t (length pre) r))"
    by (rule loop_attr [OF _ refl l]) (simp add: a enc_attr_def)
  moreover have "parse_attributes_loop (?pre @ enc_attrs attrs) t (length ?pre)
      (match_attr ty v t (length pre) r) = fold_attrs t (length ?pre) attrs (match_attr ty v t (length pre) r)"
    using Cons.prems by (intro Cons.IH) simp
  ultimately show ?case by (simp add: a length_enc_attr Let_def)
qed

lemma stun_header_nth:
  assumes "length txn = 12"
  shows "length (stun_header ty n txn) = 20"
    and "u16_be ((stun_header ty n txn @ b) ! 0) ((stun_header ty n txn @ b) ! 1) = ty"
    and "u16_be ((stun_header ty n txn @ b) ! 2) ((stun_header ty n txn @ b) ! 3) = word_of_nat n"
    and "u32_be ((stun_header ty n txn @ b) ! 4) ((stun_header ty n txn @ b) ! 5)
      ((stun_header ty n txn @ b) ! 6) ((stun_header ty n txn @ b) ! 7) = STUN_MAGIC_COOKIE"
    and "take 12 (drop 8 (stun_header ty n txn @ b)) = txn"
    and "drop 20 (stun_header ty n txn @ b) = b"
proof -
  have e: "be16 w = [be16 w ! 0, be16 w ! 1]" for w by (simp add: be16_def)
  show "length (stun_header ty n txn) = 20" using assms by (simp add: stun_header_def MAGIC_BYTES_def)
  show "u16_be ((stun_header ty n txn @ b) ! 0) ((stun_header ty n txn @ b) ! 1) = ty"
    using u16_be_be16 [of ty] by (simp add: stun_header_def nth_append)
  show "u16_be ((stun_header ty n txn @ b) ! 2) ((stun_header ty n txn @ b) ! 3) = word_of_nat n"
    using u16_be_be16 [of "word_of_nat n"] by (simp add: stun_header_def nth_append)
  show "u32_be ((stun_header ty n txn @ b) ! 4) ((stun_header ty n txn @ b) ! 5)
      ((stun_header ty n txn @ b) ! 6) ((stun_header ty n txn @ b) ! 7) = STUN_MAGIC_COOKIE"
    by (simp add: stun_header_def nth_append MAGIC_BYTES_def STUN_MAGIC_COOKIE_def u32_be_def)
  show "take 12 (drop 8 (stun_header ty n txn @ b)) = txn" "drop 20 (stun_header ty n txn @ b) = b"
    using assms by (simp_all add: stun_header_def MAGIC_BYTES_def)
qed

text \<open>The parser reads back what the encoder wrote.\<close>

lemma parse_stun_msg:
  assumes "length txn = 12" "\<forall>(ty, v) \<in> set attrs. length v < 65536"
    and "length (enc_attrs attrs) < 65536" "class_of ty = Some cls"
  shows "parse_stun_info (stun_msg ty txn attrs)
    = Some (info_of ty cls txn (fold_attrs txn 0 attrs empty_attrs) (stun_msg ty txn attrs))"
proof -
  note h = stun_header_nth [OF assms(1)]
  have "parse_attributes (enc_attrs attrs) txn = fold_attrs txn 0 attrs empty_attrs"
    using loop_fold_attrs [OF assms(2), of "[]"] by (simp add: parse_attributes_def)
  then show ?thesis
    using assms(3,4) unfolding parse_stun_info_def stun_msg_def Let_def h
    by (simp add: h(1) info_of_def)
qed

text \<open>The loops and the length patch.\<close>

lemma push_until_eq: "push_until n buf = buf @ replicate (n - length buf) 0"
proof (induction n buf rule: push_until.induct)
  case (1 n buf)
  show ?case
  proof (cases "length buf < n")
    case True
    then have "n - length buf = Suc (n - length (buf @ [0 :: u8]))" by simp
    then show ?thesis using 1 True by (simp add: push_until.simps [of n buf])
  qed (simp add: push_until.simps [of n buf])
qed

lemma push_aligned_eq:
  "20 \<le> length p \<Longrightarrow> push_aligned p = p @ replicate ((4 - (length p - 20) mod 4) mod 4) 0"
proof (induction p rule: push_aligned.induct)
  case (1 p)
  show ?case
  proof (cases "(length p - 20) mod 4 = 0")
    case False
    have "length (p @ [0 :: u8]) - 20 = Suc (length p - 20)" using 1(2) by simp
    then have pad: "(4 - (length p - 20) mod 4) mod 4 = Suc ((4 - (length (p @ [0 :: u8]) - 20) mod 4) mod 4)"
      using align_step [OF False] by (simp only:)
    have "push_aligned p = push_aligned (p @ [0])" using False by (simp add: push_aligned.simps [of p])
    also have "\<dots> = (p @ [0]) @ replicate ((4 - (length (p @ [0 :: u8]) - 20) mod 4) mod 4) 0"
      by (rule 1(1) [OF False]) (use 1(2) in simp)
    finally show ?thesis unfolding pad replicate_Suc by simp
  qed (simp add: push_aligned.simps [of p])
qed

lemma put_len_start:
  "put_len n (start_msg (be16 ty) txn @ rest) = stun_header ty n txn @ rest"
proof -
  have "be16 w = [be16 w ! 0, be16 w ! 1]" for w by (simp add: be16_def)
  then show ?thesis
    by (simp add: put_len_def start_msg_def stun_header_def MAGIC_BYTES_def Let_def be16_def)
qed

lemma update_len_msg:
  assumes "length txn = 12"
  shows "update_len (start_msg (be16 ty) txn @ enc_attrs as) = stun_msg ty txn as"
proof -
  have "length (start_msg (be16 ty) txn @ enc_attrs as) - 20 = length (enc_attrs as)"
    using assms by (simp add: start_msg_def)
  then show ?thesis unfolding update_len_def put_len_start stun_msg_def by (simp only:) 
qed

text \<open>The bytes a signature covers: the header already announces the signature itself.\<close>

definition signed_part :: "u16 \<Rightarrow> bytes \<Rightarrow> (u16 \<times> bytes) list \<Rightarrow> bytes" where
  "signed_part ty txn as = stun_header ty (length (enc_attrs as) + 24) txn @ enc_attrs as"

definition sign_attrs :: "crypto \<Rightarrow> bytes option \<Rightarrow> u16 \<Rightarrow> bytes \<Rightarrow> (u16 \<times> bytes) list \<Rightarrow> (u16 \<times> bytes) list" where
  "sign_attrs c key ty txn as =
    (case key of Some k \<Rightarrow> as @ [(ATTR_MESSAGE_INTEGRITY, hmac_sha1 c k (signed_part ty txn as))]
     | None \<Rightarrow> as)"

lemma finish_msg:
  assumes "length txn = 12" "digest_lengths c"
  shows "finish c key (start_msg (be16 ty) txn @ enc_attrs as) = stun_msg ty txn (sign_attrs c key ty txn as)"
proof (cases key)
  case None
  then show ?thesis using update_len_msg [OF assms(1)] by (simp add: finish_def sign_attrs_def)
next
  case (Some k)
  let ?buf = "start_msg (be16 ty) txn @ enc_attrs as"
  have len: "length ?buf - 20 + 24 = length (enc_attrs as) + 24"
    using assms(1) by (simp add: start_msg_def)
  let ?h = "hmac_sha1 c k (signed_part ty txn as)"
  have h: "length ?h = 20" using assms(2) by (simp add: digest_lengths_def)
  have "enc_attr (ATTR_MESSAGE_INTEGRITY, ?h) = [0x00, 0x08] @ [0x00, 0x14] @ ?h"
    using h by (simp add: enc_attr_def ATTR_MESSAGE_INTEGRITY_def be16_def pad4_def)
  then show ?thesis
    using Some h
    unfolding finish_def append_message_integrity_def Let_def option.case len put_len_start
    by (simp add: sign_attrs_def stun_msg_def signed_part_def compute_message_integrity_def)
qed

text \<open>Each attribute writer is the encoder.\<close>

definition xor_value :: "socket_addr \<Rightarrow> bytes \<Rightarrow> bytes" where
  "xor_value addr txn = drop 2 (xor_address_body addr txn)"

lemma length_xor_value: "length (xor_value addr txn) = (case addr of SockV4 _ _ _ _ _ \<Rightarrow> 8 | _ \<Rightarrow> 20)"
  by (cases addr) (simp_all add: xor_value_def)

lemma xor_body_enc:
  "be16 ty @ xor_address_body addr txn = enc_attr (ty, xor_value addr txn)"
proof -
  have "xor_address_body addr txn = be16 (word_of_nat (length (xor_value addr txn))) @ xor_value addr txn"
    by (cases addr) (simp_all add: xor_value_def be16_def)
  moreover have "pad4 (length (xor_value addr txn)) = length (xor_value addr txn)"
    unfolding length_xor_value by (cases addr) (simp_all add: pad4_def)
  ultimately show ?thesis by (simp add: enc_attr_def)
qed

lemma be16_const:
  "[0x00, 0x20] = be16 0x0020" "[0x00, 0x16] = be16 0x0016" "[0x00, 0x12] = be16 0x0012"
  "[0x00, 0x0D] = be16 0x000D" "[0x00, 0x14] = be16 0x0014" "[0x00, 0x15] = be16 0x0015"
  "[0x00, 0x09] = be16 0x0009" "[0x00, 0x13] = be16 0x0013" "[0x00, 0x17] = be16 0x0017"
  "[0x01, 0x01] = be16 0x0101" "[0x01, 0x03] = be16 0x0103" "[0x01, 0x04] = be16 0x0104"
  by (simp_all add: be16_def)

lemma append_xor_enc:
  "append_xor_mapped_address buf addr txn = buf @ enc_attr (0x0020, xor_value addr txn)"
  "append_xor_relayed_address buf addr txn = buf @ enc_attr (0x0016, xor_value addr txn)"
  "append_xor_peer_address buf addr txn = buf @ enc_attr (0x0012, xor_value addr txn)"
  "engine_append_xor_peer_address buf addr txn = append_xor_peer_address buf addr txn"
  "server_append_xor_peer_address buf addr txn = append_xor_peer_address buf addr txn"
  by (simp_all only: append_xor_mapped_address_def append_xor_relayed_address_def engine_append_xor_peer_address_def
      server_append_xor_peer_address_def append_xor_peer_address_def be16_const xor_body_enc)

lemma append_lifetime_enc: "append_lifetime buf l = buf @ enc_attr (0x000D, be32 l)"
  by (simp add: append_lifetime_def enc_attr_def be16_def pad4_def)

lemma append_string_enc:
  "append_realm buf s = buf @ enc_attr (0x0014, s)" "append_nonce buf s = buf @ enc_attr (0x0015, s)"
  by (simp_all add: append_realm_def append_nonce_def append_string_attr_def enc_attr_def be16_def)

lemma append_error_code_enc:
  assumes "length buf = 20"
  shows "append_error_code buf n phrase =
    buf @ enc_attr (0x0009, [0, 0, word_of_nat (n div 100), word_of_nat (n mod 100)] @ phrase)"
proof -
  define v where "v = [0, 0, word_of_nat (n div 100), word_of_nat (n mod 100)] @ phrase"
  have v: "length v = 4 + length phrase" by (simp add: v_def)
  have "append_error_code buf n phrase = push_until (20 + 4 + pad4 (length v))
      (buf @ [0x00, 0x09] @ be16 (word_of_nat (length v)) @ v)"
    unfolding append_error_code_def Let_def v by (simp add: v_def)
  also have "\<dots> = buf @ enc_attr (0x0009, v)"
    using assms by (simp add: push_until_eq enc_attr_def be16_def)
  finally show ?thesis by (simp add: v_def)
qed

lemma length_start_msg: "length ty = 2 \<Longrightarrow> length txn = 12 \<Longrightarrow> length (start_msg ty txn) = 20"
  by (simp add: start_msg_def)

text \<open>XOR addresses.\<close>

lemma xor_twice: "(a XOR b) XOR b = (a :: 'a :: len word)"
  by (simp add: xor.assoc)

lemma decode_xor_value:
  assumes "wf_sa addr" "length txn = 12"
  shows "decode_xor_address (xor_value addr txn) txn = Some (sa_new (sa_ip addr) (sa_port addr))"
proof (cases addr)
  case (SockV4 a b c d port)
  have "u16_be (be16 w ! 0) (be16 w ! 1) = w" for w by (rule u16_be_be16)
  then have "u16_be (hd (be16 w)) (be16 w ! Suc 0) = w" for w by (simp add: be16_def)
  then show ?thesis
    by (simp add: SockV4 decode_xor_address_def xor_value_def Let_def be16_def upt_rec_numeral
        xor_twice MAGIC_BYTES_def)
next
  case (SockV6 octets port flow scope)
  let ?v = "xor_value addr txn"
  have len: "length octets = 16" using assms(1) by (simp add: SockV6 wf_sa_def)
  have v: "?v = [0x00, 0x02] @ be16 (port XOR 0x2112)
      @ map (\<lambda>i. octets ! i XOR MAGIC_BYTES ! i) [0..<4] @ map (\<lambda>i. octets ! (4 + i) XOR txn ! i) [0..<12]"
    by (simp add: SockV6 xor_value_def)
  have port: "u16_be (?v ! 2) (?v ! 3) XOR 0x2112 = port"
    using u16_be_be16 [of "port XOR 0x2112"] by (simp add: v nth_append xor_twice)
  have low: "map (\<lambda>i. ?v ! (4 + i) XOR MAGIC_BYTES ! i) [0..<4] = take 4 octets"
    using len by (intro nth_equalityI) (simp_all add: v nth_append xor_twice)
  have high: "map (\<lambda>i. ?v ! (8 + i) XOR txn ! i) [0..<12] = drop 4 octets"
    using len by (intro nth_equalityI) (simp_all add: v nth_append xor_twice)
  have "length ?v = 20" "?v ! 1 = 0x02" by (simp_all add: v)
  then show ?thesis
    unfolding decode_xor_address_def Let_def port low high by (simp add: SockV6)
qed

text \<open>Every builder is the encoder on a list of attributes.\<close>

lemma builder_msgs:
  assumes "length (si_transaction_id q) = 12" "digest_lengths c"
  shows "build_binding_response q client = stun_msg 0x0101 (si_transaction_id q)
      [(0x0020, xor_value client (si_transaction_id q))]"
    and "build_allocate_response c cfg q client l key = stun_msg 0x0103 (si_transaction_id q)
      (sign_attrs c key 0x0103 (si_transaction_id q)
        [(0x0016, xor_value (sa_new (cfg_external_ip cfg) (cfg_port cfg)) (si_transaction_id q)),
         (0x0020, xor_value client (si_transaction_id q)), (0x000D, be32 l)])"
    and "build_refresh_response c q l key = stun_msg 0x0104 (si_transaction_id q)
      (sign_attrs c key 0x0104 (si_transaction_id q) [(0x000D, be32 l)])"
    and "build_success_response c q key = stun_msg (request_type q OR 0x0100) (si_transaction_id q)
      (sign_attrs c key (request_type q OR 0x0100) (si_transaction_id q) [])"
    and "build_signed_error_response c q e key = stun_msg (request_type q OR 0x0110) (si_transaction_id q)
      (sign_attrs c key (request_type q OR 0x0110) (si_transaction_id q)
        [(0x0009, [0, 0, word_of_nat (error_number e div 100), word_of_nat (error_number e mod 100)] @ reason e)])"
    and "build_unauthorized_response c cfg now q = stun_msg (request_type q OR 0x0110) (si_transaction_id q)
      [(0x0009, [0, 0, 4, 1] @ str ''Unauthorized''), (0x0014, cfg_realm cfg),
       (0x0015, generate_nonce c now (cfg_nonce_secret cfg))]"
    and "build_stale_nonce_response c cfg now q = stun_msg (request_type q OR 0x0110) (si_transaction_id q)
      [(0x0009, [0, 0, 4, 38] @ str ''Stale Nonce''), (0x0014, cfg_realm cfg),
       (0x0015, generate_nonce c now (cfg_nonce_secret cfg))]"
proof -
  note upd = update_len_msg [OF assms(1)] and fin = finish_msg [OF assms]
  note enc = append_xor_enc append_lifetime_enc append_string_enc append_assoc
  have start: "length (start_msg (be16 ty) (si_transaction_id q)) = 20" for ty
    using assms(1) by (simp add: length_start_msg)
  show "build_binding_response q client = stun_msg 0x0101 (si_transaction_id q)
      [(0x0020, xor_value client (si_transaction_id q))]"
    using upd [of "0x0101" "[(0x0020, xor_value client (si_transaction_id q))]"]
    by (simp add: build_binding_response_def enc be16_const)
  show "build_allocate_response c cfg q client l key = stun_msg 0x0103 (si_transaction_id q)
      (sign_attrs c key 0x0103 (si_transaction_id q)
        [(0x0016, xor_value (sa_new (cfg_external_ip cfg) (cfg_port cfg)) (si_transaction_id q)),
         (0x0020, xor_value client (si_transaction_id q)), (0x000D, be32 l)])"
    by (simp add: build_allocate_response_def Let_def enc be16_const flip: fin)
  show "build_refresh_response c q l key = stun_msg 0x0104 (si_transaction_id q)
      (sign_attrs c key 0x0104 (si_transaction_id q) [(0x000D, be32 l)])"
    by (simp add: build_refresh_response_def enc be16_const flip: fin)
  show "build_success_response c q key = stun_msg (request_type q OR 0x0100) (si_transaction_id q)
      (sign_attrs c key (request_type q OR 0x0100) (si_transaction_id q) [])"
    by (simp add: build_success_response_def flip: fin)
  show "build_signed_error_response c q e key = stun_msg (request_type q OR 0x0110) (si_transaction_id q)
      (sign_attrs c key (request_type q OR 0x0110) (si_transaction_id q)
        [(0x0009, [0, 0, word_of_nat (error_number e div 100), word_of_nat (error_number e mod 100)] @ reason e)])"
    by (simp add: build_signed_error_response_def append_error_code_enc start flip: fin)
  show "build_unauthorized_response c cfg now q = stun_msg (request_type q OR 0x0110) (si_transaction_id q)
      [(0x0009, [0, 0, 4, 1] @ str ''Unauthorized''), (0x0014, cfg_realm cfg),
       (0x0015, generate_nonce c now (cfg_nonce_secret cfg))]"
    by (simp add: build_unauthorized_response_def Let_def append_error_code_enc start enc flip: upd)
  show "build_stale_nonce_response c cfg now q = stun_msg (request_type q OR 0x0110) (si_transaction_id q)
      [(0x0009, [0, 0, 4, 38] @ str ''Stale Nonce''), (0x0014, cfg_realm cfg),
       (0x0015, generate_nonce c now (cfg_nonce_secret cfg))]"
    by (simp add: build_stale_nonce_response_def Let_def append_error_code_enc start enc flip: upd)
qed

lemma pad_mod_eq: "(4 - (m + n) mod 4) mod 4 = pad4 n - n" if m4: "m mod 4 = 0" for m n :: nat
proof -
  obtain q r where n: "n = 4 * q + r" "r < 4" by (metis mod_less_divisor mult_div_mod_eq zero_less_numeral)
  obtain k where m: "m = 4 * k" using m4 by (auto simp: mod_eq_0_iff_dvd)
  have "(m + n) mod 4 = (4 * (k + q) + r) mod 4" using n m by (simp add: algebra_simps)
  also have "\<dots> = r" using n(2) by (simp only: mod_mult_self4 mod_less)
  finally have mod: "(m + n) mod 4 = r" .
  have "(n + 3) div 4 = q + (r + 3) div 4" using n by (simp add: add.assoc)
  then have pad: "pad4 n = 4 * q + (r + 3) div 4 * 4" by (simp add: pad4_def)
  have "r = 0 \<or> r = 1 \<or> r = 2 \<or> r = 3" using n(2) by linarith
  moreover have "pad4 n - n = (r + 3) div 4 * 4 - r" unfolding pad using n(1) by simp
  ultimately show ?thesis unfolding mod by auto
qed

lemma indication_msgs:
  assumes "length txn = 12"
  shows "engine_data_indication txn peer data
      = stun_msg 0x0017 txn [(0x0012, xor_value peer txn), (0x0013, data)]"
    and "server_data_indication txn peer data = engine_data_indication txn peer data"
    and "build_data_indication txn peer data = engine_data_indication txn peer data"
proof -
  let ?p = "append_xor_peer_address (start_msg [0x00, 0x17] txn) peer txn
    @ [0x00, 0x13] @ be16 (word_of_nat (length data)) @ data"
  let ?m = "4 + pad4 (length (xor_value peer txn)) + 4"
  have len: "length ?p = 20 + (?m + length data)"
    using assms by (simp add: append_xor_enc length_enc_attr start_msg_def)
  have "(4 - (length ?p - 20) mod 4) mod 4 = pad4 (length data) - length data"
    unfolding len diff_add_inverse by (rule pad_mod_eq) (simp add: pad4_def)
  then have "engine_data_indication txn peer data
      = update_len (?p @ replicate (pad4 (length data) - length data) 0)"
    by (simp add: engine_data_indication_def append_xor_enc(4) Let_def)
  also have "?p @ replicate (pad4 (length data) - length data) 0
      = start_msg (be16 0x0017) txn @ enc_attrs [(0x0012, xor_value peer txn), (0x0013, data)]"
    by (simp add: append_xor_enc be16_const enc_attr_def)
  finally show "engine_data_indication txn peer data
      = stun_msg 0x0017 txn [(0x0012, xor_value peer txn), (0x0013, data)]"
    by (simp only: update_len_msg [OF assms])
  show "server_data_indication txn peer data = engine_data_indication txn peer data"
    by (simp add: server_data_indication_def engine_data_indication_def append_xor_enc(4,5))
  have "20 \<le> length ?p" using len by simp
  then show "build_data_indication txn peer data = engine_data_indication txn peer data"
    using push_aligned_eq [of ?p] by (simp add: build_data_indication_def engine_data_indication_def append_xor_enc(4) Let_def)
qed

text \<open>The class and method bits of a response type.\<close>

lemma type_or_bits:
  "drop_bit 4 (ty OR 0x0110) AND 0x01 = (0x01 :: u16)" "drop_bit 7 (ty OR 0x0110) AND 0x02 = (0x02 :: u16)"
  "drop_bit 4 (ty OR 0x0100) AND 0x01 = (drop_bit 4 ty AND 0x01 :: u16)"
  "drop_bit 7 (ty OR 0x0100) AND 0x02 = (0x02 :: u16)"
  by (simp_all add: bit.conj_disj_distrib2 bit.disj_conj_distrib2 drop_bit_or)

lemma response_method:
  "method_of (ty OR 0x0110) = method_of ty" "method_of (ty OR 0x0100) = method_of ty"
  unfolding method_of_def
  by (simp_all add: bit.conj_disj_distrib2 drop_bit_or)

lemma response_class:
  "class_of (ty OR 0x0110) = Some ErrorResponse"
  "class_of ty = Some Request \<Longrightarrow> class_of (ty OR 0x0100) = Some SuccessResponse"
proof -
  show "class_of (ty OR 0x0110) = Some ErrorResponse"
    unfolding class_of_def type_or_bits Let_def by simp
  assume "class_of ty = Some Request"
  then have "(drop_bit 4 ty AND 0x01) OR (drop_bit 7 ty AND 0x02) = 0"
    by (simp add: class_of_def Let_def split: if_splits)
  then have "drop_bit 4 ty AND 0x01 = 0" by (simp add: or_eq_0_iff)
  then show "class_of (ty OR 0x0100) = Some SuccessResponse"
    unfolding class_of_def type_or_bits Let_def by simp
qed

lemma const_class_method:
  "class_of 0x0101 = Some SuccessResponse" "method_of 0x0101 = Binding"
  "class_of 0x0103 = Some SuccessResponse" "method_of 0x0103 = Allocate"
  "class_of 0x0104 = Some SuccessResponse" "method_of 0x0104 = Refresh"
  "class_of 0x0017 = Some Indication" "method_of 0x0017 = Data"
  by (simp_all add: class_of_def method_of_def)

text \<open>Attributes the parser does not interpret.\<close>

lemma match_attr_skip:
  "match_attr 0x0009 v t off r = r" "match_attr 0x0016 v t off r = r" "match_attr 0x0020 v t off r = r"
  "\<not> stops_loop 0x0009 v" "\<not> stops_loop 0x0016 v" "\<not> stops_loop 0x0020 v"
  "\<not> stops_loop 0x000D v" "\<not> stops_loop 0x0012 v" "\<not> stops_loop 0x0013 v"
  "\<not> stops_loop 0x0014 v" "\<not> stops_loop 0x0015 v"
  by (simp_all add: match_attr_def stops_loop_def attr_consts)

lemma match_attr_known:
  "match_attr 0x000D (be32 l) t off r = r\<lparr>pa_lifetime := Some l\<rparr>"
  "match_attr 0x0013 v t off r = r\<lparr>pa_data := Some v\<rparr>"
  "length v \<le> 763 \<Longrightarrow> match_attr 0x0014 v t off r = r\<lparr>pa_realm := from_utf8 v\<rparr>"
  "length v \<le> 763 \<Longrightarrow> match_attr 0x0015 v t off r = r\<lparr>pa_nonce := from_utf8 v\<rparr>"
  "wf_sa a \<Longrightarrow> length t = 12 \<Longrightarrow> match_attr 0x0012 (xor_value a t) t off r =
    r\<lparr>pa_xor_peer_addresses := pa_xor_peer_addresses r @ [sa_new (sa_ip a) (sa_port a)]\<rparr>"
  using u32_be_be32 [of l]
  by (simp_all add: match_attr_def attr_consts MAX_REALM_LEN_def MAX_NONCE_LEN_def decode_xor_value
      be32_def)

text \<open>A signature at the end is found, at its offset, by the parser.\<close>

lemma fold_attrs_mi:
  assumes "\<forall>(ty, v) \<in> set as. \<not> stops_loop ty v" "length h = 20"
  shows "fold_attrs t off (as @ [(ATTR_MESSAGE_INTEGRITY, h)]) r =
    (fold_attrs t off as r)\<lparr>pa_message_integrity := Some h,
       pa_message_integrity_offset := Some (20 + off + length (enc_attrs as))\<rparr>"
  using assms
proof (induction as arbitrary: off r)
  case Nil
  then show ?case by (simp add: stops_loop_def match_attr_mi)
next
  case (Cons a as)
  then show ?case by (cases a) (simp add: Let_def length_enc_attr add.assoc)
qed

text \<open>
  The input of the integrity check: the message up to MESSAGE-INTEGRITY, with a length field that
  ends right after it.
\<close>

definition integrity_input :: "bytes \<Rightarrow> nat \<Rightarrow> bytes" where
  "integrity_input raw offset = put_len (offset - 20 + 24) (take offset raw)"

lemma integrity_input_signed:
  assumes "length txn = 12"
  shows "integrity_input (stun_msg ty txn (as @ [(ATTR_MESSAGE_INTEGRITY, h)])) (20 + length (enc_attrs as))
    = signed_part ty txn as"
proof -
  let ?n = "length (enc_attrs (as @ [(ATTR_MESSAGE_INTEGRITY, h)]))"
  have "take (20 + length (enc_attrs as)) (stun_msg ty txn (as @ [(ATTR_MESSAGE_INTEGRITY, h)]))
      = stun_header ty ?n txn @ enc_attrs as"
    using stun_header_nth(1) [OF assms, of ty ?n] by (simp add: stun_msg_def)
  moreover have "put_len k (stun_header ty n txn @ b) = stun_header ty k txn @ b" for k n b
    by (simp add: put_len_def stun_header_def be16_def Let_def)
  ultimately show ?thesis by (simp add: integrity_input_def signed_part_def)
qed

lemma signed_msg_verifies:
  assumes "length txn = 12" "digest_lengths c" "class_of ty = Some cls"
    and "\<forall>(ty, v) \<in> set as. \<not> stops_loop ty v \<and> length v < 65536"
    and "length (enc_attrs as) + 24 < 65536"
    and resp_def: "resp = stun_msg ty txn (sign_attrs c (Some key) ty txn as)"
  shows "\<exists>info off mi. parse_stun_info resp = Some info
    \<and> info = info_of ty cls txn (fold_attrs txn 0 as empty_attrs
        \<lparr>pa_message_integrity := Some mi, pa_message_integrity_offset := Some off\<rparr>) resp
    \<and> si_message_integrity_offset info = Some off \<and> si_message_integrity info = Some mi
    \<and> verify_message_integrity c (integrity_input resp off) mi key"
proof -
  let ?h = "hmac_sha1 c key (signed_part ty txn as)"
  let ?as = "as @ [(ATTR_MESSAGE_INTEGRITY, ?h)]"
  let ?r = "fold_attrs txn 0 as empty_attrs\<lparr>pa_message_integrity := Some ?h,
      pa_message_integrity_offset := Some (20 + length (enc_attrs as))\<rparr>"
  have h: "length ?h = 20" using assms(2) by (simp add: digest_lengths_def)
  have resp: "resp = stun_msg ty txn ?as" by (simp add: resp_def sign_attrs_def)
  have len: "length (enc_attrs ?as) < 65536"
    using assms(5) h by (simp add: length_enc_attr pad4_def)
  have fa: "fold_attrs txn 0 ?as empty_attrs = ?r"
    using fold_attrs_mi [OF _ h, of as txn 0 empty_attrs] assms(4) by (simp add: case_prod_unfold)
  have parse: "parse_stun_info resp = Some (info_of ty cls txn ?r resp)"
    using parse_stun_msg [OF assms(1) _ len assms(3)] assms(4) h
    unfolding resp fa by (simp add: case_prod_unfold)
  have "integrity_input resp (20 + length (enc_attrs as)) = signed_part ty txn as"
    unfolding resp by (rule integrity_input_signed [OF assms(1)])
  then have "verify_message_integrity c (integrity_input resp (20 + length (enc_attrs as))) ?h key"
    by (simp add: verify_message_integrity_eq [OF assms(2)] compute_message_integrity_def)
  then show ?thesis using parse by (auto simp: info_of_def)
qed

section \<open>Properties\<close>

lemma classify_stun_msg:
  "u16_be (d ! 0) (d ! 1) = ty \<Longrightarrow> unat ty < 1024 \<Longrightarrow> d \<noteq> [] \<Longrightarrow> classify d = parse_stun d"
proof -
  assume a: "u16_be (d ! 0) (d ! 1) = ty" "unat ty < 1024" "d \<noteq> []"
  then have "unat (d ! 0) * 256 + unat (d ! 1) < 1024" by (metis unat_u16_be)
  then have "unat (d ! 0) < 4" by linarith
  then have "d ! 0 \<le> 3" by (simp add: word_le_nat_alt)
  then show ?thesis using a(3) by (cases d) (simp_all add: classify_def)
qed

lemma stun_msg_type: "length txn = 12 \<Longrightarrow> u16_be (stun_msg ty txn as ! 0) (stun_msg ty txn as ! 1) = ty"
  unfolding stun_msg_def by (rule stun_header_nth(2))

lemma stun_msg_nonempty: "stun_msg ty txn as \<noteq> []"
  by (simp add: stun_msg_def stun_header_def be16_def)

text \<open>
  C33. Relayed data survives the wire: the three data-indication builders write the same bytes,
  and those bytes are classified as a STUN Data indication that carries exactly the peer address
  and the payload.
\<close>

theorem data_indication_round_trip:
  assumes "length txn = 12" "wf_sa peer" "length data \<le> 65500"
  shows "build_data_indication txn peer data = engine_data_indication txn peer data
    \<and> server_data_indication txn peer data = engine_data_indication txn peer data
    \<and> (\<exists>info. classify (build_data_indication txn peer data) = Stun info
        \<and> si_class info = Indication \<and> si_method info = Data \<and> si_transaction_id info = txn
        \<and> si_xor_peer_addresses info = [sa_new (sa_ip peer) (sa_port peer)]
        \<and> si_data info = Some data)"
proof -
  note msgs = indication_msgs [OF assms(1), of peer data]
  let ?as = "[(0x0012, xor_value peer txn), (0x0013, data)]"
  let ?m = "stun_msg 0x0017 txn ?as"
  have x: "length (xor_value peer txn) \<le> 20" by (simp add: length_xor_value split: socket_addr.split)
  have "length (enc_attrs ?as) < 65536"
    using x assms(3) pad4_bounds(2) [of "length (xor_value peer txn)"] pad4_bounds(2) [of "length data"]
    by (simp add: length_enc_attr)
  then have "parse_stun_info ?m = Some (info_of 0x0017 Indication txn (fold_attrs txn 0 ?as empty_attrs) ?m)"
    using x assms by (intro parse_stun_msg) (auto simp: const_class_method)
  moreover have "classify ?m = parse_stun ?m"
    by (rule classify_stun_msg [OF stun_msg_type [OF assms(1)]]) (simp_all add: stun_msg_nonempty)
  ultimately show ?thesis
    unfolding msgs using assms(1,2)
    by (simp add: parse_stun_def info_of_def const_class_method Let_def match_attr_skip
        match_attr_known empty_attrs_def)
qed

theorem data_indication_round_trip_witness:
  "\<exists>info. classify (build_data_indication (replicate 12 9) (SockV4 10 1 2 3 4000) [1, 2, 3, 4, 5]) = Stun info
    \<and> si_xor_peer_addresses info = [SockV4 10 1 2 3 4000] \<and> si_data info = Some [1, 2, 3, 4, 5]"
proof -
  have "length (replicate 12 9 :: bytes) = 12" "wf_sa (SockV4 10 1 2 3 4000)"
    "length [1, 2, 3, 4, 5 :: u8] \<le> 65500" by (simp_all add: wf_sa_def)
  from data_indication_round_trip [OF this]
  have "\<exists>info. classify (build_data_indication (replicate 12 9) (SockV4 10 1 2 3 4000) [1, 2, 3, 4, 5]) = Stun info
      \<and> si_xor_peer_addresses info = [sa_new (sa_ip (SockV4 10 1 2 3 4000)) (sa_port (SockV4 10 1 2 3 4000))]
      \<and> si_data info = Some [1, 2, 3, 4, 5]"
    by blast
  then show ?thesis by simp
qed

text \<open>
  C34. A ChannelData frame for a valid channel is classified back to that channel and payload, and
  its length is a multiple of four.
\<close>

theorem channel_data_round_trip:
  assumes "channel_in_range chan" "length data < 65536"
  shows "classify (build_channel_data chan data) = TurnChannelData chan data
    \<and> length (build_channel_data chan data) mod 4 = 0"
proof -
  let ?d = "build_channel_data chan data"
  have d: "?d = be16 chan @ be16 (word_of_nat (length data)) @ data
      @ replicate (pad4 (length data) - length data) 0"
    using pad_mod_eq [of 4 "length data"] by (simp add: build_channel_data_def)
  have nth: "u16_be (?d ! 0) (?d ! 1) = chan" "u16_be (?d ! 2) (?d ! 3) = word_of_nat (length data)"
    using u16_be_be16 [of chan] u16_be_be16 [of "word_of_nat (length data)"]
    by (simp_all add: d nth_append)
  have len: "length ?d = 4 + pad4 (length data)" using pad4_bounds(1) [of "length data"] by (simp add: d)
  have "take (length data) (drop 4 ?d) = data" by (simp add: d)
  then have "parse_channel_data ?d = TurnChannelData chan data"
    using assms(2) len pad4_bounds(1) [of "length data"]
    unfolding parse_channel_data_def Let_def nth by simp
  moreover have "64 \<le> ?d ! 0 \<and> ?d ! 0 \<le> 127"
    using assms(1) nth(1) channel_first_byte by metis
  then have "classify ?d = parse_channel_data ?d"
    using len by (cases ?d) (auto simp: classify_def word_le_nat_alt)
  ultimately show ?thesis using len pad4_mod [of "length data"] by simp
qed

theorem channel_data_round_trip_witness:
  "classify (build_channel_data 0x4001 [1, 2, 3]) = TurnChannelData 0x4001 [1, 2, 3]"
  using channel_data_round_trip [of "0x4001" "[1, 2, 3]"] by (simp add: channel_in_range_def)

lemma length_enc_attrs_le: "\<forall>(ty, v) \<in> set bs. length v \<le> 100 \<Longrightarrow> length (enc_attrs bs) \<le> 108 * length bs"
proof (induction bs)
  case (Cons b bs)
  obtain ty v where b: "b = (ty, v)" by fastforce
  have "pad4 (length v) < 104" using Cons.prems pad4_bounds(2) [of "length v"] b by simp
  then show ?case using Cons b by (simp add: length_enc_attr)
qed simp

lemma small_attrs:
  "length as \<le> 3 \<Longrightarrow> \<forall>(ty, v) \<in> set as. length v \<le> 100 \<Longrightarrow> length (enc_attrs as) + 24 < 65536"
  using length_enc_attrs_le [of as] by linarith

text \<open>
  C30. Every signed response verifies under the key it was signed with, by the same computation
  the server applies to requests, and answers the request: same transaction, same method, success
  or error class as built, with the granted lifetime in Allocate and Refresh responses.
\<close>

theorem signed_responses_verify:
  assumes "length (si_transaction_id q) = 12" "digest_lengths c"
    and "class_of (request_type q) = Some Request"
    and "(resp, cls, meth, life) \<in>
      {(build_allocate_response c cfg q client l (Some key), SuccessResponse, Allocate, Some l),
       (build_refresh_response c q l (Some key), SuccessResponse, Refresh, Some l),
       (build_success_response c q (Some key), SuccessResponse, method_of (request_type q), None),
       (build_signed_error_response c q e (Some key), ErrorResponse, method_of (request_type q), None)}"
  shows "\<exists>info off mi. parse_stun_info resp = Some info
    \<and> si_class info = cls \<and> si_method info = meth \<and> si_lifetime info = life
    \<and> si_transaction_id info = si_transaction_id q
    \<and> si_message_integrity_offset info = Some off \<and> si_message_integrity info = Some mi
    \<and> verify_message_integrity c (integrity_input resp off) mi key"
proof -
  let ?t = "si_transaction_id q"
  note msgs = builder_msgs [OF assms(1,2)]
  note ver = signed_msg_verifies [OF assms(1,2)]
  have x: "length (xor_value a ?t) \<le> 20" for a by (simp add: length_xor_value split: socket_addr.split)
  have r: "length (reason e) \<le> 30" by (rule reason_length)
  note small = small_attrs
  note facts = const_class_method match_attr_skip match_attr_known response_class response_method
  consider (alloc) "resp = build_allocate_response c cfg q client l (Some key)" "cls = SuccessResponse"
      "meth = Allocate" "life = Some l"
    | (refresh) "resp = build_refresh_response c q l (Some key)" "cls = SuccessResponse"
      "meth = Refresh" "life = Some l"
    | (succ) "resp = build_success_response c q (Some key)" "cls = SuccessResponse"
      "meth = method_of (request_type q)" "life = None"
    | (err) "resp = build_signed_error_response c q e (Some key)" "cls = ErrorResponse"
      "meth = method_of (request_type q)" "life = None"
    using assms(4) by auto
  then show ?thesis
  proof cases
    case alloc
    let ?as = "[(0x0016, xor_value (sa_new (cfg_external_ip cfg) (cfg_port cfg)) ?t),
         (0x0020, xor_value client ?t), (0x000D, be32 l)]"
    have "\<forall>(ty, v) \<in> set ?as. \<not> stops_loop ty v \<and> length v \<le> 100"
      using x [of client] x [of "sa_new (cfg_external_ip cfg) (cfg_port cfg)"]
      by (simp add: match_attr_skip order_trans)
    then show ?thesis
      using ver [OF const_class_method(3), of ?as resp key] small [of ?as] alloc(1) msgs(2)
      by (fastforce simp: alloc info_of_def facts empty_attrs_def Let_def)
  next
    case refresh
    let ?as = "[(0x000D, be32 l)]"
    show ?thesis
      using ver [OF const_class_method(5), of ?as resp key] small [of ?as] refresh(1) msgs(3)
      by (fastforce simp: refresh info_of_def facts empty_attrs_def Let_def)
  next
    case succ
    show ?thesis
      using ver [OF response_class(2) [OF assms(3)], of "[]" resp key] succ(1) msgs(4)
      by (fastforce simp: succ info_of_def facts empty_attrs_def)
  next
    case err
    let ?as = "[(0x0009, [0, 0, word_of_nat (error_number e div 100), word_of_nat (error_number e mod 100)] @ reason e)]"
    show ?thesis
      using ver [OF response_class(1), of ?as resp _ key] small [of ?as] r err(1) msgs(5)
      by (fastforce simp: err info_of_def facts empty_attrs_def Let_def)
  qed
qed

definition demo_request :: stun_info where
  "demo_request = info_of 0x0003 Request (replicate 12 1) empty_attrs (stun_msg 0x0003 (replicate 12 1) [])"

theorem signed_responses_verify_witness:
  "\<exists>info off mi. parse_stun_info (build_refresh_response demo_crypto demo_request 60 (Some [5])) = Some info
    \<and> si_lifetime info = Some 60
    \<and> verify_message_integrity demo_crypto
        (integrity_input (build_refresh_response demo_crypto demo_request 60 (Some [5])) off) mi [5]"
proof -
  have t: "length (si_transaction_id demo_request) = 12" by (simp add: demo_request_def info_of_def)
  have "request_type demo_request = 0x0003"
    using stun_msg_type [of "replicate 12 1" "0x0003" "[]"]
    by (simp add: request_type_def demo_request_def info_of_def)
  then have "class_of (request_type demo_request) = Some Request" by (simp add: class_of_def)
  from signed_responses_verify [OF t demo_digest_lengths this,
      of "build_refresh_response demo_crypto demo_request 60 (Some [5])" SuccessResponse Refresh
         "Some 60" undefined undefined 60 "[5]" BadRequest]
  show ?thesis by blast
qed

text \<open>
  C31. A 401 or 438 challenge can be answered: it parses as an error for the request's transaction
  and method, carries the server's realm, and the nonce in it is accepted by \<open>validate_nonce\<close>
  until the configured lifetime has passed.
\<close>

theorem challenge_round_trip:
  assumes "length (si_transaction_id q) = 12" "digest_lengths c" "unix < 2 ^ 64"
    and "utf8_valid (cfg_realm cfg)" "length (cfg_realm cfg) \<le> 763"
    and "resp \<in> {build_unauthorized_response c cfg unix q, build_stale_nonce_response c cfg unix q}"
  shows "\<exists>info nonce. parse_stun_info resp = Some info
    \<and> si_class info = ErrorResponse \<and> si_method info = method_of (request_type q)
    \<and> si_transaction_id info = si_transaction_id q
    \<and> si_realm info = Some (cfg_realm cfg) \<and> si_nonce info = Some nonce
    \<and> (\<forall>later. validate_nonce c later nonce (cfg_nonce_lifetime_secs cfg) (cfg_nonce_secret cfg)
        \<longleftrightarrow> unix \<le> later \<and> later - unix < cfg_nonce_lifetime_secs cfg)"
proof -
  let ?t = "si_transaction_id q" and ?n = "generate_nonce c unix (cfg_nonce_secret cfg)"
  let ?ty = "request_type q OR 0x0110"
  obtain phrase where resp: "resp = stun_msg ?ty ?t
      [(0x0009, phrase), (0x0014, cfg_realm cfg), (0x0015, ?n)]" and p: "length phrase \<le> 20"
    using assms(6) builder_msgs(6,7) [OF assms(1,2)] by (auto simp: str_def)
  let ?as = "[(0x0009, phrase), (0x0014, cfg_realm cfg), (0x0015, ?n)]"
  note n = generate_nonce_ascii [of c unix "cfg_nonce_secret cfg"]
  have "length (enc_attrs ?as) < 65536"
    using p n(2) assms(5) pad4_bounds(2) [of "length phrase"] pad4_bounds(2) [of "length (cfg_realm cfg)"]
      pad4_bounds(2) [of "length ?n"]
    by (simp add: length_enc_attr)
  then have "parse_stun_info resp = Some (info_of ?ty ErrorResponse ?t (fold_attrs ?t 0 ?as empty_attrs) resp)"
    unfolding resp using p n assms(1,5) by (intro parse_stun_msg) (auto simp: response_class)
  then show ?thesis
    using n assms(4,5) issued_nonce_valid [OF assms(3)]
    by (simp add: info_of_def response_method match_attr_skip match_attr_known Let_def from_utf8_def
        empty_attrs_def)
qed

theorem challenge_round_trip_witness:
  "\<exists>info nonce. parse_stun_info (build_unauthorized_response demo_crypto demo_config 1000 demo_request) = Some info
    \<and> si_nonce info = Some nonce
    \<and> validate_nonce demo_crypto 1500 nonce (cfg_nonce_lifetime_secs demo_config) (cfg_nonce_secret demo_config)"
proof -
  have t: "length (si_transaction_id demo_request) = 12" by (simp add: demo_request_def info_of_def)
  have realm: "cfg_realm demo_config = str ''uturn''" "cfg_nonce_lifetime_secs demo_config = 3600"
    by (simp_all add: demo_config_def config_new_def with_credential_def with_auth_secret_def)
  have "utf8_valid (cfg_realm demo_config)" "length (cfg_realm demo_config) \<le> 763"
    unfolding realm by (simp_all add: str_def)
  moreover have "1000 < (2 :: nat) ^ 64" by simp
  ultimately obtain info nonce where
    "parse_stun_info (build_unauthorized_response demo_crypto demo_config 1000 demo_request) = Some info"
    "si_nonce info = Some nonce"
    "\<forall>later. validate_nonce demo_crypto later nonce (cfg_nonce_lifetime_secs demo_config)
        (cfg_nonce_secret demo_config)
      \<longleftrightarrow> 1000 \<le> later \<and> later - 1000 < cfg_nonce_lifetime_secs demo_config"
    using challenge_round_trip [OF t demo_digest_lengths _ _ _ insertI1] by blast
  then show ?thesis using realm(2) by auto
qed

end
