(* ===== verification/World.thy ===== *)
theory World
  imports Alloc_Table Rate_Limit Responses
begin

text \<open>
  What the request handlers, the relay engine and the server loop share. An \<open>env\<close> fixes, for the
  handling of one datagram, everything that comes from outside: configuration, cryptography, one
  reading of each clock, the random transaction ids and, for every attempt, whether the socket
  accepts a datagram. A \<open>world\<close> is the state they change: the allocation table, the rate limiter,
  the datagrams sent so far and two counters that index the attempts and the random draws. A
  handler returns the result of its Rust counterpart: \<open>Inl SendFailed\<close> when a \<open>send_to\<close> under the
  \<open>?\<close> operator fails, which skips the rest of the handler.
\<close>

section \<open>Definitions\<close>

record env =
  en_cfg :: config
  en_crypto :: crypto
  en_now :: u64
  en_instant :: instant
  en_unix :: u64
  en_rand :: "nat \<Rightarrow> bytes"
  en_send_ok :: "nat \<Rightarrow> bool"

record world =
  w_table :: alloc_table
  w_limiter :: rate_limiter
  w_sent :: "(bytes \<times> socket_addr) list"
  w_sends :: nat
  w_rands :: nat

datatype io_error = SendFailed

type_synonym result = "(io_error + unit) \<times> world"

definition ok :: "world \<Rightarrow> result" where
  "ok w = (Inr (), w)"

text \<open>\<open>socket.send_to(pkt, dst).await?\<close> followed by the rest of the function.\<close>

definition attempt :: "env \<Rightarrow> bytes \<Rightarrow> socket_addr \<Rightarrow> world \<Rightarrow> world" where
  "attempt e pkt dst w =
    w\<lparr>w_sends := w_sends w + 1,
      w_sent := (if en_send_ok e (w_sends w) then w_sent w @ [(pkt, dst)] else w_sent w)\<rparr>"

definition send_then :: "env \<Rightarrow> bytes \<Rightarrow> socket_addr \<Rightarrow> (world \<Rightarrow> result) \<Rightarrow> world \<Rightarrow> result" where
  "send_then e pkt dst k w =
    (let w' = attempt e pkt dst w
     in if en_send_ok e (w_sends w) then k w' else (Inl SendFailed, w'))"

definition reply :: "env \<Rightarrow> bytes \<Rightarrow> socket_addr \<Rightarrow> world \<Rightarrow> result" where
  "reply e pkt dst w = send_then e pkt dst ok w"

text \<open>\<open>for target in targets { socket.send_to(pkt, target).await? }\<close>.\<close>

fun send_each :: "env \<Rightarrow> bytes \<Rightarrow> socket_addr list \<Rightarrow> (world \<Rightarrow> result) \<Rightarrow> world \<Rightarrow> result" where
  "send_each e pkt [] k w = k w"
| "send_each e pkt (d # ds) k w = send_then e pkt d (send_each e pkt ds k) w"

text \<open>A draw of \<open>rand::random\<close> for a transaction id.\<close>

definition draw :: "env \<Rightarrow> world \<Rightarrow> bytes \<times> world" where
  "draw e w = (en_rand e (w_rands w), w\<lparr>w_rands := w_rands w + 1\<rparr>)"

definition upd_table :: "(alloc_table \<Rightarrow> alloc_table) \<Rightarrow> world \<Rightarrow> world" where
  "upd_table f w = w\<lparr>w_table := f (w_table w)\<rparr>"

definition upd_limiter :: "(rate_limiter \<Rightarrow> rate_limiter) \<Rightarrow> world \<Rightarrow> world" where
  "upd_limiter f w = w\<lparr>w_limiter := f (w_limiter w)\<rparr>"

text \<open>\<open>if let Some(a) = allocations.get_by_client(addr) { a.f() }\<close>.\<close>

definition with_client :: "socket_addr \<Rightarrow> (allocation \<Rightarrow> allocation) \<Rightarrow> alloc_table \<Rightarrow> alloc_table" where
  "with_client addr f t =
    (case dm_get (by_client t) addr of Some i \<Rightarrow> with_alloc i f t | None \<Rightarrow> t)"

definition ext_ip :: "env \<Rightarrow> ip_addr" where
  "ext_ip e = cfg_external_ip (en_cfg e)"

definition relay_addr :: "env \<Rightarrow> socket_addr" where
  "relay_addr e = sa_new (cfg_external_ip (en_cfg e)) (cfg_port (en_cfg e))"

definition is_forbidden_peer_addr :: "config \<Rightarrow> socket_addr \<Rightarrow> bool" where
  "is_forbidden_peer_addr cfg addr \<longleftrightarrow>
    is_forbidden_peer_ip (sa_ip addr)
    \<or> (sa_ip addr = cfg_external_ip cfg \<and> sa_port addr \<noteq> cfg_port cfg)"

section \<open>Lemmas\<close>

lemma attempt_frame [simp]:
  "w_table (attempt e p d w) = w_table w" "w_limiter (attempt e p d w) = w_limiter w"
  "w_rands (attempt e p d w) = w_rands w"
  by (simp_all add: attempt_def)

lemma upd_frame [simp]:
  "w_table (upd_table f w) = f (w_table w)" "w_limiter (upd_table f w) = w_limiter w"
  "w_sent (upd_table f w) = w_sent w"
  "w_table (upd_limiter g w) = w_table w" "w_limiter (upd_limiter g w) = g (w_limiter w)"
  "w_sent (upd_limiter g w) = w_sent w"
  by (simp_all add: upd_table_def upd_limiter_def)

lemma draw_frame [simp]:
  "w_table (snd (draw e w)) = w_table w" "w_limiter (snd (draw e w)) = w_limiter w"
  "w_sent (snd (draw e w)) = w_sent w" "w_sends (snd (draw e w)) = w_sends w"
  "fst (draw e w) = en_rand e (w_rands w)"
  by (simp_all add: draw_def)

lemma ok_simps [simp]: "snd (ok w) = w" "fst (ok w) = Inr ()"
  by (simp_all add: ok_def)

lemma send_then_split:
  "P (send_then e p d k w) \<longleftrightarrow>
    (en_send_ok e (w_sends w) \<longrightarrow> P (k (attempt e p d w)))
    \<and> (\<not> en_send_ok e (w_sends w) \<longrightarrow> P (Inl SendFailed, attempt e p d w))"
  by (simp add: send_then_def Let_def)

lemma reply_frame [simp]:
  "w_table (snd (reply e p d w)) = w_table w" "w_limiter (snd (reply e p d w)) = w_limiter w"
  by (simp_all add: reply_def send_then_def Let_def)

lemma reply_world [simp]: "snd (reply e p d w) = attempt e p d w"
  by (simp add: reply_def send_then_def Let_def)

lemma with_client_frame [simp]:
  "by_client (with_client addr f t) = by_client t"
  "by_permission (with_client addr f t) = by_permission t"
  "by_peer_tuple (with_client addr f t) = by_peer_tuple t"
  "by_ice_ufrag (with_client addr f t) = by_ice_ufrag t"
  "id_counter (with_client addr f t) = id_counter t"
  by (simp_all add: with_client_def split: option.splits)

lemma with_client_inv: "table_inv t \<Longrightarrow> neutral f \<Longrightarrow> table_inv (with_client addr f t)"
  by (simp add: with_client_def with_alloc_inv split: option.splits)

lemma with_alloc_by_client:
  "get_by_client (with_alloc i f t) c =
    (if dm_get (by_client t) c = Some i then map_option f (get_by_client t c) else get_by_client t c)"
  by (auto simp: get_by_client_def split: option.splits)

lemma with_client_by_client:
  assumes "table_inv t"
  shows "get_by_client (with_client addr f t) c =
    (if c = addr then map_option f (get_by_client t c) else get_by_client t c)"
proof (cases "dm_get (by_client t) addr")
  case None
  then show ?thesis by (auto simp: with_client_def get_by_client_def)
next
  case (Some i)
  have "dm_get (by_client t) c = Some i \<longleftrightarrow> c = addr"
    using Some table_inv_client [OF assms] by auto
  then show ?thesis using Some by (simp add: with_client_def with_alloc_by_client)
qed

section \<open>Invariants of table and limiter\<close>

text \<open>
  Whatever the handlers, the engine and the cleanup task do to the shared state goes through the
  operations below: those of the packet task first, then those of the cleanup task. A predicate that
  each of them keeps is an invariant of the whole server; the handlers are shown to keep any such
  predicate once, here and in the theories of the callers.
\<close>

text \<open>An update is light when it is neutral and touches no lease.\<close>

definition light :: "(allocation \<Rightarrow> allocation) \<Rightarrow> bool" where
  "light f \<longleftrightarrow> neutral f \<and> (\<forall>a. permissions (f a) = permissions a \<and> channels (f a) = channels a)"

lemma light_neutral: "light f \<Longrightarrow> neutral f"
  by (simp add: light_def)

lemma light_updates:
  "light (touch now)" "light (touch_received now)" "light (touch_relay_success now)"
  "light (touch_relay_attempt now)" "light (alloc_refresh now l)"
  by (simp_all add: light_def neutral_updates)
    (simp_all add: touch_def touch_received_def touch_relay_success_def touch_relay_attempt_def
      alloc_refresh_def Let_def)

lemma light_compose: "light f \<Longrightarrow> light g \<Longrightarrow> light (\<lambda>a. f (g a))"
  by (simp add: light_def neutral_def)

text \<open>
  The operations of the handlers that grant no lease, except the permission for a relay address
  (\<open>relay\<close>) that a connectivity check installs.
\<close>

locale lease_state =
  fixes P :: "alloc_table \<Rightarrow> rate_limiter \<Rightarrow> bool" and relay :: "ip_addr \<Rightarrow> bool"
  assumes keep_table: "P t rl \<Longrightarrow> table_inv t"
    and keep_light: "P t rl \<Longrightarrow> light f \<Longrightarrow> P (with_alloc i f t) rl"
    and keep_register: "P t rl \<Longrightarrow> P (snd (register_ice_ufrags i l r t)) rl"
    and keep_relay: "P t rl \<Longrightarrow> dm_get (allocations t) i \<noteq> None \<Longrightarrow> relay ip \<Longrightarrow>
      P (table_add_permission now i ip t) rl"
    and keep_tuple: "P t rl \<Longrightarrow> dm_get (allocations t) i \<noteq> None \<Longrightarrow> P (register_peer_tuple now i p t) rl"
    and keep_remove: "P t rl \<Longrightarrow> dm_get (allocations t) i = Some a \<Longrightarrow>
      P (snd (table_remove i t)) (record_deallocation rl (sa_ip (client_addr a)))"
    and keep_refuse: "P t rl \<Longrightarrow> get_by_client t c = None \<Longrightarrow>
      check_allocation_request ins rl (sa_ip c) = (Inl err, rl') \<Longrightarrow> P t rl'"
begin

definition holds :: "world \<Rightarrow> bool" where
  "holds w \<longleftrightarrow> P (w_table w) (w_limiter w)"

lemma holds_frame [simp]:
  "holds (attempt e p d w) = holds w" "holds (snd (draw e w)) = holds w"
  by (simp_all add: holds_def)

lemma holds_update: "holds w \<Longrightarrow> light f \<Longrightarrow> holds (upd_table (with_alloc i f) w)"
  by (simp add: holds_def keep_light)

lemma holds_client: "holds w \<Longrightarrow> light f \<Longrightarrow> holds (upd_table (with_client c f) w)"
  by (simp add: holds_def with_client_def keep_light split: option.splits)

lemma holds_send_then:
  "holds w \<Longrightarrow> (\<And>w. holds w \<Longrightarrow> holds (snd (k w))) \<Longrightarrow> holds (snd (send_then e p d k w))"
  by (simp add: send_then_def Let_def)

lemma holds_send_each:
  "holds w \<Longrightarrow> (\<And>w. holds w \<Longrightarrow> holds (snd (k w))) \<Longrightarrow> holds (snd (send_each e p ds k w))"
  by (induction ds arbitrary: w) (simp_all add: holds_send_then)

end

text \<open>An invariant that the creation of an allocation keeps as well, once the limiter admits it.\<close>

locale lease_invariant = lease_state +
  assumes keep_create: "P t rl \<Longrightarrow> id_counter t + 1 < 2 ^ 64 \<Longrightarrow> get_by_client t c = None \<Longrightarrow>
      check_allocation_request ins rl (sa_ip c) = (Inr (), rl') \<Longrightarrow>
      P (snd (create_or_get now c u life x t)) rl'"

text \<open>The same for the operations of the cleanup task.\<close>

locale lease_sweeps = lease_state +
  assumes keep_sweep_channels: "P t rl \<Longrightarrow> P (cleanup_channel_bindings now t) rl"
    and keep_sweep_permissions: "P t rl \<Longrightarrow> P (cleanup_permissions now t) rl"
    and keep_retain: "P t rl \<Longrightarrow> P (snd (retain_unless Q t)) (foldl record_deallocation rl (fst (retain_unless Q t)))"
    and keep_limiter: "P t rl \<Longrightarrow> P t (limiter_cleanup ins rl)"

locale lease_relay = lease_sweeps + lease_invariant

text \<open>The operations that grant leases too, whatever the cap: those of every handler.\<close>

locale packet_state =
  fixes P :: "alloc_table \<Rightarrow> rate_limiter \<Rightarrow> bool"
  assumes inv_table: "P t rl \<Longrightarrow> table_inv t"
    and inv_update: "P t rl \<Longrightarrow> neutral f \<Longrightarrow> P (with_alloc i f t) rl"
    and inv_register: "P t rl \<Longrightarrow> P (snd (register_ice_ufrags i l r t)) rl"
    and inv_permission: "P t rl \<Longrightarrow> dm_get (allocations t) i \<noteq> None \<Longrightarrow>
      P (table_add_permission now i ip t) rl"
    and inv_try_add: "P t rl \<Longrightarrow> P (snd (try_add_permissions_capped now i ips cap t)) rl"
    and inv_tuple: "P t rl \<Longrightarrow> dm_get (allocations t) i \<noteq> None \<Longrightarrow> P (register_peer_tuple now i p t) rl"
    and inv_remove: "P t rl \<Longrightarrow> dm_get (allocations t) i = Some a \<Longrightarrow>
      P (snd (table_remove i t)) (record_deallocation rl (sa_ip (client_addr a)))"
    and inv_refuse: "P t rl \<Longrightarrow> get_by_client t c = None \<Longrightarrow>
      check_allocation_request ins rl (sa_ip c) = (Inl err, rl') \<Longrightarrow> P t rl'"

sublocale packet_state \<subseteq> lease_state P "\<lambda>_. True"
  by unfold_locales
    (simp_all add: inv_table inv_update light_neutral inv_register inv_permission inv_tuple inv_remove inv_refuse)

context packet_state
begin

lemma holds_neutral: "holds w \<Longrightarrow> neutral f \<Longrightarrow> holds (upd_table (with_alloc i f) w)"
  by (simp add: holds_def inv_update)

end

locale packet_invariant = packet_state +
  assumes inv_create: "P t rl \<Longrightarrow> id_counter t + 1 < 2 ^ 64 \<Longrightarrow> get_by_client t c = None \<Longrightarrow>
      check_allocation_request ins rl (sa_ip c) = (Inr (), rl') \<Longrightarrow>
      P (snd (create_or_get now c u life x t)) rl'"

sublocale packet_invariant \<subseteq> lease_invariant P "\<lambda>_. True"
  by unfold_locales (rule inv_create)

text \<open>And those of the cleanup task beside them.\<close>

locale relay_state = packet_state +
  assumes inv_sweep_channels: "P t rl \<Longrightarrow> P (cleanup_channel_bindings now t) rl"
    and inv_sweep_permissions: "P t rl \<Longrightarrow> P (cleanup_permissions now t) rl"
    and inv_retain: "P t rl \<Longrightarrow> P (snd (retain_unless Q t)) (foldl record_deallocation rl (fst (retain_unless Q t)))"
    and inv_limiter: "P t rl \<Longrightarrow> P t (limiter_cleanup ins rl)"

sublocale relay_state \<subseteq> lease_sweeps P "\<lambda>_. True"
  by unfold_locales (rule inv_sweep_channels inv_sweep_permissions inv_retain inv_limiter, assumption)+

locale relay_invariant = relay_state + packet_invariant

lemma reserve_create_count:
  assumes "table_inv t" "get_by_client t c = None"
  shows "ip_allocs (snd (create_or_get now c u l x t)) = (ip_allocs t)(sa_ip c := Suc (ip_allocs t (sa_ip c)))"
proof -
  have "dm_get (by_client t) c = None"
    using assms is_client_iff [of t c] by (simp add: is_client_def)
  then have "snd (fst (create_or_get now c u l x t))"
    by (simp add: create_or_get_def Let_def)
  then show ?thesis using ip_allocs_create [OF assms(1), of now c u l x] by (auto simp: fun_eq_iff)
qed

lemma ip_allocs_frames:
  assumes "table_inv t"
  shows "neutral f \<Longrightarrow> ip_allocs (with_alloc i f t) = ip_allocs t"
    and "ip_allocs (snd (register_ice_ufrags i l r t)) = ip_allocs t"
    and "ip_allocs (table_add_permission now i ip t) = ip_allocs t"
    and "ip_allocs (snd (try_add_permissions_capped now i ips cap t)) = ip_allocs t"
    and "ip_allocs (register_peer_tuple now i p t) = ip_allocs t"
    and "ip_allocs (cleanup_channel_bindings now t) = ip_allocs t"
    and "ip_allocs (cleanup_permissions now t) = ip_allocs t"
proof -
  have wf: "dm_wf (allocations t)" using assms by (simp add: table_inv_def table_wf_def)
  have same: "ip_allocs t' = ip_allocs t"
    if "dm_wf (allocations t')"
      "\<And>j. map_option client_addr (dm_get (allocations t') j) = map_option client_addr (dm_get (allocations t) j)" for t'
    using ip_allocs_same_clients [OF assms that] by (simp add: fun_eq_iff)
  have clients: "ip_allocs (with_alloc i g t) = ip_allocs t" if "\<And>a. client_addr (g a) = client_addr a" for g
    by (rule same) (simp_all add: wf that map_option.compositionality o_def)
  have cong: "allocations t' = allocations t'' \<Longrightarrow> ip_allocs t' = ip_allocs t''" for t' t''
    by (simp add: ip_allocs_def fun_eq_iff)
  show "neutral f \<Longrightarrow> ip_allocs (with_alloc i f t) = ip_allocs t"
    by (rule clients) (simp add: neutral_def)
  show "ip_allocs (snd (register_ice_ufrags i l r t)) = ip_allocs t"
    using assms
  proof (cases rule: register_ice_ufrags_cases [of t i l r])
    case (installed a t')
    then show ?thesis using clients [of "set_ufrags l r"] cong [of t' "with_alloc i (set_ufrags l r) t"] by simp
  qed simp
  show "ip_allocs (table_add_permission now i ip t) = ip_allocs t"
    using clients [of "alloc_add_permission now ip"]
      cong [of "table_add_permission now i ip t" "with_alloc i (alloc_add_permission now ip) t"]
    by (simp add: table_add_permission_def alloc_add_permission_def)
  show "ip_allocs (snd (try_add_permissions_capped now i ips cap t)) = ip_allocs t"
    using clients [of "fold (alloc_add_permission now) ips"] fold_add_permission(3)
      cong [of "fold (index_permission i) ips (with_alloc i (fold (alloc_add_permission now) ips) t)"
        "with_alloc i (fold (alloc_add_permission now) ips) t"]
    by (simp add: try_add_permissions_capped_def Let_def fold_index split: option.splits)
  show "ip_allocs (register_peer_tuple now i p t) = ip_allocs t"
  proof (rule same)
    fix j
    show "map_option client_addr (dm_get (allocations (register_peer_tuple now i p t)) j)
        = map_option client_addr (dm_get (allocations t) j)"
      by (auto simp: register_peer_tuple_def map_option.compositionality o_def
          intro!: map_option_cong split: option.splits)
  qed (simp add: register_peer_tuple_def wf)
  show "ip_allocs (cleanup_channel_bindings now t) = ip_allocs t"
  proof (rule same)
    have "neutral (cleanup_expired_channels now)" by (rule neutral_updates)
    then show "map_option client_addr (dm_get (allocations (cleanup_channel_bindings now t)) j)
        = map_option client_addr (dm_get (allocations t) j)" for j
      by (simp add: cleanup_channel_bindings_get map_option.compositionality o_def neutral_def)
  qed (simp add: cleanup_channel_bindings_def dm_wf_map wf)
  show "ip_allocs (cleanup_permissions now t) = ip_allocs t"
  proof (rule same)
    show "dm_wf (allocations (cleanup_permissions now t))"
      using cleanup_permissions_table(1) [OF assms] by (simp add: table_inv_def table_wf_def)
  qed (simp add: cleanup_permissions_table(2) [OF assms] map_option.compositionality o_def)
qed

interpretation consistency: relay_invariant "\<lambda>t rl. table_inv t"
proof unfold_locales
  fix t :: alloc_table
  assume inv: "table_inv t"
  show "table_inv (table_add_permission now i ip t)" "table_inv (register_peer_tuple now i p t)"
    if "dm_get (allocations t) i \<noteq> None" for now i ip p
    using that table_add_permission_inv [OF inv] register_peer_tuple_inv [OF inv] by auto
  show "table_inv (snd (retain_unless Q t))" for Q
    unfolding retain_is_reap by (rule reap_inv [OF inv])
qed (simp_all add: with_alloc_inv register_ice_ufrags_inv try_add_permissions_inv remove_inv
      create_or_get_inv cleanup_channel_bindings_inv cleanup_permissions_table)

text \<open>
  With a quota configured, the limiter's count of an address is at all times the number of
  allocations that address holds.
\<close>

definition quota_exact :: "nat \<Rightarrow> alloc_table \<Rightarrow> rate_limiter \<Rightarrow> bool" where
  "quota_exact m t rl \<longleftrightarrow>
    table_inv t \<and> lim.accounts rl (ip_allocs t) \<and> max_allocations_per_ip rl = m"

interpretation quota: relay_invariant "quota_exact m" for m
proof unfold_locales
  fix t :: alloc_table and rl rl' :: rate_limiter
  assume q: "quota_exact m t rl"
  then have inv: "table_inv t" and acc: "lim.accounts rl (ip_allocs t)"
    and cap: "max_allocations_per_ip rl = m" by (simp_all add: quota_exact_def)
  show "table_inv t" by (rule inv)
  show "quota_exact m (with_alloc i f t) rl" if "neutral f" for i f
    using that inv acc cap by (simp add: quota_exact_def with_alloc_inv ip_allocs_frames)
  show "quota_exact m (snd (register_ice_ufrags i l r t)) rl" for i l r
    using inv acc cap by (simp add: quota_exact_def register_ice_ufrags_inv ip_allocs_frames)
  show "quota_exact m (table_add_permission now i ip t) rl" if "dm_get (allocations t) i \<noteq> None" for now i ip
    using that inv acc cap consistency.inv_permission [OF inv that] by (simp add: quota_exact_def ip_allocs_frames)
  show "quota_exact m (snd (try_add_permissions_capped now i ips cap t)) rl" for now i ips cap
    using inv acc cap by (simp add: quota_exact_def try_add_permissions_inv ip_allocs_frames)
  show "quota_exact m (register_peer_tuple now i p t) rl" if "dm_get (allocations t) i \<noteq> None" for now i p
    using that inv acc cap consistency.inv_tuple [OF inv that] by (simp add: quota_exact_def ip_allocs_frames)
  show "quota_exact m (snd (table_remove i t)) (record_deallocation rl (sa_ip (client_addr a)))"
    if "dm_get (allocations t) i = Some a" for i a
  proof -
    have "ip_allocs (snd (table_remove i t)) = (ip_allocs t)(sa_ip (client_addr a) :=
        ip_allocs t (sa_ip (client_addr a)) - 1)"
      using ip_allocs_remove(1) [OF inv that] by (auto simp: fun_eq_iff)
    then show ?thesis using lim.accounts_release [OF acc] remove_inv [OF inv] cap by (simp add: quota_exact_def)
  qed
  show "quota_exact m t rl'" if "check_allocation_request ins rl (sa_ip c) = (Inl err, rl')" for ins c err
    using lim.accounts_refuse [OF acc that] inv cap by (simp add: quota_exact_def)
  show "quota_exact m (snd (create_or_get now c u l x t)) rl'"
    if "id_counter t + 1 < 2 ^ 64" "get_by_client t c = None"
      "check_allocation_request ins rl (sa_ip c) = (Inr (), rl')" for now c u l x ins
    using lim.accounts_admit [OF acc that(3)] create_or_get_inv [OF inv that(1)] cap
    by (simp add: quota_exact_def reserve_create_count [OF inv that(2)])
  show "quota_exact m (cleanup_channel_bindings now t) rl" "quota_exact m (cleanup_permissions now t) rl" for now
    using inv acc cap by (simp_all add: quota_exact_def cleanup_channel_bindings_inv
        cleanup_permissions_table ip_allocs_frames)
  show "quota_exact m (snd (retain_unless Q t)) (foldl record_deallocation rl (fst (retain_unless Q t)))" for Q
  proof -
    have "ip_allocs (snd (retain_unless Q t))
        = (\<lambda>ip. ip_allocs t ip - count_list (fst (retain_unless Q t)) ip)"
      using ip_allocs_retain [of Q t] by (auto simp: fun_eq_iff) (metis add_diff_cancel_right')
    then show ?thesis
      using lim.accounts_release_all [OF acc] consistency.inv_retain [OF inv] cap by (simp add: quota_exact_def)
  qed
  show "quota_exact m t (limiter_cleanup ins rl)" for ins
    using lim.accounts_sweep [OF acc] inv cap by (simp add: quota_exact_def)
qed

end
