(* ===== verification/Handler.thy ===== *)
theory Handler
  imports World
begin

text \<open>
  The TURN request handlers of \<open>src/turn/handler.rs\<close>: authentication, the five request handlers,
  Send indications, Binding requests and relayed responses, each as one function on the world.
  Logging is left out. A handler runs to completion before the next one starts.
\<close>

section \<open>Definitions\<close>

subsection \<open>Authentication\<close>

definition verify_long_term_credentials :: "env \<Rightarrow> stun_info \<Rightarrow> bytes + rstring \<times> bytes" where
  "verify_long_term_credentials e msg =
    (let cfg = en_cfg e; c = en_crypto e;
         unauthorized = build_unauthorized_response c cfg (en_unix e) msg;
         bad_request = build_error_response c msg BadRequest
     in if si_message_integrity msg = None then Inl unauthorized
        else case si_username msg of
          None \<Rightarrow> Inl bad_request
        | Some user \<Rightarrow>
           (case si_nonce msg of
              None \<Rightarrow> Inl bad_request
            | Some nonce \<Rightarrow>
               if \<not> validate_nonce c (en_unix e) nonce (cfg_nonce_lifetime_secs cfg) (cfg_nonce_secret cfg)
               then Inl (build_stale_nonce_response c cfg (en_unix e) msg)
               else case si_realm msg of
                 None \<Rightarrow> Inl unauthorized
               | Some realm \<Rightarrow>
                  if realm \<noteq> cfg_realm cfg then Inl unauthorized
                  else
                    let passwords = candidate_passwords c cfg user (en_unix e)
                    in if passwords = [] then Inl unauthorized
                       else case (si_message_integrity msg, si_message_integrity_offset msg) of
                         (Some integrity, Some offset) \<Rightarrow>
                           let msg_for_hmac = integrity_input (si_raw msg) offset
                           in (case find (\<lambda>key. verify_message_integrity c msg_for_hmac integrity key)
                                      (map (\<lambda>password. compute_key c user (cfg_realm cfg) password) passwords) of
                                 None \<Rightarrow> Inl unauthorized
                               | Some key \<Rightarrow> Inr (user, key))
                       | _ \<Rightarrow> Inl bad_request))"

definition authenticate_for_allocation ::
  "env \<Rightarrow> alloc_table \<Rightarrow> stun_info \<Rightarrow> socket_addr \<Rightarrow> bytes + allocation_id \<times> bytes option" where
  "authenticate_for_allocation e t msg src =
    (case (if \<not> auth_enabled (en_cfg e) then Inr None
           else case verify_long_term_credentials e msg of Inl r \<Rightarrow> Inl r | Inr v \<Rightarrow> Inr (Some v)) of
       Inl response \<Rightarrow> Inl response
     | Inr auth \<Rightarrow>
        let key = map_option snd auth
        in case (map_option (\<lambda>a. (alloc_id a, username a)) (get_by_client t src), auth) of
             (None, _) \<Rightarrow> Inl (build_signed_error_response (en_crypto e) msg AllocationMismatch key)
           | (Some (i, allocated_to), Some (user, _)) \<Rightarrow>
               if allocated_to \<noteq> user
               then Inl (build_unauthorized_response (en_crypto e) (en_cfg e) (en_unix e) msg)
               else Inr (i, key)
           | (Some (i, _), None) \<Rightarrow> Inr (i, key))"

subsection \<open>Binding requests and responses\<close>

text \<open>A data indication with a fresh transaction id, sent to one or to several clients.\<close>

definition indicate_then ::
  "env \<Rightarrow> socket_addr \<Rightarrow> bytes \<Rightarrow> socket_addr list \<Rightarrow> (world \<Rightarrow> result) \<Rightarrow> world \<Rightarrow> result" where
  "indicate_then e peer data targets k w =
    (let (txn, w) = draw e w in send_each e (build_data_indication txn peer data) targets k w)"

text \<open>The client addressed by a username fragment, when it may be reached from the relay address.\<close>

definition ufrag_target :: "env \<Rightarrow> alloc_table \<Rightarrow> socket_addr \<Rightarrow> rstring \<Rightarrow> socket_addr option" where
  "ufrag_target e t src remote_ufrag =
    (case lookup_by_ice_ufrag t remote_ufrag of
       None \<Rightarrow> None
     | Some target_id \<Rightarrow>
        (case table_get t target_id of
           None \<Rightarrow> None
         | Some target \<Rightarrow>
             if client_addr target = src \<or> \<not> is_permitted (en_now e) target (ext_ip e) then None
             else Some (client_addr target)))"

text \<open>
  What a Binding request from a client teaches the table: its ICE pair, and a permission for the
  relay address when it has none.
\<close>

definition learn_from_check :: "env \<Rightarrow> stun_info \<Rightarrow> allocation \<Rightarrow> alloc_table \<Rightarrow> alloc_table" where
  "learn_from_check e msg a t =
    (let i = alloc_id a;
         already_permitted = is_permitted (en_now e) a (ext_ip e);
         t = (case parse_ice_username msg of
                Some (remote_ufrag, local_ufrag) \<Rightarrow>
                  snd (register_ice_ufrags i local_ufrag remote_ufrag t)
              | None \<Rightarrow> t)
     in if \<not> already_permitted then table_add_permission (en_now e) i (ext_ip e) t else t)"

text \<open>The second half of \<open>handle_binding_request\<close>: touch the sender, relay the check.\<close>

definition relay_check :: "env \<Rightarrow> stun_info \<Rightarrow> socket_addr \<Rightarrow> world \<Rightarrow> result" where
  "relay_check e msg src w =
    (case get_by_client (w_table w) src of
       None \<Rightarrow> reply e (build_binding_response msg src) src w
     | Some a \<Rightarrow>
         let sender_permitted = is_permitted (en_now e) (touch_received (en_now e) a) (ext_ip e);
             w = upd_table (with_client src (touch_received (en_now e))) w
         in if sender_permitted then
              (case (case parse_ice_username msg of
                       Some (remote_ufrag, _) \<Rightarrow> ufrag_target e (w_table w) src remote_ufrag
                     | None \<Rightarrow> None) of
                 Some target_addr \<Rightarrow> indicate_then e (relay_addr e) (si_raw msg) [target_addr] ok w
               | None \<Rightarrow> ok w)
            else ok w)"

definition handle_binding_request :: "env \<Rightarrow> stun_info \<Rightarrow> socket_addr \<Rightarrow> world \<Rightarrow> result" where
  "handle_binding_request e msg src w =
    (if \<not> is_client (w_table w) src then reply e (build_binding_response msg src) src w
     else case get_by_client (w_table w) src of
       None \<Rightarrow> reply e (build_binding_response msg src) src w
     | Some a \<Rightarrow> relay_check e msg src (upd_table (learn_from_check e msg a) w))"

definition handle_client_response :: "env \<Rightarrow> stun_info \<Rightarrow> socket_addr \<Rightarrow> world \<Rightarrow> result" where
  "handle_client_response e msg src w =
    (let t = w_table w
     in case get_by_client t src of
          None \<Rightarrow> ok w
        | Some alloc \<Rightarrow>
           (case (get_ice_ufrag alloc, get_ice_remote_ufrag alloc) of
              (Some l, Some r) \<Rightarrow>
                let targets = List.map_filter
                      (\<lambda>i. case table_get t i of
                             None \<Rightarrow> None
                           | Some target \<Rightarrow>
                               if client_addr target = src then None else Some (client_addr target))
                      (find_ice_peers t l r)
                in if targets = [] then ok w
                   else indicate_then e src (si_raw msg) targets ok w
            | _ \<Rightarrow> ok w))"

subsection \<open>Allocate and Refresh\<close>

text \<open>Step 5 of \<open>handle_allocate\<close>, once the rate limiter has reserved a slot.\<close>

definition create_allocation ::
  "env \<Rightarrow> stun_info \<Rightarrow> socket_addr \<Rightarrow> rstring \<Rightarrow> bytes option \<Rightarrow> world \<Rightarrow> result" where
  "create_allocation e msg src user key w =
    (let lifetime = 60;
         ((i, created), t) =
           create_or_get (en_now e) src user lifetime (si_transaction_id msg) (w_table w);
         w = w\<lparr>w_table := t\<rparr>;
         w = (if \<not> created then upd_limiter (\<lambda>rl. cancel_reservation rl (sa_ip src)) w else w);
         actual_lifetime = (case table_get t i of
                              Some a \<Rightarrow> remaining_lifetime (en_now e) a | None \<Rightarrow> lifetime)
     in reply e (build_allocate_response (en_crypto e) (en_cfg e) msg src actual_lifetime key) src w)"

text \<open>Steps 3 and 4: the transport check and admission control.\<close>

definition admit_allocate ::
  "env \<Rightarrow> stun_info \<Rightarrow> socket_addr \<Rightarrow> rstring \<Rightarrow> bytes option \<Rightarrow> world \<Rightarrow> result" where
  "admit_allocate e msg src user key w =
    (if (case si_requested_transport msg of Some p \<Rightarrow> p \<noteq> 17 | None \<Rightarrow> False)
     then reply e (build_signed_error_response (en_crypto e) msg UnsupportedTransport key) src w
     else
       let (verdict, rl) = check_allocation_request (en_instant e) (w_limiter w) (sa_ip src);
           w = w\<lparr>w_limiter := rl\<rparr>
       in case verdict of
            Inl err \<Rightarrow>
              let error_code = (case err of TooManyRequests \<Rightarrow> InsufficientCapacity
                                | QuotaExceeded \<Rightarrow> AllocationQuotaReached)
              in reply e (build_signed_error_response (en_crypto e) msg error_code key) src w
          | Inr _ \<Rightarrow> create_allocation e msg src user key w)"

text \<open>\<open>if self.allocations.remove(id) { self.rate_limiter.record_deallocation(ip) }\<close>.\<close>

definition remove_and_release :: "allocation_id \<Rightarrow> ip_addr \<Rightarrow> world \<Rightarrow> world" where
  "remove_and_release i ip w =
    (let (removed, t) = table_remove i (w_table w); w = w\<lparr>w_table := t\<rparr>
     in if removed then upd_limiter (\<lambda>rl. record_deallocation rl ip) w else w)"

definition handle_allocate :: "env \<Rightarrow> stun_info \<Rightarrow> socket_addr \<Rightarrow> world \<Rightarrow> result" where
  "handle_allocate e msg src w =
    (case (if \<not> auth_enabled (en_cfg e) then Inr None
           else case verify_long_term_credentials e msg of Inl r \<Rightarrow> Inl r | Inr v \<Rightarrow> Inr (Some v)) of
       Inl response \<Rightarrow> reply e response src w
     | Inr auth \<Rightarrow>
        let key = map_option snd auth;
            user = (case auth of
                      Some (u, _) \<Rightarrow> u
                    | None \<Rightarrow> (case si_username msg of Some u \<Rightarrow> u | None \<Rightarrow> str ''anonymous''))
        in case get_by_client (w_table w) src of
             Some a \<Rightarrow>
               if is_expired (en_now e) a
               then admit_allocate e msg src user key (remove_and_release (alloc_id a) (sa_ip src) w)
               else if allocate_txn_id a = si_transaction_id msg
               then reply e (build_allocate_response (en_crypto e) (en_cfg e) msg src
                               (remaining_lifetime (en_now e) a) key) src w
               else reply e (build_signed_error_response (en_crypto e) msg AllocationMismatch key) src w
           | None \<Rightarrow> admit_allocate e msg src user key w)"

text \<open>\<open>requested_lifetime.clamp(10, 60)\<close>.\<close>

definition clamp_lifetime :: "u32 \<Rightarrow> u32" where
  "clamp_lifetime l = (if l < 10 then 10 else if l > 60 then 60 else l)"

definition handle_refresh :: "env \<Rightarrow> stun_info \<Rightarrow> socket_addr \<Rightarrow> world \<Rightarrow> result" where
  "handle_refresh e msg src w =
    (case authenticate_for_allocation e (w_table w) msg src of
       Inl response \<Rightarrow> reply e response src w
     | Inr (i, key) \<Rightarrow>
        let requested_lifetime = (case si_lifetime msg of Some l \<Rightarrow> l | None \<Rightarrow> 60)
        in if requested_lifetime = 0 then
             reply e (build_refresh_response (en_crypto e) msg 0 key) src
               (remove_and_release i (sa_ip src) w)
           else
             let lifetime = clamp_lifetime requested_lifetime;
                 w = upd_table (with_client src
                       (\<lambda>a. touch_received (en_now e) (alloc_refresh (en_now e) lifetime a))) w
             in reply e (build_refresh_response (en_crypto e) msg lifetime key) src w)"

subsection \<open>CreatePermission and ChannelBind\<close>

definition handle_create_permission :: "env \<Rightarrow> stun_info \<Rightarrow> socket_addr \<Rightarrow> world \<Rightarrow> result" where
  "handle_create_permission e msg src w =
    (let c = en_crypto e; cfg = en_cfg e
     in if si_xor_peer_addresses msg = [] then reply e (build_error_response c msg BadRequest) src w
        else case authenticate_for_allocation e (w_table w) msg src of
          Inl response \<Rightarrow> reply e response src w
        | Inr (i, key) \<Rightarrow>
            if list_ex (\<lambda>p. is_forbidden_peer_ip (sa_ip p)) (si_xor_peer_addresses msg)
            then reply e (build_signed_error_response c msg Forbidden key) src w
            else
              let w = upd_table (with_alloc i (touch_received (en_now e))) w;
                  peer_ips = map sa_ip (si_xor_peer_addresses msg);
                  (added, t) = try_add_permissions_capped (en_now e) i peer_ips
                                 (cfg_max_permissions_per_alloc cfg) (w_table w);
                  w = w\<lparr>w_table := t\<rparr>
              in if \<not> added
                 then reply e (build_signed_error_response c msg InsufficientCapacity key) src w
                 else reply e (build_success_response c msg key) src w)"

datatype bind_outcome = BindOk bool | Conflict | CapExceeded nat | Gone

definition bind_outcome_of ::
  "env \<Rightarrow> alloc_table \<Rightarrow> allocation_id \<Rightarrow> channel \<Rightarrow> socket_addr \<Rightarrow> bind_outcome" where
  "bind_outcome_of e t i chan peer =
    (case table_get t i of
       Some alloc \<Rightarrow>
         let bound_peer = peer_for_channel (en_now e) alloc chan;
             bound_channel = channel_for_peer (en_now e) alloc peer
         in if (case bound_peer of Some p \<Rightarrow> p \<noteq> peer | None \<Rightarrow> False) then Conflict
            else if (case bound_channel of Some ch \<Rightarrow> ch \<noteq> chan | None \<Rightarrow> False) then Conflict
            else if bound_peer \<noteq> None \<and> bound_channel \<noteq> None then BindOk True
            else if channels_count (en_now e) alloc \<ge> cfg_max_channels_per_alloc (en_cfg e)
            then CapExceeded (channels_count (en_now e) alloc)
            else BindOk True
     | None \<Rightarrow> Gone)"

text \<open>The part of \<open>handle_channel_bind\<close> after the outcome: the permission, then the binding.\<close>

definition commit_bind ::
  "env \<Rightarrow> stun_info \<Rightarrow> socket_addr \<Rightarrow> allocation_id \<Rightarrow> bytes option \<Rightarrow> channel \<Rightarrow> socket_addr
     \<Rightarrow> bool \<Rightarrow> world \<Rightarrow> result" where
  "commit_bind e msg src i key chan peer needs_bind w =
    (let c = en_crypto e;
         (added, t) = try_add_permissions_capped (en_now e) i [sa_ip peer]
                        (cfg_max_permissions_per_alloc (en_cfg e)) (w_table w);
         w = w\<lparr>w_table := t\<rparr>
     in if \<not> added then
          let code = (if table_get t i = None then AllocationMismatch else InsufficientCapacity)
          in reply e (build_signed_error_response c msg code key) src w
        else case table_get t i of
          Some _ \<Rightarrow>
            let w = upd_table (with_alloc i (\<lambda>a. touch_received (en_now e)
                       (if needs_bind then bind_channel (en_now e) chan peer a else a))) w
            in reply e (build_success_response c msg key) src w
        | None \<Rightarrow> reply e (build_signed_error_response c msg AllocationMismatch key) src w)"

definition handle_channel_bind :: "env \<Rightarrow> stun_info \<Rightarrow> socket_addr \<Rightarrow> world \<Rightarrow> result" where
  "handle_channel_bind e msg src w =
    (let c = en_crypto e
     in case si_channel_number msg of
          None \<Rightarrow> reply e (build_error_response c msg BadRequest) src w
        | Some chan \<Rightarrow>
           (case si_xor_peer_addresses msg of
              [] \<Rightarrow> reply e (build_error_response c msg BadRequest) src w
            | peer # _ \<Rightarrow>
               (case authenticate_for_allocation e (w_table w) msg src of
                  Inl response \<Rightarrow> reply e response src w
                | Inr (i, key) \<Rightarrow>
                    if is_forbidden_peer_addr (en_cfg e) peer
                    then reply e (build_signed_error_response c msg Forbidden key) src w
                    else case bind_outcome_of e (w_table w) i chan peer of
                      BindOk needs_bind \<Rightarrow> commit_bind e msg src i key chan peer needs_bind w
                    | Conflict \<Rightarrow> reply e (build_signed_error_response c msg BadRequest key) src w
                    | CapExceeded _ \<Rightarrow>
                        reply e (build_signed_error_response c msg InsufficientCapacity key) src w
                    | Gone \<Rightarrow>
                        reply e (build_signed_error_response c msg AllocationMismatch key) src w)))"

subsection \<open>Send indications\<close>

datatype send_target = Local allocation_id "channel option" | External | Drop

definition classify_send_target :: "env \<Rightarrow> alloc_table \<Rightarrow> socket_addr \<Rightarrow> socket_addr \<Rightarrow> send_target" where
  "classify_send_target e t src peer =
    (if peer = src then Drop
     else case get_by_client t peer of
       Some target \<Rightarrow>
         if is_permitted (en_now e) target (ext_ip e)
         then Local (alloc_id target) (channel_for_peer (en_now e) target src)
         else Drop
     | None \<Rightarrow> External)"

text \<open>The end of the internal route: the sender's timers.\<close>

definition finish_internal :: "env \<Rightarrow> socket_addr \<Rightarrow> bool \<Rightarrow> world \<Rightarrow> result" where
  "finish_internal e src sent w =
    ok (upd_table (with_client src (\<lambda>a.
          let a = touch_received (en_now e) a
          in if sent then touch_relay_success (en_now e) a else a)) w)"

text \<open>Targets paired with the sender by its registered ICE credentials.\<close>

definition ice_targets :: "env \<Rightarrow> alloc_table \<Rightarrow> socket_addr \<Rightarrow> socket_addr list" where
  "ice_targets e t src =
    (case get_by_client t src of
       None \<Rightarrow> []
     | Some a \<Rightarrow>
        (case (get_ice_ufrag a, get_ice_remote_ufrag a) of
           (Some l, Some r) \<Rightarrow>
             List.map_filter
               (\<lambda>i. case table_get t i of
                      None \<Rightarrow> None
                    | Some target \<Rightarrow>
                        if client_addr target \<noteq> src \<and> is_permitted (en_now e) target (ext_ip e)
                        then Some (client_addr target) else None)
               (find_ice_peers t l r)
         | _ \<Rightarrow> []))"

definition route_by_pair :: "env \<Rightarrow> socket_addr \<Rightarrow> bytes \<Rightarrow> world \<Rightarrow> result" where
  "route_by_pair e src data w =
    (let targets = ice_targets e (w_table w) src
     in if targets = [] then finish_internal e src False w
        else indicate_then e (relay_addr e) data targets (finish_internal e src True) w)"

text \<open>The username pair of a payload that is itself a Binding request.\<close>

definition binding_ufrags :: "bytes \<Rightarrow> (rstring \<times> rstring) option" where
  "binding_ufrags data =
    (case parse_stun_info data of
       Some info \<Rightarrow>
         if si_method info = Binding \<and> si_class info = Request then parse_ice_username info else None
     | None \<Rightarrow> None)"

definition route_internally :: "env \<Rightarrow> socket_addr \<Rightarrow> bytes option \<Rightarrow> world \<Rightarrow> result" where
  "route_internally e src payload w =
    (case get_by_client (w_table w) src of
       None \<Rightarrow> ok w
     | Some a \<Rightarrow>
        if \<not> is_permitted (en_now e) a (ext_ip e) then ok w
        else case payload of
          None \<Rightarrow> ok w
        | Some data \<Rightarrow>
           (case binding_ufrags data of
              Some (remote_ufrag, local_ufrag) \<Rightarrow>
                let w = upd_table (\<lambda>t. snd (register_ice_ufrags (alloc_id a) local_ufrag remote_ufrag t)) w
                in (case ufrag_target e (w_table w) src remote_ufrag of
                      Some target_addr \<Rightarrow>
                        indicate_then e (relay_addr e) data [target_addr] (finish_internal e src True) w
                    | None \<Rightarrow> route_by_pair e src data w)
            | None \<Rightarrow> route_by_pair e src data w))"

text \<open>The second half of \<open>handle_send\<close>: data to a peer other than the relay address.\<close>

definition send_to_peer :: "env \<Rightarrow> bytes \<Rightarrow> socket_addr \<Rightarrow> socket_addr \<Rightarrow> world \<Rightarrow> result" where
  "send_to_peer e data src peer w =
    (case get_by_client (w_table w) src of
       None \<Rightarrow> ok w
     | Some a \<Rightarrow>
         if \<not> is_permitted (en_now e) a (sa_ip peer) then ok w
         else
           let touch_sender = (\<lambda>w. ok (upd_table (with_client src (touch_received (en_now e))) w))
           in case classify_send_target e (w_table w) src peer of
                Drop \<Rightarrow> ok w
              | Local target_id reverse_channel \<Rightarrow>
                  let (packet, w) =
                        (case reverse_channel of
                           Some ch \<Rightarrow> (build_channel_data ch data, w)
                         | None \<Rightarrow> let (txn, w) = draw e w in (build_data_indication txn src data, w))
                  in send_then e packet peer
                       (\<lambda>w. touch_sender (upd_table (with_alloc target_id (touch (en_now e))) w)) w
              | External \<Rightarrow> send_then e data peer touch_sender w)"

definition handle_send :: "env \<Rightarrow> stun_info \<Rightarrow> socket_addr \<Rightarrow> world \<Rightarrow> result" where
  "handle_send e msg src w =
    (if \<not> is_client (w_table w) src then ok w
     else case si_xor_peer_addresses msg of
       [] \<Rightarrow> ok w
     | peer # _ \<Rightarrow>
         if is_forbidden_peer_addr (en_cfg e) peer then ok w
         else if peer = relay_addr e then route_internally e src (si_data msg) w
         else case si_data msg of
           None \<Rightarrow> ok w
         | Some data \<Rightarrow> send_to_peer e data src peer w)"

subsection \<open>Dispatch\<close>

definition handle_stun :: "env \<Rightarrow> stun_info \<Rightarrow> socket_addr \<Rightarrow> world \<Rightarrow> result" where
  "handle_stun e msg src w =
    (case (si_class msg, si_method msg) of
       (Request, Binding) \<Rightarrow> handle_binding_request e msg src w
     | (Request, Allocate) \<Rightarrow> handle_allocate e msg src w
     | (Request, Refresh) \<Rightarrow> handle_refresh e msg src w
     | (Request, CreatePermission) \<Rightarrow> handle_create_permission e msg src w
     | (Request, ChannelBind) \<Rightarrow> handle_channel_bind e msg src w
     | (Indication, Send) \<Rightarrow> handle_send e msg src w
     | (SuccessResponse, _) \<Rightarrow>
         if lookup_by_source (w_table w) src \<noteq> None then handle_client_response e msg src w else ok w
     | (ErrorResponse, _) \<Rightarrow>
         if lookup_by_source (w_table w) src \<noteq> None then handle_client_response e msg src w else ok w
     | _ \<Rightarrow> ok w)"

section \<open>Lemmas\<close>

lemma register_keeps_ids:
  assumes "table_inv t"
  shows "dm_get (allocations (snd (register_ice_ufrags i l r t))) j = None \<longleftrightarrow> dm_get (allocations t) j = None"
    and "id_counter (snd (register_ice_ufrags i l r t)) = id_counter t"
    and "by_client (snd (register_ice_ufrags i l r t)) = by_client t"
  using assms by (cases rule: register_ice_ufrags_cases [of t i l r]; simp)+

lemma remove_id_counter: "table_inv t \<Longrightarrow> id_counter (snd (table_remove i t)) = id_counter t"
  by (simp add: remove_is_reap table_inv_def reap_views split: option.splits)

lemma neutral_compose: "neutral f \<Longrightarrow> neutral g \<Longrightarrow> neutral (\<lambda>a. f (g a))"
  by (simp add: neutral_def)

lemma authenticate_Inr:
  assumes "table_inv t" "authenticate_for_allocation e t msg src = Inr (i, key)"
  shows "\<exists>a. get_by_client t src = Some a \<and> alloc_id a = i \<and> client_addr a = src
    \<and> dm_get (allocations t) i = Some a"
proof -
  obtain a where "get_by_client t src = Some a" "alloc_id a = i"
    using assms(2)
    by (auto simp: authenticate_for_allocation_def Let_def split: if_splits sum.splits option.splits prod.splits)
  then show ?thesis using get_by_client_iff [OF assms(1)] by blast
qed

context lease_state
begin

lemma holds_reply: "holds w \<Longrightarrow> holds (snd (reply e p d w))"
  by simp

lemma holds_indicate:
  "holds w \<Longrightarrow> (\<And>w. holds w \<Longrightarrow> holds (snd (k w))) \<Longrightarrow> holds (snd (indicate_then e p d ts k w))"
  using holds_send_each by (simp add: indicate_then_def case_prod_unfold)

lemma holds_release:
  assumes "holds w" "get_by_client (w_table w) src = Some a"
  shows "holds (remove_and_release (alloc_id a) (sa_ip src) w)"
    and "get_by_client (w_table (remove_and_release (alloc_id a) (sa_ip src) w)) src = None"
    and "id_counter (w_table (remove_and_release (alloc_id a) (sa_ip src) w)) = id_counter (w_table w)"
proof -
  have inv: "table_inv (w_table w)" using assms(1) keep_table by (simp add: holds_def)
  have a: "dm_get (allocations (w_table w)) (alloc_id a) = Some a" "client_addr a = src"
    using get_by_client_iff [OF inv] assms(2) by auto
  have rm: "fst (table_remove (alloc_id a) (w_table w))" using a by (simp add: table_remove_def)
  show "holds (remove_and_release (alloc_id a) (sa_ip src) w)"
    using keep_remove [OF _ a(1)] assms(1) rm a(2)
    by (simp add: remove_and_release_def holds_def case_prod_unfold Let_def)
  show "get_by_client (w_table (remove_and_release (alloc_id a) (sa_ip src) w)) src = None"
    using a assms(2) inv
    by (simp add: remove_and_release_def case_prod_unfold Let_def remove_is_reap table_inv_def
        reap_by_client [OF inv])
  show "id_counter (w_table (remove_and_release (alloc_id a) (sa_ip src) w)) = id_counter (w_table w)"
    using remove_id_counter [OF inv] by (simp add: remove_and_release_def case_prod_unfold Let_def)
qed

lemma holds_refresh:
  assumes "holds w"
  shows "holds (snd (handle_refresh e msg src w))"
proof (cases "authenticate_for_allocation e (w_table w) msg src")
  case (Inr ik)
  obtain i key where ik: "ik = (i, key)" by fastforce
  have "table_inv (w_table w)" using assms keep_table by (simp add: holds_def)
  then obtain a where "get_by_client (w_table w) src = Some a" "alloc_id a = i"
    using authenticate_Inr Inr ik by blast
  then show ?thesis
    using Inr ik assms holds_release(1) [OF assms] holds_client light_compose light_updates(2,5)
    by (auto simp: handle_refresh_def Let_def)
qed (simp add: handle_refresh_def assms)

lemma holds_finish_internal: "holds w \<Longrightarrow> holds (snd (finish_internal e src sent w))"
  using light_compose [OF light_updates(3) light_updates(2)] light_updates(2)
  by (cases sent) (simp_all add: finish_internal_def Let_def holds_client)

lemma holds_route_by_pair: "holds w \<Longrightarrow> holds (snd (route_by_pair e src data w))"
  by (simp add: route_by_pair_def Let_def holds_finish_internal holds_indicate)

lemma holds_register:
  "holds w \<Longrightarrow> holds (upd_table (\<lambda>t. snd (register_ice_ufrags i l r t)) w)"
  by (simp add: holds_def keep_register)

lemma holds_send:
  assumes "holds w"
  shows "holds (snd (handle_send e msg src w))"
proof -
  have "holds (snd (route_internally e src payload w))" for payload
    using assms
    by (auto simp: route_internally_def Let_def holds_register
        intro!: holds_route_by_pair holds_indicate holds_finish_internal
        split: option.splits)
  moreover have "holds (upd_table (with_client src (touch_received now)) w)" if "holds w" for w now
    by (rule holds_client [OF that light_updates(2)])
  moreover have "holds (upd_table (with_alloc i (touch now)) w)" if "holds w" for w now i
    by (rule holds_update [OF that light_updates(1)])
  ultimately show ?thesis
    using assms
    by (auto simp: handle_send_def send_to_peer_def Let_def case_prod_unfold
        intro!: holds_send_then split: option.splits list.splits send_target.splits)
qed

lemma holds_learn:
  assumes "holds w" "get_by_client (w_table w) src = Some a" "relay (ext_ip e)"
  shows "holds (upd_table (learn_from_check e msg a) w)"
proof -
  have inv: "table_inv (w_table w)" using assms keep_table by (simp add: holds_def)
  define t1 where "t1 = (case parse_ice_username msg of
      Some (r, l) \<Rightarrow> snd (register_ice_ufrags (alloc_id a) l r (w_table w)) | None \<Rightarrow> w_table w)"
  have "dm_get (allocations (w_table w)) (alloc_id a) \<noteq> None"
    using assms(2) get_by_client_iff [OF inv] by auto
  then have "P t1 (w_limiter w)" "dm_get (allocations t1) (alloc_id a) \<noteq> None"
    using assms(1) register_keeps_ids(1) [OF inv]
    by (auto simp: t1_def holds_def keep_register simp del: not_None_eq split: option.splits)
  then show ?thesis
    using keep_relay assms(3) by (simp add: holds_def learn_from_check_def Let_def t1_def)
qed

lemma holds_relay_check:
  assumes "holds w"
  shows "holds (snd (relay_check e msg src w))"
proof -
  have "holds (upd_table (with_client src (touch_received (en_now e))) w)"
    by (rule holds_client [OF assms light_updates(2)])
  then show ?thesis
    using assms
    by (auto simp: relay_check_def Let_def intro!: holds_indicate split: option.splits)
qed

lemma holds_binding: "holds w \<Longrightarrow> relay (ext_ip e) \<Longrightarrow> holds (snd (handle_binding_request e msg src w))"
  by (auto simp: handle_binding_request_def holds_learn intro!: holds_relay_check split: option.splits)

lemma holds_client_response: "holds w \<Longrightarrow> holds (snd (handle_client_response e msg src w))"
  by (auto simp: handle_client_response_def Let_def intro!: holds_indicate split: option.splits)

end

context packet_state
begin

lemma holds_create_permission:
  assumes "holds w"
  shows "holds (snd (handle_create_permission e msg src w))"
proof -
  have "holds (upd_table (with_alloc i (touch_received (en_now e))) w)" for i
    by (rule holds_update [OF assms light_updates(2)])
  then show ?thesis
    using assms inv_try_add
    by (auto simp: handle_create_permission_def Let_def case_prod_unfold holds_def split: sum.splits)
qed

lemma holds_channel_bind:
  assumes "holds w"
  shows "holds (snd (handle_channel_bind e msg src w))"
proof -
  have "holds (snd (commit_bind e msg src i key chan peer b w))" for i key chan peer b
  proof -
    let ?r = "try_add_permissions_capped (en_now e) i [sa_ip peer]
        (cfg_max_permissions_per_alloc (en_cfg e)) (w_table w)"
    have t: "holds (w\<lparr>w_table := snd ?r\<rparr>)" using assms inv_try_add by (simp add: holds_def)
    have "neutral (\<lambda>a. touch_received (en_now e) (if b then bind_channel (en_now e) chan peer a else a))"
      using neutral_compose [OF neutral_updates(2) neutral_updates(6)] neutral_updates(2) by (cases b) simp_all
    then show ?thesis
      using t holds_neutral [OF t]
      by (simp add: commit_bind_def Let_def case_prod_unfold split: option.splits)
  qed
  then show ?thesis
    using assms
    by (auto simp: handle_channel_bind_def Let_def split: option.splits list.splits sum.splits bind_outcome.splits)
qed

end

context lease_invariant
begin

lemma holds_create:
  assumes "holds w" "id_counter (w_table w) + 1 < 2 ^ 64" "get_by_client (w_table w) src = None"
    and "check_allocation_request ins (w_limiter w) (sa_ip src) = (Inr (), rl)"
  shows "holds (snd (create_allocation e msg src user key (w\<lparr>w_limiter := rl\<rparr>)))"
proof -
  have inv: "table_inv (w_table w)" using assms(1) keep_table by (simp add: holds_def)
  have "dm_get (by_client (w_table w)) src = None"
    using is_client_iff [OF inv, of src] assms(3) by (simp add: is_client_def)
  then have "snd (fst (create_or_get now src user l txn (w_table w)))" for now l txn
    by (simp add: create_or_get_def Let_def)
  then show ?thesis
    using keep_create [OF _ assms(2,3,4)] assms(1)
    by (simp add: create_allocation_def Let_def case_prod_unfold holds_def)
qed

lemma holds_admit:
  assumes "holds w" "id_counter (w_table w) + 1 < 2 ^ 64" "get_by_client (w_table w) src = None"
  shows "holds (snd (admit_allocate e msg src user key w))"
proof (cases "check_allocation_request (en_instant e) (w_limiter w) (sa_ip src)")
  case (Pair verdict rl)
  show ?thesis
  proof (cases verdict)
    case (Inl err)
    then show ?thesis
      using Pair assms keep_refuse [of "w_table w" "w_limiter w" src "en_instant e" err rl]
      by (simp add: admit_allocate_def Let_def holds_def)
  next
    case (Inr u)
    then show ?thesis
      using Pair assms holds_create [OF assms, of "en_instant e" rl]
      by (simp add: admit_allocate_def Let_def)
  qed
qed

lemma holds_allocate:
  assumes "holds w" "id_counter (w_table w) + 1 < 2 ^ 64"
  shows "holds (snd (handle_allocate e msg src w))"
  using assms holds_admit holds_release
  by (auto simp: handle_allocate_def Let_def split: sum.splits option.splits)

end

context packet_invariant
begin

lemma holds_stun:
  assumes "holds w" "id_counter (w_table w) + 1 < 2 ^ 64"
  shows "holds (snd (handle_stun e msg src w))"
  using assms
  by (auto simp: handle_stun_def holds_allocate holds_refresh holds_create_permission
      holds_channel_bind holds_send holds_binding holds_client_response
      split: stun_class.split stun_method.split)

end

end
