(* ===== verification/Engine.thy ===== *)
theory Engine
  imports Handler
begin

text \<open>
  The media relay, \<open>src/relay/engine.rs\<close>: traffic from peers to the clients that permit them, and
  ChannelData from clients to peers, to other clients, or along an ICE pair when the channel is
  bound to the relay address itself. A \<open>Delivery\<close> is the snapshot the code takes before it awaits
  a send; the table is consulted again, by id, for the timers.
\<close>

section \<open>Definitions\<close>

definition is_stun :: "bytes \<Rightarrow> bool" where
  "is_stun data =
    (if length data < 20 then False
     else if drop_bit 6 (data ! 0) \<noteq> 0 then False
     else take 4 (drop 4 data) = [0x21, 0x12, 0xA4, 0x42])"

text \<open>The heuristics that choose the wording of the engine's log lines.\<close>

definition is_dtls :: "bytes \<Rightarrow> bool" where
  "is_dtls data =
    (if length data < 3 then False
     else let content_type = data ! 0
          in if \<not> (0x14 \<le> content_type \<and> content_type \<le> 0x19) then False else data ! 1 = 0xFE)"

definition is_rtp :: "bytes \<Rightarrow> bool" where
  "is_rtp data =
    (if length data < 2 then False
     else if is_dtls data then False
     else let pt = data ! 1 AND 0x7F in \<not> (64 \<le> pt \<and> pt < 96))"

text \<open>The attribute loop of \<open>extract_stun_ufrags\<close>; \<open>stop\<close> is \<open>20 + msg_len\<close>.\<close>

function extract_loop :: "bytes \<Rightarrow> nat \<Rightarrow> nat \<Rightarrow> (rstring \<times> rstring) option" where
  "extract_loop data stop offset =
    (if offset + 4 \<le> stop then
       let attr_type = u16_be (data ! offset) (data ! (offset + 1));
           attr_len = unat (u16_be (data ! (offset + 2)) (data ! (offset + 3)));
           continue = extract_loop data stop (offset + (4 + pad4 attr_len))
       in if offset + 4 + attr_len > length data then None
          else if attr_type = 0x0006 then
            (case from_utf8 (take attr_len (drop (offset + 4) data)) of
               None \<Rightarrow> continue
             | Some user \<Rightarrow>
                (case split_once COLON user of
                   Some (remote, local) \<Rightarrow> Some (remote, local)
                 | None \<Rightarrow> continue))
          else continue
     else None)"
  by pat_completeness auto
termination
  by (relation "measure (\<lambda>(data, stop, offset). stop - offset)") auto

declare extract_loop.simps [simp del]

definition extract_stun_ufrags :: "bytes \<Rightarrow> (rstring \<times> rstring) option" where
  "extract_stun_ufrags data =
    (if length data < 20 then None
     else
       let msg_len = unat (u16_be (data ! 2) (data ! 3))
       in if length data < 20 + msg_len then None
          else extract_loop data (20 + msg_len) 20)"

record delivery =
  dl_id :: allocation_id
  dl_client_addr :: socket_addr
  dl_channel :: "channel option"

definition snapshot_peer_deliveries ::
  "u64 \<Rightarrow> alloc_table \<Rightarrow> allocation_id list \<Rightarrow> socket_addr \<Rightarrow> bool \<Rightarrow> bool \<Rightarrow> delivery list" where
  "snapshot_peer_deliveries now t candidates peer_addr skip_same_ip use_channels =
    List.map_filter
      (\<lambda>i. case table_get t i of
             None \<Rightarrow> None
           | Some alloc \<Rightarrow>
               if \<not> is_permitted now alloc (sa_ip peer_addr) then None
               else if skip_same_ip \<and> sa_ip (client_addr alloc) = sa_ip peer_addr then None
               else Some \<lparr>dl_id = i, dl_client_addr = client_addr alloc,
                 dl_channel = (if use_channels then channel_for_peer now alloc peer_addr else None)\<rparr>)
      candidates"

definition has_channel :: "u64 \<Rightarrow> alloc_table \<Rightarrow> socket_addr \<Rightarrow> allocation_id \<Rightarrow> bool" where
  "has_channel now t peer_addr i \<longleftrightarrow>
    (case table_get t i of Some a \<Rightarrow> channel_for_peer now a peer_addr \<noteq> None | None \<Rightarrow> False)"

definition has_known :: "u64 \<Rightarrow> alloc_table \<Rightarrow> socket_addr \<Rightarrow> allocation_id \<Rightarrow> bool" where
  "has_known now t peer_addr i \<longleftrightarrow>
    (case table_get t i of
       Some a \<Rightarrow> channel_for_peer now a peer_addr = None \<and> dm_get (known_peers a) peer_addr \<noteq> None
     | None \<Rightarrow> False)"

definition narrow_peer_candidates ::
  "u64 \<Rightarrow> alloc_table \<Rightarrow> allocation_id list \<Rightarrow> socket_addr \<Rightarrow> allocation_id list" where
  "narrow_peer_candidates now t candidates peer_addr =
    (let with_channel = filter (has_channel now t peer_addr) candidates;
         with_known = filter (has_known now t peer_addr) candidates
     in if with_channel \<noteq> [] then with_channel
        else if with_known \<noteq> [] then with_known
        else candidates)"

definition send_channel_data ::
  "env \<Rightarrow> channel \<Rightarrow> bytes \<Rightarrow> socket_addr \<Rightarrow> (world \<Rightarrow> result) \<Rightarrow> world \<Rightarrow> result" where
  "send_channel_data e chan data client k w =
    (let padding = (4 - ((4 + length data) mod 4)) mod 4;
         packet = be16 chan @ be16 (word_of_nat (length data)) @ data @ replicate padding 0
     in send_then e packet client k w)"

definition send_data_indication ::
  "env \<Rightarrow> socket_addr \<Rightarrow> bytes \<Rightarrow> socket_addr \<Rightarrow> (world \<Rightarrow> result) \<Rightarrow> world \<Rightarrow> result" where
  "send_data_indication e peer_addr data client k w =
    (let (txn, w) = draw e w in send_then e (engine_data_indication txn peer_addr data) client k w)"

definition deliver ::
  "env \<Rightarrow> delivery \<Rightarrow> socket_addr \<Rightarrow> bytes \<Rightarrow> (world \<Rightarrow> result) \<Rightarrow> world \<Rightarrow> result" where
  "deliver e d peer_addr data k w =
    (case dl_channel d of
       Some chan \<Rightarrow> send_channel_data e chan data (dl_client_addr d) k w
     | None \<Rightarrow> send_data_indication e peer_addr data (dl_client_addr d) k w)"

definition engine_touch :: "env \<Rightarrow> allocation_id \<Rightarrow> world \<Rightarrow> world" where
  "engine_touch e i w = upd_table (with_alloc i (touch (en_now e))) w"

definition touch_relay :: "env \<Rightarrow> allocation_id \<Rightarrow> bool \<Rightarrow> world \<Rightarrow> world" where
  "touch_relay e i relayed w =
    upd_table (with_alloc i (if relayed then touch_relay_success (en_now e)
                             else touch_relay_attempt (en_now e))) w"

definition sender_ufrags :: "alloc_table \<Rightarrow> allocation_id \<Rightarrow> rstring option \<times> rstring option" where
  "sender_ufrags t i =
    (case table_get t i of
       Some a \<Rightarrow> (get_ice_ufrag a, get_ice_remote_ufrag a) | None \<Rightarrow> (None, None))"

text \<open>\<open>for d in deliveries { self.deliver(&d, peer, data).await?; self.touch(d.id) }\<close>.\<close>

fun deliver_all ::
  "env \<Rightarrow> delivery list \<Rightarrow> socket_addr \<Rightarrow> bytes \<Rightarrow> (world \<Rightarrow> result) \<Rightarrow> world \<Rightarrow> result" where
  "deliver_all e [] peer_addr data k w = k w"
| "deliver_all e (d # ds) peer_addr data k w =
    deliver e d peer_addr data
      (\<lambda>w. deliver_all e ds peer_addr data k (engine_touch e (dl_id d) w)) w"

subsection \<open>From peers to clients\<close>

definition handle_peer_data :: "env \<Rightarrow> bytes \<Rightarrow> socket_addr \<Rightarrow> world \<Rightarrow> result" where
  "handle_peer_data e data peer_addr w =
    (let (candidates, is_unique) = lookup_by_peer_addr (w_table w) peer_addr
     in if candidates = [] then ok w
        else
          let w = (if is_unique
                   then upd_table (register_peer_tuple (en_now e) (hd candidates) peer_addr) w else w);
              deliveries = snapshot_peer_deliveries (en_now e) (w_table w) candidates peer_addr True True
          in deliver_all e deliveries peer_addr data ok w)"

definition handle_rtp :: "env \<Rightarrow> u32 \<Rightarrow> bytes \<Rightarrow> socket_addr \<Rightarrow> world \<Rightarrow> result" where
  "handle_rtp e ssrc data peer_addr w =
    (let (candidates, is_unique) = lookup_by_peer_addr (w_table w) peer_addr
     in if candidates = [] then ok w
        else if is_unique then
          let w = upd_table (register_peer_tuple (en_now e) (hd candidates) peer_addr) w;
              deliveries = snapshot_peer_deliveries (en_now e) (w_table w) candidates peer_addr False True
          in deliver_all e deliveries peer_addr data ok w
        else
          let narrowed = narrow_peer_candidates (en_now e) (w_table w) candidates peer_addr;
              w = (if length narrowed = 1
                   then upd_table (register_peer_tuple (en_now e) (hd narrowed) peer_addr) w else w);
              deliveries = snapshot_peer_deliveries (en_now e) (w_table w) narrowed peer_addr True True
          in deliver_all e deliveries peer_addr data ok w)"

text \<open>
  RTCP and DTLS share their body but for the last argument: DTLS never uses a channel.
\<close>

definition choose_and_deliver :: "env \<Rightarrow> bool \<Rightarrow> bytes \<Rightarrow> socket_addr \<Rightarrow> world \<Rightarrow> result" where
  "choose_and_deliver e use_channels data peer_addr w =
    (let (candidates, is_unique) = lookup_by_peer_addr (w_table w) peer_addr
     in if candidates = [] then ok w
        else
          let chosen = (if is_unique then candidates
                        else narrow_peer_candidates (en_now e) (w_table w) candidates peer_addr);
              w = (if is_unique \<or> length chosen = 1
                   then upd_table (register_peer_tuple (en_now e) (hd chosen) peer_addr) w else w);
              deliveries =
                snapshot_peer_deliveries (en_now e) (w_table w) chosen peer_addr True use_channels
          in deliver_all e deliveries peer_addr data ok w)"

definition handle_rtcp :: "env \<Rightarrow> bytes \<Rightarrow> socket_addr \<Rightarrow> world \<Rightarrow> result" where
  "handle_rtcp e data peer_addr w = choose_and_deliver e True data peer_addr w"

definition handle_dtls :: "env \<Rightarrow> bytes \<Rightarrow> socket_addr \<Rightarrow> world \<Rightarrow> result" where
  "handle_dtls e data peer_addr w = choose_and_deliver e False data peer_addr w"

subsection \<open>ChannelData from clients\<close>

definition relay_to_listeners ::
  "env \<Rightarrow> bytes \<Rightarrow> socket_addr \<Rightarrow> allocation_id list \<Rightarrow> (bool \<Rightarrow> world \<Rightarrow> result) \<Rightarrow> world \<Rightarrow> result" where
  "relay_to_listeners e data src listeners k w =
    (let deliveries = List.map_filter
           (\<lambda>i. case table_get (w_table w) i of
                  None \<Rightarrow> None
                | Some t \<Rightarrow>
                    if client_addr t = src then None
                    else Some \<lparr>dl_id = i, dl_client_addr = client_addr t,
                      dl_channel = channel_for_peer (en_now e) t (relay_addr e)\<rparr>)
           listeners
     in deliver_all e deliveries (relay_addr e) data (k (deliveries \<noteq> [])) w)"

text \<open>The target of an ICE check, by the fragment it is addressed to (\<open>Try 1\<close>).\<close>

definition check_target :: "env \<Rightarrow> alloc_table \<Rightarrow> socket_addr \<Rightarrow> rstring \<Rightarrow> delivery option" where
  "check_target e t src remote_ufrag =
    (case lookup_by_ice_ufrag t remote_ufrag of
       None \<Rightarrow> None
     | Some target_id \<Rightarrow>
        (case table_get t target_id of
           None \<Rightarrow> None
         | Some target \<Rightarrow>
             if client_addr target = src then None
             else Some \<lparr>dl_id = target_id, dl_client_addr = client_addr target,
               dl_channel = channel_for_peer (en_now e) target (relay_addr e)\<rparr>))"

text \<open>\<open>Try 2\<close>: the partner of the sender's own ICE pair, read afresh.\<close>

definition ice_partners :: "alloc_table \<Rightarrow> allocation_id \<Rightarrow> allocation_id list" where
  "ice_partners t i =
    (case sender_ufrags t i of
       (Some l, Some r) \<Rightarrow> find_ice_peers t l r | _ \<Rightarrow> [])"

definition channel_stun ::
  "env \<Rightarrow> allocation_id \<Rightarrow> bytes \<Rightarrow> socket_addr \<Rightarrow> (world \<Rightarrow> result) \<Rightarrow> world \<Rightarrow> result" where
  "channel_stun e i data src k w =
    (let try_pair = (\<lambda>w. let peers = ice_partners (w_table w) i
                         in if peers \<noteq> [] then relay_to_listeners e data src peers (\<lambda>_. k) w else k w)
     in case extract_stun_ufrags data of
          Some (remote_ufrag, local_ufrag) \<Rightarrow>
            let w = upd_table (\<lambda>t. snd (register_ice_ufrags i local_ufrag remote_ufrag t)) w
            in (case check_target e (w_table w) src remote_ufrag of
                  Some d \<Rightarrow> deliver e d (relay_addr e) data (\<lambda>w. k (engine_touch e (dl_id d) w)) w
                | None \<Rightarrow> try_pair w)
        | None \<Rightarrow> try_pair w)"

definition channel_media ::
  "env \<Rightarrow> allocation_id \<Rightarrow> bytes \<Rightarrow> socket_addr \<Rightarrow> (world \<Rightarrow> result) \<Rightarrow> world \<Rightarrow> result" where
  "channel_media e i data src k w =
    (let peers = ice_partners (w_table w) i
     in if peers = [] then k (touch_relay e i False w)
        else relay_to_listeners e data src peers (\<lambda>relayed w. k (touch_relay e i relayed w)) w)"

definition channel_direct ::
  "env \<Rightarrow> bytes \<Rightarrow> socket_addr \<Rightarrow> socket_addr \<Rightarrow> (world \<Rightarrow> result) \<Rightarrow> world \<Rightarrow> result" where
  "channel_direct e data src peer_addr k w =
    (if peer_addr = src then ok w
     else case get_by_client (w_table w) peer_addr of
       Some t \<Rightarrow>
         let d = \<lparr>dl_id = alloc_id t, dl_client_addr = client_addr t,
                  dl_channel = channel_for_peer (en_now e) t src\<rparr>
         in if \<not> is_permitted (en_now e) t (ext_ip e) then ok w
            else deliver e d src data (\<lambda>w. k (engine_touch e (dl_id d) w)) w
     | None \<Rightarrow>
         if is_forbidden_peer_addr (en_cfg e) peer_addr then ok w
         else send_then e data peer_addr k w)"

definition handle_channel_data :: "env \<Rightarrow> channel \<Rightarrow> bytes \<Rightarrow> socket_addr \<Rightarrow> world \<Rightarrow> result" where
  "handle_channel_data e chan data src w =
    (case get_by_client (w_table w) src of
       None \<Rightarrow> ok w
     | Some alloc \<Rightarrow>
        (case peer_for_channel (en_now e) alloc chan of
           None \<Rightarrow> ok w
         | Some peer_addr \<Rightarrow>
             if \<not> is_permitted (en_now e) alloc (sa_ip peer_addr) then ok w
             else
               let i = alloc_id alloc;
                   touch_sender = (\<lambda>w. ok (upd_table (with_alloc i (touch_received (en_now e))) w))
               in if peer_addr = relay_addr e then
                    (if is_stun data then channel_stun e i data src touch_sender w
                     else channel_media e i data src touch_sender w)
                  else channel_direct e data src peer_addr touch_sender w))"

section \<open>Lemmas\<close>

text \<open>
  They agree with the demultiplexer: what looks like DTLS is classified as DTLS, and neither that nor
  a valid RTCP packet counts as RTP.
\<close>

lemma log_heuristics:
  "is_dtls data \<Longrightarrow> classify data = Dtls data \<and> \<not> is_rtp data"
  "classify data = Rtcp d \<Longrightarrow> \<not> is_rtp data"
proof -
  show "is_dtls data \<Longrightarrow> classify data = Dtls data \<and> \<not> is_rtp data"
    by (cases data) (auto simp: is_dtls_def is_rtp_def classify_def Let_def word_le_nat_alt split: if_splits)
  assume "classify data = Rtcp d"
  then have "200 \<le> data ! 1" "data ! 1 \<le> 204"
    by (auto simp: classify_def parse_stun_def parse_channel_data_def Let_def dest: parse_rtp_rtcp_cases(1)
        split: list.splits if_splits option.splits)
  moreover have "unat (data ! 1 AND 0x7F) = unat (data ! 1) mod 128"
  proof -
    have "data ! 1 AND 0x7F = take_bit 7 (data ! 1)" by (simp add: take_bit_eq_mask mask_eq_exp_minus_1)
    then show ?thesis by (simp add: take_bit_eq_mod unat_mod)
  qed
  moreover define k where "k = unat (data ! 1) - 128"
  ultimately have "unat (data ! 1 AND 0x7F) = (k + 128) mod 128" "72 \<le> k" "k \<le> 76"
    by (simp_all add: word_le_nat_alt)
  then have "72 \<le> unat (data ! 1 AND 0x7F) \<and> unat (data ! 1 AND 0x7F) \<le> 76" by simp
  then show "\<not> is_rtp data" by (simp add: is_rtp_def Let_def word_le_nat_alt word_less_nat_alt)
qed

lemma narrow_subset: "set (narrow_peer_candidates now t cs p) \<subseteq> set cs"
  by (auto simp: narrow_peer_candidates_def Let_def)

lemma narrow_nonempty: "cs \<noteq> [] \<Longrightarrow> narrow_peer_candidates now t cs p \<noteq> []"
  by (simp add: narrow_peer_candidates_def Let_def)

lemma candidates_live:
  assumes "table_inv t" "i \<in> set (fst (lookup_by_peer_addr t p))"
  shows "dm_get (allocations t) i \<noteq> None"
proof (cases "dm_get (by_peer_tuple t) p")
  case None
  then have "i \<in> set (lookup_by_peer_ip t (sa_ip p))"
    using assms(2) by (simp add: lookup_by_peer_addr_def Let_def)
  then show ?thesis
    using table_inv_permission [OF assms(1)] by (auto simp: holds_permission_def split: option.splits)
next
  case (Some j)
  then show ?thesis using assms table_inv_tuple [OF assms(1) Some] by (auto simp: lookup_by_peer_addr_def)
qed

lemma unique_candidate:
  "snd (lookup_by_peer_addr t p) \<Longrightarrow> \<exists>i. fst (lookup_by_peer_addr t p) = [i]"
  by (auto simp: lookup_by_peer_addr_def Let_def length_Suc_conv split: option.splits)

context lease_state
begin

lemma holds_deliver:
  "holds w \<Longrightarrow> (\<And>w. holds w \<Longrightarrow> holds (snd (k w))) \<Longrightarrow> holds (snd (deliver e d p data k w))"
  by (simp add: deliver_def send_channel_data_def send_data_indication_def Let_def case_prod_unfold
      holds_send_then split: option.splits)

lemma holds_engine_touch: "holds w \<Longrightarrow> holds (engine_touch e i w)"
  by (simp add: engine_touch_def holds_update light_updates(1))

lemma holds_touch_relay: "holds w \<Longrightarrow> holds (touch_relay e i b w)"
  by (cases b) (simp_all add: touch_relay_def holds_update light_updates(3,4))

lemma holds_deliver_all:
  "holds w \<Longrightarrow> (\<And>w. holds w \<Longrightarrow> holds (snd (k w))) \<Longrightarrow> holds (snd (deliver_all e ds p data k w))"
  by (induction ds arbitrary: w) (simp_all add: holds_deliver holds_engine_touch)

lemma holds_tuple:
  assumes "holds w" "i \<in> set (fst (lookup_by_peer_addr (w_table w) p))"
  shows "holds (upd_table (register_peer_tuple now i p') w)"
proof -
  have "table_inv (w_table w)" using assms(1) keep_table by (simp add: holds_def)
  then show ?thesis using assms keep_tuple candidates_live by (auto simp: holds_def)
qed

lemma holds_tuple_hd:
  assumes "holds w" "cs \<noteq> []" "set cs \<subseteq> set (fst (lookup_by_peer_addr (w_table w) p))"
  shows "holds (upd_table (register_peer_tuple now (hd cs) p') w)"
  using assms holds_tuple [of w "hd cs" p] by (meson hd_in_set subsetD)

lemma holds_peer_data: "holds w \<Longrightarrow> holds (snd (handle_peer_data e data p w))"
  using holds_tuple_hd [of w "fst (lookup_by_peer_addr (w_table w) p)" p]
  by (auto simp: handle_peer_data_def Let_def case_prod_unfold intro!: holds_deliver_all)

lemma holds_rtp: "holds w \<Longrightarrow> holds (snd (handle_rtp e ssrc data p w))"
  using holds_tuple_hd [of w "fst (lookup_by_peer_addr (w_table w) p)" p]
    holds_tuple_hd [of w "narrow_peer_candidates (en_now e) (w_table w) (fst (lookup_by_peer_addr (w_table w) p)) p" p]
    narrow_subset narrow_nonempty
  by (auto simp: handle_rtp_def Let_def case_prod_unfold intro!: holds_deliver_all)

lemma holds_choose:
  assumes "holds w"
  shows "holds (snd (choose_and_deliver e b data p w))"
proof (cases "lookup_by_peer_addr (w_table w) p")
  case (Pair cs u)
  define chosen where "chosen = (if u then cs else narrow_peer_candidates (en_now e) (w_table w) cs p)"
  have "set chosen \<subseteq> set cs" "cs \<noteq> [] \<Longrightarrow> chosen \<noteq> []"
    using narrow_subset narrow_nonempty by (simp_all add: chosen_def)
  then have "cs \<noteq> [] \<Longrightarrow> holds (upd_table (register_peer_tuple (en_now e) (hd chosen) p) w)"
    using holds_tuple_hd [OF assms, of chosen p] Pair by simp
  then show ?thesis
    using Pair assms
    by (auto simp: choose_and_deliver_def Let_def chosen_def [symmetric] intro!: holds_deliver_all)
qed

lemma holds_listeners:
  "holds w \<Longrightarrow> (\<And>b w. holds w \<Longrightarrow> holds (snd (k b w))) \<Longrightarrow>
    holds (snd (relay_to_listeners e data src ls k w))"
  by (simp add: relay_to_listeners_def Let_def holds_deliver_all)

lemma holds_channel_stun:
  assumes "holds w" "\<And>w. holds w \<Longrightarrow> holds (snd (k w))"
  shows "holds (snd (channel_stun e i data src k w))"
  by (simp add: channel_stun_def Let_def holds_register holds_engine_touch assms
      holds_listeners holds_deliver split: option.split)

lemma holds_channel_media:
  assumes "holds w" "\<And>w. holds w \<Longrightarrow> holds (snd (k w))"
  shows "holds (snd (channel_media e i data src k w))"
  by (simp add: channel_media_def Let_def holds_touch_relay assms holds_listeners)

lemma holds_channel_direct:
  assumes "holds w" "\<And>w. holds w \<Longrightarrow> holds (snd (k w))"
  shows "holds (snd (channel_direct e data src p k w))"
  by (simp add: channel_direct_def Let_def holds_engine_touch assms holds_deliver holds_send_then
      split: option.split)

lemma holds_channel_data:
  assumes "holds w"
  shows "holds (snd (handle_channel_data e chan data src w))"
proof -
  have "holds (upd_table (with_alloc i (touch_received now)) w)" if "holds w" for i now w
    by (rule holds_update [OF that light_updates(2)])
  then show ?thesis
    using assms
    by (auto simp: handle_channel_data_def Let_def
        intro!: holds_channel_stun holds_channel_media holds_channel_direct split: option.splits)
qed

end

end
