(* ===== verification/Server.thy ===== *)
theory Server
  imports Engine Demux Coarse_Time
begin

text \<open>
  The server, \<open>src/server.rs\<close>: the dispatch of one datagram, the relaying of a client's raw data
  along its ICE pair, the periodic cleanup, and the runs these two tasks produce. A run is a list of
  events, newest first; every event carries the environment it met.
\<close>

section \<open>Definitions\<close>

definition CLEANUP_INTERVAL_SECS :: u64 where "CLEANUP_INTERVAL_SECS = 2"
definition INACTIVITY_TIMEOUT_SECS :: u64 where "INACTIVITY_TIMEOUT_SECS = 45"

text \<open>What \<open>Server::new\<close> builds besides the socket.\<close>

definition server_new :: "config \<Rightarrow> world" where
  "server_new cfg =
    \<lparr>w_table = new_table,
     w_limiter = new_rate_limiter (cfg_rate_limit_per_minute cfg) (cfg_max_allocations_per_ip cfg),
     w_sent = [], w_sends = 0, w_rands = 0\<rparr>"

text \<open>The server's own copy of the engine's bookkeeping of a relay attempt.\<close>

definition server_touch_relay :: "env \<Rightarrow> allocation_id \<Rightarrow> bool \<Rightarrow> world \<Rightarrow> world" where
  "server_touch_relay e i relayed w =
    upd_table (with_alloc i (if relayed then touch_relay_success (en_now e)
                             else touch_relay_attempt (en_now e))) w"

text \<open>The loop over the snapshot of targets: send, then touch the target.\<close>

fun relay_targets ::
  "env \<Rightarrow> bytes \<Rightarrow> (allocation_id \<times> socket_addr) list \<Rightarrow> (world \<Rightarrow> result) \<Rightarrow> world \<Rightarrow> result" where
  "relay_targets e indication [] k w = k w"
| "relay_targets e indication ((i, addr) # ts) k w =
    send_then e indication addr
      (\<lambda>w. relay_targets e indication ts k (upd_table (with_alloc i (touch (en_now e))) w)) w"

definition client_targets ::
  "env \<Rightarrow> alloc_table \<Rightarrow> socket_addr \<Rightarrow> allocation_id list \<Rightarrow> (allocation_id \<times> socket_addr) list" where
  "client_targets e t src peers =
    List.map_filter
      (\<lambda>i. case table_get t i of
             None \<Rightarrow> None
           | Some target \<Rightarrow>
               if client_addr target = src \<or> \<not> is_permitted (en_now e) target (ext_ip e) then None
               else Some (i, client_addr target))
      peers"

definition relay_client_data :: "env \<Rightarrow> bytes \<Rightarrow> socket_addr \<Rightarrow> world \<Rightarrow> result" where
  "relay_client_data e data src w =
    (case get_by_client (w_table w) src of
       None \<Rightarrow> ok w
     | Some alloc \<Rightarrow>
        if \<not> is_permitted (en_now e) alloc (ext_ip e) then ok w
        else
          let peers = (case (get_ice_ufrag alloc, get_ice_remote_ufrag alloc) of
                         (Some l, Some r) \<Rightarrow> find_ice_peers (w_table w) l r | _ \<Rightarrow> [])
          in if peers = [] then ok (server_touch_relay e (alloc_id alloc) False w)
             else
               let targets = client_targets e (w_table w) src peers;
                   (txn, w) = draw e w
               in relay_targets e (server_data_indication txn (relay_addr e) data) targets
                    (\<lambda>w. ok (server_touch_relay e (alloc_id alloc) (targets \<noteq> []) w)) w)"

text \<open>\<open>if !candidates.is_empty()\<close> before each of the engine's handlers for peers.\<close>

definition is_known_peer :: "alloc_table \<Rightarrow> socket_addr \<Rightarrow> bool" where
  "is_known_peer t src \<longleftrightarrow> fst (lookup_by_peer_addr t src) \<noteq> []"

definition handle_packet :: "env \<Rightarrow> bytes \<Rightarrow> socket_addr \<Rightarrow> world \<Rightarrow> result" where
  "handle_packet e data src w =
    (let client = is_client (w_table w) src; known = is_known_peer (w_table w) src
     in case classify data of
          Stun msg \<Rightarrow> handle_stun e msg src w
        | TurnChannelData channel payload \<Rightarrow> handle_channel_data e channel payload src w
        | Rtp ssrc payload \<Rightarrow>
            if client then relay_client_data e payload src w
            else if known then handle_rtp e ssrc payload src w else ok w
        | Rtcp payload \<Rightarrow>
            if client then relay_client_data e payload src w
            else if known then handle_rtcp e payload src w else ok w
        | Dtls payload \<Rightarrow>
            if client then relay_client_data e payload src w
            else if known then handle_dtls e payload src w else ok w
        | Unknown \<Rightarrow>
            if client then relay_client_data e data src w
            else if known then handle_peer_data e data src w else ok w)"

text \<open>One of the three sweeps of the cleanup task, and the release of the quota it frees.\<close>

definition sweep_and_release :: "(alloc_table \<Rightarrow> ip_addr list \<times> alloc_table) \<Rightarrow> world \<Rightarrow> world" where
  "sweep_and_release sweep w =
    (let (ips, t) = sweep (w_table w)
     in w\<lparr>w_table := t, w_limiter := foldl record_deallocation (w_limiter w) ips\<rparr>)"

definition cleanup_tick :: "env \<Rightarrow> world \<Rightarrow> world" where
  "cleanup_tick e w =
    (let now = en_now e;
         w = sweep_and_release (cleanup_expired now) w;
         w = sweep_and_release (cleanup_inactive now INACTIVITY_TIMEOUT_SECS) w;
         w = sweep_and_release (cleanup_orphaned_senders now INACTIVITY_TIMEOUT_SECS) w;
         w = upd_table (cleanup_channel_bindings now) w;
         w = upd_table (cleanup_permissions now) w
     in upd_limiter (limiter_cleanup (en_instant e)) w)"

text \<open>
  The receive loop logs a failed handler and goes on, so a datagram always leads to the world its
  handler left. The two tasks interleave between datagrams.
\<close>

datatype event = Packet env bytes socket_addr | Tick env

fun event_env :: "event \<Rightarrow> env" where
  "event_env (Packet e data src) = e"
| "event_env (Tick e) = e"

inductive step :: "event \<Rightarrow> world \<Rightarrow> world \<Rightarrow> bool" where
  packet: "handle_packet e data src w = (res, w') \<Longrightarrow> step (Packet e data src) w w'"
| tick: "step (Tick e) w (cleanup_tick e w)"

inductive run :: "config \<Rightarrow> event list \<Rightarrow> world \<Rightarrow> bool" for cfg where
  start: "run cfg [] (server_new cfg)"
| event: "run cfg evs w \<Longrightarrow> en_cfg (event_env ev) = cfg \<Longrightarrow> step ev w w' \<Longrightarrow> run cfg (ev # evs) w'"

inductive_simps step_simps: "step (Packet e data src) w w'" "step (Tick e) w w'"

inductive_cases run_ConsE: "run cfg (ev # evs) w"

section \<open>Lemmas\<close>

lemma step_function:
  "step ev w w' \<longleftrightarrow> w' = (case ev of Packet e data src \<Rightarrow> snd (handle_packet e data src w) | Tick e \<Rightarrow> cleanup_tick e w)"
  by (cases ev) (auto simp: step_simps prod_eq_iff)

context lease_state
begin

lemma holds_relay_targets:
  "holds w \<Longrightarrow> (\<And>w. holds w \<Longrightarrow> holds (snd (k w))) \<Longrightarrow> holds (snd (relay_targets e p ts k w))"
  by (induction ts arbitrary: w) (auto simp: holds_send_then holds_update light_updates(1))

lemma holds_server_touch: "holds w \<Longrightarrow> holds (server_touch_relay e i b w)"
  by (cases b) (simp_all add: server_touch_relay_def holds_update light_updates(3,4))

lemma holds_client_data: "holds w \<Longrightarrow> holds (snd (relay_client_data e data src w))"
  by (simp add: relay_client_data_def Let_def case_prod_unfold holds_relay_targets holds_server_touch
      split: option.split)

lemma holds_packet_from_stun:
  assumes "holds w" "\<And>msg. classify data = Stun msg \<Longrightarrow> holds (snd (handle_stun e msg src w))"
  shows "holds (snd (handle_packet e data src w))"
  using assms
  by (simp add: handle_packet_def Let_def handle_rtcp_def handle_dtls_def holds_client_data holds_rtp
      holds_choose holds_peer_data holds_channel_data split: packet_type.split)

end

context lease_sweeps
begin

lemma holds_sweep:
  "holds w \<Longrightarrow> holds (sweep_and_release (retain_unless Q) w)"
  using keep_retain by (simp add: sweep_and_release_def holds_def case_prod_unfold Let_def)

lemma holds_tick:
  assumes "holds w"
  shows "holds (cleanup_tick e w)"
proof -
  have "holds (upd_table (cleanup_channel_bindings now) w)" "holds (upd_table (cleanup_permissions now) w)"
    "holds (upd_limiter (limiter_cleanup ins) w)" if "holds w" for now ins w
    using that keep_sweep_channels keep_sweep_permissions keep_limiter by (simp_all add: holds_def)
  then show ?thesis
    using assms
    by (simp add: cleanup_tick_def Let_def holds_sweep
        cleanup_expired_def [abs_def] cleanup_inactive_def [abs_def] cleanup_orphaned_senders_def [abs_def])
qed

end

context packet_invariant
begin

lemma holds_packet:
  "holds w \<Longrightarrow> id_counter (w_table w) + 1 < 2 ^ 64 \<Longrightarrow> holds (snd (handle_packet e data src w))"
  by (simp add: holds_packet_from_stun holds_stun)

end

end
