(* ===== verification/Requests.thy ===== *)
theory Requests
  imports Handler
begin

text \<open>
  What the TURN requests guarantee: which requests authenticate, that a request which does not
  changes nothing, and the effect of Allocate, Refresh, CreatePermission and ChannelBind on every
  branch.
\<close>

section \<open>Lemmas\<close>

lemma find_key:
  "find P (map f xs) = Some k \<Longrightarrow> \<exists>x \<in> set xs. k = f x \<and> P k"
  by (auto simp: find_Some_iff intro: nth_mem)

definition credential_ok :: "env \<Rightarrow> stun_info \<Rightarrow> rstring \<Rightarrow> bytes \<Rightarrow> bool" where
  "credential_ok e msg user key \<longleftrightarrow>
    (\<exists>nonce mac off. si_username msg = Some user
      \<and> si_nonce msg = Some nonce
      \<and> validate_nonce (en_crypto e) (en_unix e) nonce (cfg_nonce_lifetime_secs (en_cfg e))
          (cfg_nonce_secret (en_cfg e))
      \<and> si_realm msg = Some (cfg_realm (en_cfg e))
      \<and> si_message_integrity msg = Some mac \<and> si_message_integrity_offset msg = Some off
      \<and> (\<exists>password \<in> set (candidate_passwords (en_crypto e) (en_cfg e) user (en_unix e)).
           key = compute_key (en_crypto e) user (cfg_realm (en_cfg e)) password)
      \<and> mac = hmac_sha1 (en_crypto e) key (integrity_input (si_raw msg) off))"

lemma verify_sound:
  assumes "digest_lengths (en_crypto e)" "verify_long_term_credentials e msg = Inr (user, key)"
  shows "credential_ok e msg user key"
  using assms(2) find_key
  by (fastforce simp: verify_long_term_credentials_def credential_ok_def Let_def
      verify_message_integrity_eq [OF assms(1)] compute_message_integrity_def
      split: if_splits option.splits)

lemma verify_complete:
  assumes "digest_lengths (en_crypto e)" "credential_ok e msg user key"
  shows "\<exists>key'. verify_long_term_credentials e msg = Inr (user, key')"
proof -
  let ?ks = "map (compute_key (en_crypto e) user (cfg_realm (en_cfg e)))
      (candidate_passwords (en_crypto e) (en_cfg e) user (en_unix e))"
  obtain mac off where ok: "si_message_integrity msg = Some mac" "si_message_integrity_offset msg = Some off"
    "key \<in> set ?ks" "verify_message_integrity (en_crypto e) (integrity_input (si_raw msg) off) mac key"
    using assms
    by (auto simp: credential_ok_def verify_message_integrity_eq compute_message_integrity_def)
  then have "find (verify_message_integrity (en_crypto e) (integrity_input (si_raw msg) off) mac) ?ks \<noteq> None"
    by (auto simp: find_None_iff)
  then obtain k where "find (verify_message_integrity (en_crypto e) (integrity_input (si_raw msg) off) mac) ?ks = Some k"
    by blast
  then show ?thesis
    using assms(2) ok(1,2) by (auto simp: verify_long_term_credentials_def credential_ok_def Let_def)
qed

text \<open>The answer of a handler that has rejected a request: at most one datagram, to the sender.\<close>

definition only_answers :: "env \<Rightarrow> socket_addr \<Rightarrow> world \<Rightarrow> result \<Rightarrow> bool" where
  "only_answers e src w r \<longleftrightarrow> (\<exists>response. r = reply e response src w)"

lemma only_answers_reply [simp, intro]: "only_answers e src w (reply e p src w)"
  by (auto simp: only_answers_def)

lemma only_answers_frame:
  "only_answers e src w r \<Longrightarrow> w_table (snd r) = w_table w \<and> w_limiter (snd r) = w_limiter w
    \<and> (\<exists>l. length l \<le> 1 \<and> (\<forall>x \<in> set l. snd x = src) \<and> w_sent (snd r) = w_sent w @ l)"
  by (auto simp: only_answers_def attempt_def intro: exI [of _ "[]"])

definition turn_request :: "stun_info \<Rightarrow> bool" where
  "turn_request msg \<longleftrightarrow>
    si_class msg = Request \<and> si_method msg \<in> {Allocate, Refresh, CreatePermission, ChannelBind}"

lemma authenticate_fails:
  assumes "auth_enabled (en_cfg e)"
    and "\<And>user key. verify_long_term_credentials e msg = Inr (user, key) \<Longrightarrow>
      \<exists>a. get_by_client t src = Some a \<and> username a \<noteq> user"
  shows "\<exists>response. authenticate_for_allocation e t msg src = Inl response"
  using assms
  by (auto simp: authenticate_for_allocation_def Let_def split: sum.splits option.splits)

lemma rejected_only_answers:
  assumes "authenticate_for_allocation e (w_table w) msg src = Inl response"
  shows "only_answers e src w (handle_refresh e msg src w)"
    and "only_answers e src w (handle_create_permission e msg src w)"
    and "only_answers e src w (handle_channel_bind e msg src w)"
  using assms
  by (simp_all add: handle_refresh_def handle_create_permission_def handle_channel_bind_def Let_def
      split: option.split list.split)

text \<open>A request as a client with long-term credentials writes it.\<close>

definition signed_request ::
  "crypto \<Rightarrow> u16 \<Rightarrow> bytes \<Rightarrow> rstring \<Rightarrow> rstring \<Rightarrow> rstring \<Rightarrow> bytes \<Rightarrow> bytes" where
  "signed_request c ty txn user realm nonce key =
    stun_msg ty txn (sign_attrs c (Some key) ty txn [(0x0006, user), (0x0014, realm), (0x0015, nonce)])"

lemma match_username:
  "length v \<le> 513 \<Longrightarrow> match_attr 0x0006 v t off r = r\<lparr>pa_username := from_utf8 v\<rparr>" "\<not> stops_loop 0x0006 v"
  by (simp_all add: match_attr_def stops_loop_def attr_consts MAX_USERNAME_LEN_def)

lemma signed_request_accepted:
  assumes "digest_lengths (en_crypto e)" "length txn = 12" "class_of ty = Some Request" "unat ty < 1024"
    and "utf8_valid user" "length user \<le> 513"
    and "utf8_valid (cfg_realm (en_cfg e))" "length (cfg_realm (en_cfg e)) \<le> 763"
    and "ts < 2 ^ 64" "ts \<le> en_unix e" "en_unix e - ts < cfg_nonce_lifetime_secs (en_cfg e)"
    and "password \<in> set (candidate_passwords (en_crypto e) (en_cfg e) user (en_unix e))"
    and "key = compute_key (en_crypto e) user (cfg_realm (en_cfg e)) password"
    and "data = signed_request (en_crypto e) ty txn user (cfg_realm (en_cfg e))
      (generate_nonce (en_crypto e) ts (cfg_nonce_secret (en_cfg e))) key"
  shows "\<exists>msg. classify data = Stun msg \<and> si_class msg = Request \<and> si_method msg = method_of ty
    \<and> si_transaction_id msg = txn \<and> si_requested_transport msg = None \<and> credential_ok e msg user key"
proof -
  let ?realm = "cfg_realm (en_cfg e)" and ?c = "en_crypto e"
  let ?nonce = "generate_nonce ?c ts (cfg_nonce_secret (en_cfg e))"
  let ?as = "[(0x0006, user), (0x0014, ?realm), (0x0015, ?nonce)]"
  note n = generate_nonce_ascii [of ?c ts "cfg_nonce_secret (en_cfg e)"]
  have "length (enc_attrs ?as) + 24 < 65536"
    using assms(6,8) n(2) pad4_bounds(2) [of "length user"] pad4_bounds(2) [of "length ?realm"]
      pad4_bounds(2) [of "length ?nonce"]
    by (simp add: length_enc_attr)
  then obtain info off mi where parsed: "parse_stun_info data = Some info"
    "info = info_of ty Request txn (fold_attrs txn 0 ?as empty_attrs
      \<lparr>pa_message_integrity := Some mi, pa_message_integrity_offset := Some off\<rparr>) data"
    "verify_message_integrity ?c (integrity_input data off) mi key"
    using signed_msg_verifies [OF assms(2,1,3), of ?as data key] assms(6,8,14) n(2)
    by (auto simp: match_attr_skip match_username signed_request_def)
  have "classify data = Stun info"
    using classify_stun_msg [of data ty] parsed(1) assms(2,4,14) stun_msg_type stun_msg_nonempty
    by (simp add: signed_request_def parse_stun_def)
  moreover have "fold_attrs txn 0 ?as empty_attrs = empty_attrs\<lparr>pa_username := Some user,
      pa_realm := Some ?realm, pa_nonce := Some ?nonce\<rparr>"
    using n assms(5-8)
    by (simp add: match_attr_skip match_attr_known match_username Let_def from_utf8_def)
  moreover have "validate_nonce ?c (en_unix e) ?nonce (cfg_nonce_lifetime_secs (en_cfg e)) (cfg_nonce_secret (en_cfg e))"
    using issued_nonce_valid [OF assms(9)] assms(10,11) by blast
  moreover have "mi = hmac_sha1 ?c key (integrity_input data off)"
    using parsed(3) verify_message_integrity_eq [OF assms(1)] by (simp add: compute_message_integrity_def)
  ultimately show ?thesis
    using parsed(2) assms(12,13)
    by (intro exI [of _ info]) (auto simp: info_of_def empty_attrs_def credential_ok_def)
qed

section \<open>Properties\<close>

text \<open>
  C10. Long-term credentials: a request authenticates as a user exactly when it carries that user
  name, a nonce this server issued and that is still fresh, the server's realm, and the HMAC of the
  message under a key derived from one of the user's current passwords; and the key the response
  is signed with is that key.
\<close>

theorem credentials_exact:
  assumes "digest_lengths (en_crypto e)"
  shows "((\<exists>key. verify_long_term_credentials e msg = Inr (user, key)) \<longleftrightarrow> (\<exists>key. credential_ok e msg user key))
    \<and> (\<forall>key. verify_long_term_credentials e msg = Inr (user, key) \<longrightarrow> credential_ok e msg user key)"
  using verify_sound [OF assms] verify_complete [OF assms] by blast

text \<open>
  C11. Authentication comes first: with credentials configured, an Allocate, Refresh,
  CreatePermission or ChannelBind request that does not authenticate leaves the allocation table and
  the rate limiter exactly as they were, and the server sends at most one datagram, to its sender.
  The same holds for a request that authenticates as somebody else than the owner of the allocation
  at its address: for Refresh, CreatePermission and ChannelBind always, for Allocate while that
  allocation has not expired (an expired one is removed by any authenticated Allocate).
\<close>

theorem unauthorized_changes_nothing:
  assumes "auth_enabled (en_cfg e)" "turn_request msg"
    and "(\<exists>response. verify_long_term_credentials e msg = Inl response)
      \<or> (\<exists>user key a. verify_long_term_credentials e msg = Inr (user, key)
        \<and> get_by_client (w_table w) src = Some a \<and> username a \<noteq> user
        \<and> (si_method msg = Allocate \<longrightarrow> \<not> is_expired (en_now e) a))"
  shows "case handle_stun e msg src w of (res, w') \<Rightarrow>
    w_table w' = w_table w \<and> w_limiter w' = w_limiter w
    \<and> (\<exists>l. length l \<le> 1 \<and> (\<forall>x \<in> set l. snd x = src) \<and> w_sent w' = w_sent w @ l)"
proof -
  obtain r where "authenticate_for_allocation e (w_table w) msg src = Inl r"
    using authenticate_fails [OF assms(1), of msg "w_table w" src] assms(3) by auto
  moreover have "only_answers e src w (handle_allocate e msg src w)" if "si_method msg = Allocate"
    using assms that by (auto simp: handle_allocate_def Let_def)
  ultimately have "only_answers e src w (handle_stun e msg src w)"
    using assms(2) rejected_only_answers by (auto simp: turn_request_def handle_stun_def)
  from only_answers_frame [OF this] show ?thesis by (simp add: case_prod_unfold)
qed

section \<open>Effects on the requesting client\<close>

lemma try_add_by_client:
  assumes "table_inv t" "get_by_client t src = Some a"
  shows "if permissions_count now a + length (new_ips now a ips) > cap
    then try_add_permissions_capped now (alloc_id a) ips cap t = (False, t)
    else \<exists>t'. try_add_permissions_capped now (alloc_id a) ips cap t = (True, t')
      \<and> table_inv t' \<and> by_client t' = by_client t
      \<and> (\<forall>c. get_by_client t' c =
          (if c = src then Some (fold (alloc_add_permission now) ips a) else get_by_client t c))"
proof -
  have a: "dm_get (allocations t) (alloc_id a) = Some a" "dm_get (by_client t) src = Some (alloc_id a)"
    using get_by_client_id [OF assms] by auto
  let ?t = "fold (index_permission (alloc_id a)) ips (with_alloc (alloc_id a) (fold (alloc_add_permission now) ips) t)"
  have "c \<noteq> src \<Longrightarrow> dm_get (by_client t) c \<noteq> Some (alloc_id a)" for c
    using table_inv_client [OF assms(1), of c "alloc_id a"] table_inv_client [OF assms(1), of src "alloc_id a"] a
    by auto
  then have "get_by_client ?t c =
      (if c = src then Some (fold (alloc_add_permission now) ips a) else get_by_client t c)" for c
    using a by (cases "c = src") (auto simp: get_by_client_def fold_index split: option.splits)
  then show ?thesis
    using a grant_inv [OF assms(1) a(1)]
    by (simp add: try_add_permissions_capped_def permissions_count_def Let_def fold_index)
qed

lemma fold_permits:
  "is_permitted later (fold (alloc_add_permission now) ips a) ip \<longleftrightarrow>
    (if ip \<in> set ips then later < add_u64 now PERMISSION_LIFETIME_MS else is_permitted later a ip)"
  by (simp add: is_permitted_def fold_add_permission(1))

lemma touch_received_views [simp]:
  "is_permitted now (touch_received t a) ip = is_permitted now a ip"
  "peer_for_channel now (touch_received t a) c = peer_for_channel now a c"
  "channel_for_peer now (touch_received t a) p = channel_for_peer now a p"
  "channels (touch_received t a) = channels a"
  by (simp_all add: touch_received_def is_permitted_def peer_for_channel_def channel_for_peer_def
      split: option.split)

lemma fold_permission_channels:
  "channels (fold (alloc_add_permission now) ips a) = channels a"
  "channels_reverse (fold (alloc_add_permission now) ips a) = channels_reverse a"
  by (induction ips arbitrary: a) (simp_all add: alloc_add_permission_def)

lemma authenticated_client:
  assumes "table_inv t" "authenticate_for_allocation e t msg src = Inr (i, key)"
  obtains a where "get_by_client t src = Some a" "i = alloc_id a" "client_addr a = src"
    "dm_get (by_client t) src = Some i" "alloc_inv a"
proof -
  obtain a where a: "get_by_client t src = Some a" "alloc_id a = i" "client_addr a = src"
    "dm_get (allocations t) i = Some a"
    using authenticate_Inr [OF assms] by blast
  then show thesis
    using that [of a] get_by_client_id [OF assms(1) a(1)] table_inv_alloc [OF assms(1) a(4)] by auto
qed

lemma with_alloc_client:
  assumes "table_inv t" "dm_get (by_client t) src = Some i"
  shows "get_by_client (with_alloc i f t) c =
    (if c = src then map_option f (get_by_client t c) else get_by_client t c)"
  using with_client_by_client [OF assms(1), of src f c] assms(2) by (simp add: with_client_def)

lemma remove_by_client:
  assumes "table_inv t" "get_by_client t src = Some a"
  shows "get_by_client (snd (table_remove (alloc_id a) t)) c = (if c = src then None else get_by_client t c)"
proof (cases "get_by_client t c")
  case None
  then show ?thesis
    using assms get_by_client_id [OF assms]
    by (auto simp: remove_is_reap table_inv_def reap_by_client [OF assms(1)])
next
  case (Some b)
  have "alloc_id b = alloc_id a \<longleftrightarrow> c = src"
    using get_by_client_iff [OF assms(1)] assms(2) Some by (metis option.inject)
  then show ?thesis
    using Some get_by_client_id [OF assms] assms(1)
    by (simp add: remove_is_reap table_inv_def reap_by_client [OF assms(1)])
qed

lemma clamp_bounds: "10 \<le> clamp_lifetime l" "clamp_lifetime l \<le> 60"
  "10 \<le> l \<Longrightarrow> l \<le> 60 \<Longrightarrow> clamp_lifetime l = l"
  by (auto simp: clamp_lifetime_def not_less)

text \<open>
  C19. Refresh: a lifetime of zero deletes the client's allocation and returns its quota slot; any
  other request, with the lifetime forced into 10 to 60 seconds, moves the expiry exactly that far
  past the present time, on the millisecond clock, and leaves the rest of the allocation as it was
  but for the time of the last message; the client is told the lifetime granted. No other client is
  affected.
\<close>

theorem refresh_exact:
  assumes "table_inv (w_table w)"
    and "authenticate_for_allocation e (w_table w) msg src = Inr (i, key)"
    and "requested = (case si_lifetime msg of Some l \<Rightarrow> l | None \<Rightarrow> 60)"
    and "granted = (if requested = 0 then 0 else clamp_lifetime requested)"
    and "en_now e + 60000 < 2 ^ 64"
  shows "\<exists>a w'. get_by_client (w_table w) src = Some a
    \<and> handle_refresh e msg src w = reply e (build_refresh_response (en_crypto e) msg granted key) src w'
    \<and> w_sent w' = w_sent w
    \<and> (requested = 0 \<longrightarrow> get_by_client (w_table w') src = None
         \<and> w_limiter w' = record_deallocation (w_limiter w) (sa_ip src))
    \<and> (requested \<noteq> 0 \<longrightarrow> 10 \<le> granted \<and> granted \<le> 60 \<and> (10 \<le> requested \<and> requested \<le> 60 \<longrightarrow> granted = requested)
         \<and> w_limiter w' = w_limiter w
         \<and> get_by_client (w_table w') src
             = Some (a\<lparr>expires_at_ms := en_now e + unat granted * 1000, lifetime_secs := unat granted,
                 last_received_ms := en_now e, last_activity_ms := en_now e\<rparr>))
    \<and> (\<forall>c. c \<noteq> src \<longrightarrow> get_by_client (w_table w') c = get_by_client (w_table w) c)"
proof -
  obtain a where a: "get_by_client (w_table w) src = Some a" "i = alloc_id a" "client_addr a = src"
    using authenticated_client [OF assms(1,2)] by metis
  show ?thesis
  proof (cases "requested = 0")
    case True
    have get: "dm_get (allocations (w_table w)) i = Some a"
      using get_by_client_id [OF assms(1) a(1)] a(2) by simp
    have "get_by_client (snd (table_remove i (w_table w))) c =
        (if c = src then None else get_by_client (w_table w) c)" for c
      using remove_by_client [OF assms(1) a(1)] a(2) by simp
    moreover have "fst (table_remove i (w_table w))" using get by (simp add: table_remove_def)
    moreover have "handle_refresh e msg src w = reply e (build_refresh_response (en_crypto e) msg granted key) src
        (remove_and_release i (sa_ip src) w)"
      using True assms(2-4) by (simp add: handle_refresh_def)
    ultimately show ?thesis
      using True a(1)
      by (intro exI [of _ a] exI [of _ "remove_and_release i (sa_ip src) w"])
        (simp add: remove_and_release_def Let_def case_prod_unfold)
  next
    case False
    let ?w = "upd_table (with_client src (\<lambda>a. touch_received (en_now e) (alloc_refresh (en_now e) granted a))) w"
    have "handle_refresh e msg src w = reply e (build_refresh_response (en_crypto e) msg granted key) src ?w"
      using False assms(2-4) by (simp add: handle_refresh_def Let_def)
    moreover have "unat granted \<le> 60" using False assms(4) clamp_bounds(2) [of requested] by (simp add: word_le_nat_alt)
    then have "touch_received (en_now e) (alloc_refresh (en_now e) granted a)
        = a\<lparr>expires_at_ms := en_now e + unat granted * 1000, lifetime_secs := unat granted,
            last_received_ms := en_now e, last_activity_ms := en_now e\<rparr>"
      using assms(5) by (simp add: touch_received_def alloc_refresh_def add_u64_exact)
    ultimately show ?thesis
      using False a(1) assms(4) clamp_bounds [of requested] with_client_by_client [OF assms(1)]
      by (intro exI [of _ a] exI [of _ ?w]) simp
  qed
qed

text \<open>The outcome of the authentication step of Allocate: the user and the key, if any.\<close>

definition allocate_auth :: "env \<Rightarrow> stun_info \<Rightarrow> bytes + rstring \<times> bytes option" where
  "allocate_auth e msg =
    (if \<not> auth_enabled (en_cfg e)
     then Inr (case si_username msg of Some u \<Rightarrow> u | None \<Rightarrow> str ''anonymous'', None)
     else case verify_long_term_credentials e msg of
       Inl r \<Rightarrow> Inl r | Inr (user, key) \<Rightarrow> Inr (user, Some key))"

definition reaped :: "env \<Rightarrow> socket_addr \<Rightarrow> world \<Rightarrow> world" where
  "reaped e src w =
    (case get_by_client (w_table w) src of
       Some a \<Rightarrow> remove_and_release (alloc_id a) (sa_ip src) w | None \<Rightarrow> w)"

definition live_client :: "env \<Rightarrow> alloc_table \<Rightarrow> socket_addr \<Rightarrow> bool" where
  "live_client e t src \<longleftrightarrow>
    (case get_by_client t src of Some a \<Rightarrow> \<not> is_expired (en_now e) a | None \<Rightarrow> False)"

lemma handle_allocate_eq:
  "handle_allocate e msg src w =
    (case allocate_auth e msg of
       Inl response \<Rightarrow> reply e response src w
     | Inr (user, key) \<Rightarrow>
        if live_client e (w_table w) src then
          (let a = the (get_by_client (w_table w) src) in
           reply e (if allocate_txn_id a = si_transaction_id msg
                    then build_allocate_response (en_crypto e) (en_cfg e) msg src
                           (remaining_lifetime (en_now e) a) key
                    else build_signed_error_response (en_crypto e) msg AllocationMismatch key) src w)
        else admit_allocate e msg src user key (reaped e src w))"
  by (auto simp: handle_allocate_def allocate_auth_def live_client_def reaped_def Let_def
      split: option.splits sum.splits)

lemma reaped_frame:
  assumes "table_inv (w_table w)"
  shows "table_inv (w_table (reaped e src w))" "w_sent (reaped e src w) = w_sent w"
    and "w_sends (reaped e src w) = w_sends w"
    and "get_by_client (w_table (reaped e src w)) c = (if c = src then None else get_by_client (w_table w) c)"
proof -
  show "get_by_client (w_table (reaped e src w)) c = (if c = src then None else get_by_client (w_table w) c)"
    using remove_by_client [OF assms]
    by (auto simp: reaped_def remove_and_release_def Let_def case_prod_unfold split: option.splits)
  show "table_inv (w_table (reaped e src w))" "w_sent (reaped e src w) = w_sent w"
    "w_sends (reaped e src w) = w_sends w"
    using remove_inv [OF assms] assms
    by (simp_all add: upd_limiter_def reaped_def remove_and_release_def Let_def case_prod_unfold split: option.split)
qed

lemma fresh_expiry:
  assumes "now + 60000 < 2 ^ 64"
  shows "expires_at_ms (new_allocation now i c user 60 txn) = now + 60000"
    and "remaining_lifetime now (new_allocation now i c user 60 txn) = 60"
  using assms by (simp_all add: remaining_lifetime_def new_allocation_def add_u64_exact)

lemma create_allocation_fresh:
  assumes "table_inv (w_table w)" "get_by_client (w_table w) src = None" "en_now e + 60000 < 2 ^ 64"
  shows "create_allocation e msg src user key w
    = reply e (build_allocate_response (en_crypto e) (en_cfg e) msg src 60 key) src
        (w\<lparr>w_table := snd (create_or_get (en_now e) src user 60 (si_transaction_id msg) (w_table w))\<rparr>)"
proof -
  have "dm_get (by_client (w_table w)) src = None"
    using assms is_client_iff [of "w_table w" src] by (simp add: is_client_def)
  then show ?thesis
    using fresh_expiry(2) [OF assms(3)]
    by (simp add: create_allocation_def create_or_get_def Let_def table_get_def)
qed

lemma allocate_effect:
  assumes "table_inv (w_table w)" "en_now e + 60000 < 2 ^ 64"
    and "allocate_auth e msg = Inr (user, key)" "\<not> live_client e (w_table w) src"
    and "check_allocation_request (en_instant e) (w_limiter (reaped e src w)) (sa_ip src) = (verdict, rl)"
  shows "\<exists>w'. w_sent w' = w_sent w \<and> w_sends w' = w_sends w
    \<and> (\<forall>c. c \<noteq> src \<longrightarrow> get_by_client (w_table w') c = get_by_client (w_table w) c)
    \<and> (if si_requested_transport msg \<notin> {None, Some 17} then
         handle_allocate e msg src w
           = reply e (build_signed_error_response (en_crypto e) msg UnsupportedTransport key) src w'
         \<and> get_by_client (w_table w') src = None \<and> w_limiter w' = w_limiter (reaped e src w)
       else w_limiter w' = rl \<and>
         (case verdict of
            Inr _ \<Rightarrow>
              handle_allocate e msg src w
                = reply e (build_allocate_response (en_crypto e) (en_cfg e) msg src 60 key) src w'
              \<and> (\<exists>b. get_by_client (w_table w') src = Some b \<and> username b = user
                   \<and> permissions b = [] \<and> channels b = [] \<and> allocate_txn_id b = si_transaction_id msg
                   \<and> expires_at_ms b = en_now e + 60000)
          | Inl err \<Rightarrow>
              handle_allocate e msg src w
                = reply e (build_signed_error_response (en_crypto e) msg
                    (case err of TooManyRequests \<Rightarrow> InsufficientCapacity
                     | QuotaExceeded \<Rightarrow> AllocationQuotaReached) key) src w'
              \<and> get_by_client (w_table w') src = None))"
proof -
  let ?w = "reaped e src w"
  note frame = reaped_frame [OF assms(1), of e src]
  have eq: "handle_allocate e msg src w = admit_allocate e msg src user key ?w"
    using assms(3,4) by (simp add: handle_allocate_eq)
  have none: "get_by_client (w_table ?w) src = None" by (simp add: frame)
  show ?thesis
  proof (cases "si_requested_transport msg \<notin> {None, Some 17}")
    case True
    then show ?thesis
      using eq frame none by (intro exI [of _ ?w]) (auto simp: admit_allocate_def split: option.splits)
  next
    case False
    then have admit: "admit_allocate e msg src user key ?w =
        (case verdict of
           Inl err \<Rightarrow> reply e (build_signed_error_response (en_crypto e) msg
               (case err of TooManyRequests \<Rightarrow> InsufficientCapacity
                | QuotaExceeded \<Rightarrow> AllocationQuotaReached) key) src (?w\<lparr>w_limiter := rl\<rparr>)
         | Inr _ \<Rightarrow> create_allocation e msg src user key (?w\<lparr>w_limiter := rl\<rparr>))"
      using assms(5) by (auto simp: admit_allocate_def Let_def split: option.splits sum.splits)
    show ?thesis
    proof (cases verdict)
      case (Inl err)
      then show ?thesis
        using False eq admit frame none by (intro exI [of _ "?w\<lparr>w_limiter := rl\<rparr>"]) auto
    next
      case (Inr u)
      let ?b = "new_allocation (en_now e) (id_counter (w_table ?w)) src user 60 (si_transaction_id msg)"
      let ?t = "snd (create_or_get (en_now e) src user 60 (si_transaction_id msg) (w_table ?w))"
      have get: "get_by_client ?t = (get_by_client (w_table ?w))(src \<mapsto> ?b)"
        using create_by_client [OF frame(1), of "en_now e" src user 60 "si_transaction_id msg"] none by simp
      have "create_allocation e msg src user key (?w\<lparr>w_limiter := rl\<rparr>)
          = reply e (build_allocate_response (en_crypto e) (en_cfg e) msg src 60 key) src
              (?w\<lparr>w_limiter := rl, w_table := ?t\<rparr>)"
        using create_allocation_fresh [of "?w\<lparr>w_limiter := rl\<rparr>" src e msg user key] frame(1) none assms(2)
        by simp
      then show ?thesis
        using Inr False eq admit frame get fresh_expiry [OF assms(2)]
        by (intro exI [of _ "?w\<lparr>w_limiter := rl, w_table := ?t\<rparr>"]) (auto simp: new_allocation_def)
    qed
  qed
qed

text \<open>
  C18. Allocate without a live allocation: an admitted UDP request creates an allocation that
  belongs to the authenticated user, lasts 60 seconds, and starts with no permission and no
  channel; the client gets the success response with lifetime 60. No other client is affected and
  the limiter is charged as its admission check says. A request for another transport, or one the
  limiter refuses, creates nothing and is answered with 442, 508 or 486.
\<close>

theorem allocate_exact:
  assumes "table_inv (w_table w)" "en_now e + 60000 < 2 ^ 64"
    and "allocate_auth e msg = Inr (user, key)" "\<not> live_client e (w_table w) src"
    and "check_allocation_request (en_instant e) (w_limiter (reaped e src w)) (sa_ip src) = (verdict, rl)"
  shows "\<exists>w'. w_sent w' = w_sent w \<and> w_sends w' = w_sends w
    \<and> (\<forall>c. c \<noteq> src \<longrightarrow> get_by_client (w_table w') c = get_by_client (w_table w) c)
    \<and> (if si_requested_transport msg \<notin> {None, Some 17} then
         handle_allocate e msg src w
           = reply e (build_signed_error_response (en_crypto e) msg UnsupportedTransport key) src w'
         \<and> get_by_client (w_table w') src = None \<and> w_limiter w' = w_limiter (reaped e src w)
       else w_limiter w' = rl \<and>
         (case verdict of
            Inr _ \<Rightarrow>
              handle_allocate e msg src w
                = reply e (build_allocate_response (en_crypto e) (en_cfg e) msg src 60 key) src w'
              \<and> (\<exists>b. get_by_client (w_table w') src = Some b \<and> username b = user
                   \<and> permissions b = [] \<and> channels b = [] \<and> allocate_txn_id b = si_transaction_id msg
                   \<and> expires_at_ms b = en_now e + 60000)
          | Inl err \<Rightarrow>
              handle_allocate e msg src w
                = reply e (build_signed_error_response (en_crypto e) msg
                    (case err of TooManyRequests \<Rightarrow> InsufficientCapacity
                     | QuotaExceeded \<Rightarrow> AllocationQuotaReached) key) src w'
              \<and> get_by_client (w_table w') src = None))"
  by (rule allocate_effect [OF assms])

text \<open>
  A repeated Allocate: while the allocation is live, a retransmission (same transaction id) is
  answered with success and the remaining lifetime, any other Allocate with 437; neither changes the
  table or the limiter.
\<close>

lemma allocate_idempotent:
  assumes "allocate_auth e msg = Inr (user, key)"
    and "get_by_client (w_table w) src = Some a" "\<not> is_expired (en_now e) a"
  shows "handle_allocate e msg src w =
    reply e (if allocate_txn_id a = si_transaction_id msg
             then build_allocate_response (en_crypto e) (en_cfg e) msg src (remaining_lifetime (en_now e) a) key
             else build_signed_error_response (en_crypto e) msg AllocationMismatch key) src w
    \<and> w_table (snd (handle_allocate e msg src w)) = w_table w
    \<and> w_limiter (snd (handle_allocate e msg src w)) = w_limiter w"
proof -
  have "live_client e (w_table w) src" using assms(2,3) by (simp add: live_client_def)
  then show ?thesis using assms(1,2) by (simp add: handle_allocate_eq Let_def)
qed

lemma create_permission_eq:
  assumes "si_xor_peer_addresses msg \<noteq> []"
    and "authenticate_for_allocation e (w_table w) msg src = Inr (i, key)"
  shows "handle_create_permission e msg src w =
      (if \<exists>ip \<in> set (map sa_ip (si_xor_peer_addresses msg)). is_forbidden_peer_ip ip
       then reply e (build_signed_error_response (en_crypto e) msg Forbidden key) src w
       else case try_add_permissions_capped (en_now e) i (map sa_ip (si_xor_peer_addresses msg))
           (cfg_max_permissions_per_alloc (en_cfg e)) (with_alloc i (touch_received (en_now e)) (w_table w)) of
         (added, t') \<Rightarrow> reply e (if added then build_success_response (en_crypto e) msg key
             else build_signed_error_response (en_crypto e) msg InsufficientCapacity key) src (w\<lparr>w_table := t'\<rparr>))"
proof -
  have "list_ex (\<lambda>p. is_forbidden_peer_ip (sa_ip p)) (si_xor_peer_addresses msg)
      \<longleftrightarrow> (\<exists>ip \<in> set (map sa_ip (si_xor_peer_addresses msg)). is_forbidden_peer_ip ip)"
    by (auto simp: list_ex_iff)
  then show ?thesis
    using assms by (simp add: handle_create_permission_def Let_def upd_table_def case_prod_unfold)
qed

text \<open>
  C21. CreatePermission is all or nothing. With a forbidden address among the peers nothing changes;
  when the permission cap would be exceeded no permission changes; otherwise every listed address is
  permitted for the next five minutes, other permissions and the channels stay as they were, and at
  most the configured number of permissions is live. Other clients are never affected.
\<close>

theorem create_permission_exact:
  assumes "table_inv (w_table w)" "si_xor_peer_addresses msg \<noteq> []"
    and "authenticate_for_allocation e (w_table w) msg src = Inr (i, key)"
    and "ips = map sa_ip (si_xor_peer_addresses msg)"
  shows "\<exists>a w'. get_by_client (w_table w) src = Some a \<and> w_sent w' = w_sent w \<and> w_limiter w' = w_limiter w
    \<and> (\<forall>c. c \<noteq> src \<longrightarrow> get_by_client (w_table w') c = get_by_client (w_table w) c)
    \<and> (if \<exists>ip \<in> set ips. is_forbidden_peer_ip ip then
         handle_create_permission e msg src w
           = reply e (build_signed_error_response (en_crypto e) msg Forbidden key) src w'
         \<and> w_table w' = w_table w
       else if permissions_count (en_now e) a + length (new_ips (en_now e) a ips)
           > cfg_max_permissions_per_alloc (en_cfg e) then
         handle_create_permission e msg src w
           = reply e (build_signed_error_response (en_crypto e) msg InsufficientCapacity key) src w'
         \<and> get_by_client (w_table w') src = Some (touch_received (en_now e) a)
       else
         handle_create_permission e msg src w = reply e (build_success_response (en_crypto e) msg key) src w'
         \<and> (\<exists>b. get_by_client (w_table w') src = Some b
              \<and> channels b = channels a
              \<and> permissions_count (en_now e) b \<le> cfg_max_permissions_per_alloc (en_cfg e)
              \<and> (\<forall>later ip. is_permitted later b ip \<longleftrightarrow>
                  (if ip \<in> set ips then later < add_u64 (en_now e) PERMISSION_LIFETIME_MS
                   else is_permitted later a ip))))"
proof -
  obtain a where a: "get_by_client (w_table w) src = Some a" "i = alloc_id a"
    "dm_get (by_client (w_table w)) src = Some i" "alloc_inv a"
    using authenticated_client [OF assms(1,3)] by metis
  let ?now = "en_now e" and ?c = "en_crypto e"
  let ?a = "touch_received ?now a" and ?t = "with_alloc i (touch_received ?now) (w_table w)"
  let ?cap = "cfg_max_permissions_per_alloc (en_cfg e)"
  have t: "table_inv ?t" by (rule with_alloc_inv [OF assms(1) neutral_updates(2)])
  have get: "get_by_client ?t c = (if c = src then Some ?a else get_by_client (w_table w) c)" for c
    using with_alloc_client [OF assms(1) a(3)] a(1) by simp
  have ids: "alloc_id ?a = i" "permissions_count ?now ?a = permissions_count ?now a"
    "new_ips ?now ?a ips = new_ips ?now a ips"
    using a(2) by (simp_all add: touch_received_def permissions_count_def new_ips_def)
  note add = try_add_by_client [OF t, where src = src and a = ?a and now = ?now and ips = ips and cap = ?cap, unfolded ids]
  note eq = create_permission_eq [OF assms(2,3), folded assms(4)]
  show ?thesis
  proof (cases "\<exists>ip \<in> set ips. is_forbidden_peer_ip ip")
    case True
    then show ?thesis using eq a(1) by (intro exI [of _ a] exI [of _ w]) simp
  next
    case ok: False
    show ?thesis
    proof (cases "permissions_count ?now a + length (new_ips ?now a ips) > ?cap")
      case True
      then have "try_add_permissions_capped ?now i ips ?cap ?t = (False, ?t)" using add get by simp
      then show ?thesis
        using ok True eq a(1) get by (intro exI [of _ a] exI [of _ "w\<lparr>w_table := ?t\<rparr>"]) simp
    next
      case False
      then obtain t' where "try_add_permissions_capped ?now i ips ?cap ?t = (True, t')"
        "\<And>c. get_by_client t' c =
          (if c = src then Some (fold (alloc_add_permission ?now) ips ?a) else get_by_client ?t c)"
        using add get by auto
      moreover have "permissions_count ?now (fold (alloc_add_permission ?now) ips ?a) \<le> ?cap"
      proof (rule capped_count)
        have inv: "alloc_inv ?a" using a(4) by simp
        then show "dm_wf (permissions ?a)" by (simp add: alloc_inv_def alloc_maps_wf_def)
        show "alloc_inv (fold (alloc_add_permission ?now) ips ?a)" by (rule fold_add_permission_inv [OF inv])
      qed (use False ids in simp)
      ultimately show ?thesis
        using ok False eq a(1) get
        by (intro exI [of _ a] exI [of _ "w\<lparr>w_table := t'\<rparr>"])
          (simp add: fold_permits fold_permission_channels)
    qed
  qed
qed

text \<open>When a ChannelBind is admissible: RFC 5766 section 11.2 and the two caps.\<close>

definition bind_allowed :: "env \<Rightarrow> allocation \<Rightarrow> channel \<Rightarrow> socket_addr \<Rightarrow> bool" where
  "bind_allowed e a chan peer \<longleftrightarrow>
    \<not> is_forbidden_peer_addr (en_cfg e) peer
    \<and> (peer_for_channel (en_now e) a chan = Some peer
       \<or> peer_for_channel (en_now e) a chan = None \<and> channel_for_peer (en_now e) a peer = None
         \<and> channels_count (en_now e) a < cfg_max_channels_per_alloc (en_cfg e))
    \<and> permissions_count (en_now e) a + length (new_ips (en_now e) a [sa_ip peer])
        \<le> cfg_max_permissions_per_alloc (en_cfg e)"

lemma bind_channel_permissions [simp]:
  "is_permitted now (bind_channel t c p a) ip = is_permitted now a ip"
proof -
  have "permissions (bind_channel t c p a) = permissions a"
    by (simp add: bind_channel_def Let_def split: option.split)
  then show ?thesis by (simp add: is_permitted_def)
qed

lemma bind_outcome_cases:
  assumes "table_get t i = Some a" "alloc_inv a"
  shows "bind_outcome_of e t i chan peer = BindOk True \<longleftrightarrow>
      (peer_for_channel (en_now e) a chan = Some peer
       \<or> peer_for_channel (en_now e) a chan = None \<and> channel_for_peer (en_now e) a peer = None
         \<and> channels_count (en_now e) a < cfg_max_channels_per_alloc (en_cfg e))"
    and "bind_outcome_of e t i chan peer \<noteq> BindOk False"
proof -
  have "chan_inv a" using assms(2) by (simp add: alloc_inv_def)
  note agree = channel_peer_agree [OF this, of "en_now e"]
  show "bind_outcome_of e t i chan peer = BindOk True \<longleftrightarrow>
      (peer_for_channel (en_now e) a chan = Some peer
       \<or> peer_for_channel (en_now e) a chan = None \<and> channel_for_peer (en_now e) a peer = None
         \<and> channels_count (en_now e) a < cfg_max_channels_per_alloc (en_cfg e))"
    using assms(1) agree [of peer chan]
    by (auto simp: bind_outcome_of_def Let_def not_le split: option.splits)
  show "bind_outcome_of e t i chan peer \<noteq> BindOk False"
    using assms(1) by (auto simp: bind_outcome_of_def Let_def split: option.splits)
qed

text \<open>
  C20. ChannelBind: an admissible request binds channel and peer to each other for ten minutes, gives
  the peer's address a permission, and is answered with success; every other request is answered
  with an error and leaves the table untouched. Other clients are never affected.
\<close>

theorem channel_bind_exact:
  assumes "table_inv (w_table w)" "si_channel_number msg = Some chan"
    and "si_xor_peer_addresses msg = peer # others"
    and "authenticate_for_allocation e (w_table w) msg src = Inr (i, key)"
    and "get_by_client (w_table w) src = Some a" "en_now e + 600000 < 2 ^ 64"
  shows "if bind_allowed e a chan peer
    then \<exists>w' b. handle_channel_bind e msg src w = reply e (build_success_response (en_crypto e) msg key) src w'
      \<and> get_by_client (w_table w') src = Some b
      \<and> (\<forall>c. c \<noteq> src \<longrightarrow> get_by_client (w_table w') c = get_by_client (w_table w) c)
      \<and> (\<forall>later. later < en_now e + 600000 \<longrightarrow>
          peer_for_channel later b chan = Some peer \<and> channel_for_peer later b peer = Some chan)
      \<and> is_permitted (en_now e) b (sa_ip peer)
    else \<exists>code. handle_channel_bind e msg src w
      = reply e (build_signed_error_response (en_crypto e) msg code key) src w"
proof -
  have i: "i = alloc_id a" "dm_get (by_client (w_table w)) src = Some i" "alloc_inv a"
    using authenticated_client [OF assms(1,4)] assms(5) by auto
  have get: "table_get (w_table w) i = Some a"
    using get_by_client_id [OF assms(1,5)] i(1) by (simp add: table_get_def)
  note outcome = bind_outcome_cases [OF get i(3), of e chan peer]
  note add = try_add_by_client [OF assms(1,5), where now = "en_now e" and ips = "[sa_ip peer]"
      and cap = "cfg_max_permissions_per_alloc (en_cfg e)", folded i(1)]
  show ?thesis
  proof (cases "bind_allowed e a chan peer")
    case True
    then obtain t' where t': "try_add_permissions_capped (en_now e) i [sa_ip peer]
        (cfg_max_permissions_per_alloc (en_cfg e)) (w_table w) = (True, t')" "table_inv t'"
      "by_client t' = by_client (w_table w)"
      "\<And>c. get_by_client t' c =
        (if c = src then Some (alloc_add_permission (en_now e) (sa_ip peer) a) else get_by_client (w_table w) c)"
      using add by (auto simp: bind_allowed_def)
    let ?a = "alloc_add_permission (en_now e) (sa_ip peer) a"
    let ?b = "touch_received (en_now e) (bind_channel (en_now e) chan peer ?a)"
    let ?t = "with_alloc i (\<lambda>a. touch_received (en_now e) (bind_channel (en_now e) chan peer a)) t'"
    have "table_get t' i = Some ?a"
      using t'(4) [of src] i(2) t'(3) by (simp add: get_by_client_def table_get_def)
    then have "handle_channel_bind e msg src w
        = reply e (build_success_response (en_crypto e) msg key) src (w\<lparr>w_table := ?t\<rparr>)"
      using True assms(2-4) outcome t'(1)
      by (simp add: handle_channel_bind_def commit_bind_def bind_allowed_def Let_def upd_table_def)
    moreover have "get_by_client ?t c = (if c = src then Some ?b else get_by_client (w_table w) c)" for c
      using with_alloc_client [OF t'(2), of src i] i(2) t'(3,4) by simp
    moreover have "peer_for_channel later ?b chan = Some peer \<and> channel_for_peer later ?b peer = Some chan"
      if "later < en_now e + 600000" for later
      using bind_channel_effect [of ?a "en_now e" chan peer later chan peer] add_permission_inv [OF i(3)] that assms(6)
      by (simp add: CHANNEL_LIFETIME_MS_def add_u64_exact)
    moreover have "is_permitted (en_now e) ?b (sa_ip peer)"
      using assms(6) fold_permits [of "en_now e" "en_now e" "[sa_ip peer]" a]
      by (simp add: PERMISSION_LIFETIME_MS_def add_u64_exact)
    ultimately show ?thesis
      using True by (auto intro!: exI [of _ "w\<lparr>w_table := ?t\<rparr>"])
  next
    case False
    then show ?thesis
      using assms(2-4) outcome add get
      by (cases "bind_outcome_of e (w_table w) i chan peer")
        (auto simp: handle_channel_bind_def commit_bind_def bind_allowed_def Let_def split: if_splits)
  qed
qed

section \<open>Witnesses\<close>

text \<open>A server with credentials, one without, and a world with one allocation.\<close>

definition demo_env :: "config \<Rightarrow> env" where
  "demo_env cfg = \<lparr>en_cfg = cfg, en_crypto = demo_crypto, en_now = 1000, en_instant = 0, en_unix = 1000,
     en_rand = (\<lambda>_. replicate 12 0), en_send_ok = (\<lambda>_. True)\<rparr>"

definition open_config :: config where
  "open_config = config_new (replicate 16 7) (V4 203 0 113 5)"

definition demo_world :: world where
  "demo_world = \<lparr>w_table = demo_table, w_limiter = new_rate_limiter 30 200, w_sent = [], w_sends = 0, w_rands = 0\<rparr>"

definition demo_key :: bytes where
  "demo_key = compute_key demo_crypto (str ''user'') (cfg_realm demo_config) (str ''pass'')"

definition demo_signed :: "stun_method \<Rightarrow> stun_info" where
  "demo_signed m = demo_request\<lparr>si_method := m, si_username := Some (str ''user''),
     si_realm := Some (cfg_realm demo_config),
     si_nonce := Some (generate_nonce demo_crypto 900 (cfg_nonce_secret demo_config)),
     si_message_integrity_offset := Some 20,
     si_message_integrity := Some (hmac_sha1 demo_crypto demo_key (integrity_input (si_raw demo_request) 20))\<rparr>"

lemma demo_env_simps [simp]:
  "en_cfg (demo_env cfg) = cfg" "en_crypto (demo_env cfg) = demo_crypto" "en_now (demo_env cfg) = 1000"
  "en_instant (demo_env cfg) = 0" "en_unix (demo_env cfg) = 1000"
  by (simp_all add: demo_env_def)

lemma demo_config_fields:
  "auth_enabled demo_config" "cfg_nonce_lifetime_secs demo_config = 3600"
  "cfg_credentials demo_config = [(str ''user'', str ''pass'')]"
  by (simp_all add: demo_config_def config_new_def with_credential_def with_auth_secret_def auth_enabled_def)

lemma open_config_fields:
  "\<not> auth_enabled open_config" "cfg_max_permissions_per_alloc open_config = 64"
  "cfg_max_channels_per_alloc open_config = 128" "cfg_external_ip open_config = V4 203 0 113 5"
  "cfg_port open_config = 3478"
  by (simp_all add: open_config_def config_new_def auth_enabled_def)

lemma demo_request_fields:
  "si_class demo_request = Request" "si_message_integrity demo_request = None"
  "si_transaction_id demo_request = replicate 12 1" "si_lifetime demo_request = None"
  "si_requested_transport demo_request = None" "si_username demo_request = None"
  by (simp_all add: demo_request_def info_of_def empty_attrs_def)

lemma demo_signed_ok: "credential_ok (demo_env demo_config) (demo_signed m) (str ''user'') demo_key"
proof -
  have "validate_nonce demo_crypto 1000 (generate_nonce demo_crypto 900 (cfg_nonce_secret demo_config))
      (cfg_nonce_lifetime_secs demo_config) (cfg_nonce_secret demo_config)"
    using issued_nonce_valid [of 900 demo_crypto] demo_config_fields(2) by simp
  moreover have "str ''pass'' \<in> set (candidate_passwords demo_crypto demo_config (str ''user'') 1000)"
    by (simp add: candidate_passwords_def demo_config_fields)
  ultimately show ?thesis
    by (auto simp: credential_ok_def demo_signed_def demo_key_def)
qed

lemma demo_client_alloc:
  "table_inv (w_table demo_world)" "get_by_client (w_table demo_world) demo_client = Some demo_alloc"
  "alloc_id demo_alloc = 1" "username demo_alloc = str ''u''"
  using demo_table_inv
  by (simp_all add: demo_world_def demo_table_def demo_alloc_def table_eval new_allocation_def)

lemma demo_open_auth:
  "authenticate_for_allocation (demo_env open_config) (w_table demo_world) msg demo_client = Inr (1, None)"
  by (simp add: authenticate_for_allocation_def open_config_fields demo_client_alloc)

theorem credentials_exact_witness:
  "\<exists>key. verify_long_term_credentials (demo_env demo_config) (demo_signed Refresh) = Inr (str ''user'', key)"
  using credentials_exact [of "demo_env demo_config" "demo_signed Refresh" "str ''user''"]
    demo_signed_ok demo_digest_lengths by auto

theorem unauthorized_changes_nothing_witness:
  "w_table (snd (handle_stun (demo_env demo_config) (demo_signed Refresh) demo_client demo_world)) = demo_table
    \<and> w_table (snd (handle_stun (demo_env demo_config) (demo_signed Allocate) demo_client demo_world)) = demo_table
    \<and> w_table (snd (handle_stun (demo_env demo_config) (demo_request\<lparr>si_method := Refresh\<rparr>) demo_client demo_world))
      = demo_table"
proof -
  have kind: "turn_request (demo_request\<lparr>si_method := Refresh\<rparr>)" "turn_request (demo_signed Refresh)"
    "turn_request (demo_signed Allocate)"
    by (simp_all add: turn_request_def demo_signed_def demo_request_fields)
  have keys: "\<exists>key. verify_long_term_credentials (demo_env demo_config) (demo_signed m) = Inr (str ''user'', key)" for m
    using verify_complete [OF _ demo_signed_ok] demo_digest_lengths by simp
  have other: "username demo_alloc \<noteq> str ''user''" "\<not> is_expired (en_now (demo_env demo_config)) demo_alloc"
    by (simp_all add: demo_client_alloc str_def is_expired_def demo_alloc_def new_allocation_def add_u64_def)
  have plain: "\<exists>r. verify_long_term_credentials (demo_env demo_config) (demo_request\<lparr>si_method := Refresh\<rparr>) = Inl r"
    by (simp add: verify_long_term_credentials_def demo_request_fields Let_def)
  note ch = unauthorized_changes_nothing [where e = "demo_env demo_config" and w = demo_world and src = demo_client]
  show ?thesis
    using ch [OF _ kind(1)] ch [OF _ kind(2)] ch [OF _ kind(3)] keys [of Refresh] keys [of Allocate] other plain demo_config_fields(1) demo_client_alloc(2)
    by (auto simp: case_prod_unfold demo_world_def)
qed

theorem refresh_exact_witness:
  "\<exists>w'. handle_refresh (demo_env open_config) (demo_request\<lparr>si_lifetime := Some 600\<rparr>) demo_client demo_world
      = reply (demo_env open_config)
          (build_refresh_response demo_crypto (demo_request\<lparr>si_lifetime := Some 600\<rparr>) 60 None) demo_client w'
    \<and> get_by_client (w_table w') demo_client
        = Some (demo_alloc\<lparr>expires_at_ms := 61000, lifetime_secs := 60, last_received_ms := 1000, last_activity_ms := 1000\<rparr>)"
  using refresh_exact [OF demo_client_alloc(1) demo_open_auth refl refl, of "demo_request\<lparr>si_lifetime := Some 600\<rparr>"]
    demo_client_alloc(2)
  by (auto simp: clamp_lifetime_def)

lemma demo_open_allocate:
  "allocate_auth (demo_env open_config) demo_request = Inr (str ''anonymous'', None)"
  by (simp add: allocate_auth_def open_config_fields demo_request_fields)

lemma demo_admits:
  "check_allocation_request 0 (w_limiter (reaped e demo_peer demo_world)) (sa_ip demo_peer)
    = (Inr (), snd (check_allocation_request 0 (new_rate_limiter 30 200) (sa_ip demo_peer)))"
proof -
  have "reaped e demo_peer demo_world = demo_world"
    by (simp add: reaped_def demo_world_def demo_table_def table_eval demo_peer_def demo_client_def)
  moreover have "fst (check_allocation_request 0 (new_rate_limiter 30 200) (sa_ip demo_peer)) = Inr ()"
    by (simp add: limiter_eval)
  ultimately show ?thesis by (simp add: demo_world_def prod_eq_iff)
qed

theorem allocate_exact_witness:
  "\<exists>w' b. handle_allocate (demo_env open_config) demo_request demo_peer demo_world
      = reply (demo_env open_config)
          (build_allocate_response demo_crypto open_config demo_request demo_peer 60 None) demo_peer w'
    \<and> get_by_client (w_table w') demo_peer = Some b \<and> username b = str ''anonymous''
    \<and> get_by_client (w_table w') demo_client = Some demo_alloc"
proof -
  have "\<not> live_client (demo_env open_config) (w_table demo_world) demo_peer"
    by (simp add: live_client_def demo_world_def demo_table_def table_eval demo_peer_def demo_client_def)
  moreover have "demo_client \<noteq> demo_peer" by (simp add: demo_client_def demo_peer_def)
  moreover note demo_admits [of "demo_env open_config"]
  ultimately show ?thesis
    using allocate_exact [OF demo_client_alloc(1) _ demo_open_allocate, of demo_peer] demo_client_alloc(2)
    by (fastforce simp: demo_request_fields)
qed

lemma demo_peer_allowed: "\<not> is_forbidden_peer_ip (sa_ip demo_peer)"
  by (simp add: demo_peer_def v4_is_loopback_def v4_is_multicast_def v4_is_broadcast_def
      v4_is_unspecified_def v4_is_link_local_def)

theorem create_permission_exact_witness:
  "\<exists>w' b. get_by_client (w_table w') demo_client = Some b
    \<and> handle_create_permission (demo_env open_config) (demo_request\<lparr>si_xor_peer_addresses := [demo_peer]\<rparr>)
        demo_client demo_world
      = reply (demo_env open_config)
          (build_success_response demo_crypto (demo_request\<lparr>si_xor_peer_addresses := [demo_peer]\<rparr>) None) demo_client w'
    \<and> is_permitted 2000 b (sa_ip demo_peer)"
proof -
  let ?msg = "demo_request\<lparr>si_xor_peer_addresses := [demo_peer]\<rparr>"
  have "permissions_count 1000 demo_alloc = 0"
    by (simp add: permissions_count_def demo_alloc_def new_allocation_def dm_count_def)
  moreover have "length (new_ips 1000 demo_alloc [sa_ip demo_peer]) \<le> 1" by (simp add: new_ips_def)
  moreover have "\<not> is_forbidden_peer_ip (sa_ip demo_peer)"
    by (rule demo_peer_allowed)
  moreover have "2000 < add_u64 1000 PERMISSION_LIFETIME_MS" by (simp add: add_u64_def PERMISSION_LIFETIME_MS_def)
  ultimately show ?thesis
    using create_permission_exact [OF demo_client_alloc(1) _ demo_open_auth refl, of ?msg]
      demo_client_alloc(2) open_config_fields(2)
    by fastforce
qed

theorem channel_bind_exact_witness:
  "\<exists>w' b. get_by_client (w_table w') demo_client = Some b
    \<and> handle_channel_bind (demo_env open_config)
        (demo_request\<lparr>si_channel_number := Some 0x4000, si_xor_peer_addresses := [demo_peer]\<rparr>) demo_client demo_world
      = reply (demo_env open_config)
          (build_success_response demo_crypto
             (demo_request\<lparr>si_channel_number := Some 0x4000, si_xor_peer_addresses := [demo_peer]\<rparr>) None) demo_client w'
    \<and> peer_for_channel 5000 b 0x4000 = Some demo_peer"
proof -
  let ?msg = "demo_request\<lparr>si_channel_number := Some 0x4000, si_xor_peer_addresses := [demo_peer]\<rparr>"
  note demo_peer_allowed
  moreover have "sa_ip demo_peer \<noteq> V4 203 0 113 5" by (simp add: demo_peer_def)
  ultimately have "bind_allowed (demo_env open_config) demo_alloc 0x4000 demo_peer"
    by (simp add: bind_allowed_def open_config_fields is_forbidden_peer_addr_def
        peer_for_channel_def channel_for_peer_def
        channels_count_def permissions_count_def new_ips_def demo_alloc_def new_allocation_def dm_count_def)
  then show ?thesis
    using channel_bind_exact [OF demo_client_alloc(1) _ _ demo_open_auth demo_client_alloc(2), of ?msg "0x4000" demo_peer "[]"]
    by fastforce
qed

end
