(* ===== verification/Egress.thy ===== *)
theory Egress
  imports Server Requests
begin

text \<open>
  Where datagrams may go. A relay on a public address is useful to an attacker when it can be made
  to send to places of the attacker's choice; the policy below says what one datagram received from
  \<open>src\<close> may cause to be sent, and every handler is shown to obey it.
\<close>

section \<open>Definitions\<close>

text \<open>The datagrams a step sends all go to destinations in \<open>S\<close>.\<close>

definition emits :: "(socket_addr \<Rightarrow> bool) \<Rightarrow> world \<Rightarrow> result \<Rightarrow> bool" where
  "emits S w r \<longleftrightarrow> (\<exists>l. w_sent (snd r) = w_sent w @ l \<and> (\<forall>x \<in> set l. S (snd x)))"

text \<open>
  A client may be answered, may reach other clients of this server, and may reach an external peer
  that it holds a permission for and that is not a forbidden destination. Anybody else may be
  answered, and reaches a client only when that client holds a permission for the sender's address.
\<close>

definition may_reach :: "env \<Rightarrow> alloc_table \<Rightarrow> socket_addr \<Rightarrow> socket_addr \<Rightarrow> bool" where
  "may_reach e t src dst \<longleftrightarrow> dst = src \<or>
    (case get_by_client t src of
       Some a \<Rightarrow>
         is_client t dst
         \<or> is_permitted (en_now e) a (sa_ip dst) \<and> \<not> is_forbidden_peer_addr (en_cfg e) dst
     | None \<Rightarrow>
         (\<exists>b. get_by_client t dst = Some b \<and> is_permitted (en_now e) b (sa_ip src)))"

section \<open>Composing emissions\<close>

lemma emits_cong: "w_sent w = w_sent w' \<Longrightarrow> emits S w r \<longleftrightarrow> emits S w' r"
  by (simp add: emits_def)

lemma emits_upd [simp]: "emits S (upd_table f w) r \<longleftrightarrow> emits S w r"
  by (simp add: emits_def)

lemma emits_drawn [simp]: "emits S (snd (draw e w)) r \<longleftrightarrow> emits S w r"
  by (simp add: emits_def)

lemma emits_nothing [simp]: "w_sent w' = w_sent w \<Longrightarrow> emits S w (ok w')"
  by (simp add: emits_def)

lemma emits_send_then:
  assumes "S d" "\<And>w. emits S w (k w)"
  shows "emits S w (send_then e p d k w)"
proof (cases "en_send_ok e (w_sends w)")
  case True
  obtain l where "w_sent (snd (k (attempt e p d w))) = w_sent (attempt e p d w) @ l" "\<forall>x \<in> set l. S (snd x)"
    using assms(2) by (auto simp: emits_def)
  then show ?thesis
    using True assms(1)
    by (auto simp: emits_def send_then_def Let_def attempt_def intro!: exI [of _ "(p, d) # l"])
next
  case False
  then show ?thesis by (simp add: emits_def send_then_def Let_def attempt_def)
qed

lemma emits_reply: "S d \<Longrightarrow> emits S w (reply e p d w)"
  unfolding reply_def by (rule emits_send_then) simp_all

lemma emits_only_answers: "only_answers e src w r \<Longrightarrow> S src \<Longrightarrow> emits S w r"
  by (auto simp: only_answers_def emits_reply)

lemma emits_send_each:
  assumes "\<forall>d \<in> set ds. S d" "\<And>w. emits S w (k w)"
  shows "emits S w (send_each e p ds k w)"
  using assms(1) by (induction ds arbitrary: w) (simp_all add: assms(2) emits_send_then)

lemma emits_draw: "(\<And>w. emits S w (k w)) \<Longrightarrow> emits S w (k (snd (draw e w)))"
  using emits_drawn [of S e w "k (snd (draw e w))"] by blast

lemma emits_table: "(\<And>w. emits S w (k w)) \<Longrightarrow> emits S w (k (upd_table f w))"
  using emits_upd [of S f w "k (upd_table f w)"] by blast

lemma emits_indicate:
  assumes "\<forall>d \<in> set ds. S d" "\<And>w. emits S w (k w)"
  shows "emits S w (indicate_then e p data ds k w)"
  using emits_draw [of S "\<lambda>w'. send_each e (build_data_indication (fst (draw e w)) p data) ds k w'" w]
    emits_send_each [of ds S k] assms
  by (simp add: indicate_then_def case_prod_unfold)

lemma emits_deliver:
  assumes "S (dl_client_addr d)" "\<And>w. emits S w (k w)"
  shows "emits S w (deliver e d p data k w)"
proof (cases "dl_channel d")
  case None
  have "emits S w (send_then e (engine_data_indication (fst (draw e w)) p data) (dl_client_addr d) k (snd (draw e w)))"
    by (rule emits_draw [where k = "send_then e (engine_data_indication (fst (draw e w)) p data) (dl_client_addr d) k"])
      (rule emits_send_then [OF assms])
  then show ?thesis using None by (simp add: deliver_def send_data_indication_def case_prod_unfold)
next
  case (Some ch)
  then show ?thesis by (simp add: deliver_def send_channel_data_def Let_def emits_send_then assms)
qed

lemma emits_touch: "(\<And>w. emits S w (k w)) \<Longrightarrow> emits S w (k (engine_touch e i w))"
  unfolding engine_touch_def by (rule emits_table)

lemma emits_deliver_all:
  assumes "\<forall>d \<in> set ds. S (dl_client_addr d)" "\<And>w. emits S w (k w)"
  shows "emits S w (deliver_all e ds p data k w)"
  using assms(1)
proof (induction ds arbitrary: w)
  case (Cons d ds)
  then have "\<And>w. emits S w (deliver_all e ds p data k w)" by simp
  then show ?case using Cons.prems by (simp add: emits_deliver emits_touch)
qed (simp add: assms(2))

lemma emits_relay_targets:
  assumes "\<forall>t \<in> set ts. S (snd t)" "\<And>w. emits S w (k w)"
  shows "emits S w (relay_targets e p ts k w)"
  using assms(1)
proof (induction ts arbitrary: w)
  case (Cons t ts)
  obtain i d where t: "t = (i, d)" by fastforce
  have "emits S w (relay_targets e p ts k (upd_table (with_alloc i (touch (en_now e))) w))" for w
    by (rule emits_table [where k = "relay_targets e p ts k"]) (use Cons in simp)
  then show ?case using Cons.prems t by (simp add: emits_send_then)
qed (simp add: assms(2))

section \<open>Targets are clients\<close>

lemma target_is_client: "table_inv t \<Longrightarrow> table_get t i = Some a \<Longrightarrow> is_client t (client_addr a)"
  using table_inv_client [of t "client_addr a" i] by (auto simp: is_client_def table_get_def)

lemma map_filter_set: "set (List.map_filter f xs) = {y. \<exists>x \<in> set xs. f x = Some y}"
  by (induction xs) (auto simp: List.map_filter_simps split: option.splits)

text \<open>\<open>ids.filter_map(|id| { let a = table.get(id)?; ... })\<close>.\<close>

lemma map_filter_lookup:
  "y \<in> set (List.map_filter (\<lambda>i. case g i of None \<Rightarrow> None | Some a \<Rightarrow> h i a) ids)
    \<longleftrightarrow> (\<exists>i a. i \<in> set ids \<and> g i = Some a \<and> h i a = Some y)"
proof -
  have "(case g i of None \<Rightarrow> None | Some a \<Rightarrow> h i a) = Some y \<longleftrightarrow> (\<exists>a. g i = Some a \<and> h i a = Some y)" for i
    by (cases "g i") simp_all
  then show ?thesis by (auto simp: map_filter_set)
qed

lemma ufrag_target_client:
  "table_inv t \<Longrightarrow> ufrag_target e t src u = Some c \<Longrightarrow> is_client t c"
  by (auto simp: ufrag_target_def target_is_client split: option.splits if_splits)

lemma ice_targets_client: "table_inv t \<Longrightarrow> c \<in> set (ice_targets e t src) \<Longrightarrow> is_client t c"
  by (auto simp: ice_targets_def map_filter_set target_is_client split: option.splits if_splits)

lemma check_target_client:
  "table_inv t \<Longrightarrow> check_target e t src u = Some d \<Longrightarrow> is_client t (dl_client_addr d)"
  by (auto simp: check_target_def target_is_client split: option.splits if_splits)

lemma client_targets_client:
  "table_inv t \<Longrightarrow> x \<in> set (client_targets e t src ps) \<Longrightarrow> is_client t (snd x)"
  by (auto simp: client_targets_def map_filter_set target_is_client split: option.splits if_splits)

section \<open>The handlers\<close>

lemma emits_reply_after: "w_sent w' = w_sent w \<Longrightarrow> S d \<Longrightarrow> emits S w (reply e p d w')"
  using emits_reply [of S d w' e p] emits_cong [of w w'] by simp

lemma release_sent [simp]: "w_sent (remove_and_release i ip w) = w_sent w"
  by (simp add: remove_and_release_def Let_def case_prod_unfold)

lemma emits_admit:
  assumes "S src" "w_sent w' = w_sent w"
  shows "emits S w (admit_allocate e msg src user key w')"
  using assms
  by (auto simp: admit_allocate_def create_allocation_def Let_def case_prod_unfold
      intro!: emits_reply_after split: sum.split)

lemma emits_requests:
  assumes "S src"
  shows "emits S w (handle_allocate e msg src w)" "emits S w (handle_refresh e msg src w)"
    "emits S w (handle_create_permission e msg src w)" "emits S w (handle_channel_bind e msg src w)"
proof -
  show "emits S w (handle_allocate e msg src w)"
    using assms
    by (auto simp: handle_allocate_def Let_def intro!: emits_reply_after emits_admit split: sum.split option.split)
  show "emits S w (handle_refresh e msg src w)"
    using assms by (auto simp: handle_refresh_def Let_def intro!: emits_reply_after split: sum.split)
  show "emits S w (handle_create_permission e msg src w)"
    using assms
    by (auto simp: handle_create_permission_def Let_def case_prod_unfold intro!: emits_reply_after split: sum.split)
  show "emits S w (handle_channel_bind e msg src w)"
    using assms
    by (auto simp: handle_channel_bind_def commit_bind_def Let_def case_prod_unfold intro!: emits_reply_after
        split: sum.split option.split list.split bind_outcome.split)
qed

text \<open>From here on, \<open>S\<close> admits the clients of a table.\<close>

definition reaches_clients :: "(socket_addr \<Rightarrow> bool) \<Rightarrow> alloc_table \<Rightarrow> bool" where
  "reaches_clients S t \<longleftrightarrow> table_inv t \<and> (\<forall>c. is_client t c \<longrightarrow> S c)"

lemma reaches_clients_update:
  "reaches_clients S t \<Longrightarrow> table_inv t' \<Longrightarrow> by_client t' = by_client t \<Longrightarrow> reaches_clients S t'"
  by (simp add: reaches_clients_def is_client_def)

lemma emits_relay_check:
  assumes "reaches_clients S (w_table w)" "S src"
  shows "emits S w (relay_check e msg src w)"
proof (cases "get_by_client (w_table w) src")
  case None
  then show ?thesis using assms(2) by (simp add: relay_check_def emits_reply)
next
  case (Some a)
  let ?w = "upd_table (with_client src (touch_received (en_now e))) w"
  have "reaches_clients S (w_table ?w)"
    using assms(1) with_client_inv [OF _ neutral_updates(2)]
    by (intro reaches_clients_update [OF assms(1)]) (simp_all add: reaches_clients_def)
  then have "S c" if "ufrag_target e (w_table ?w) src u = Some c" for u c
    using that ufrag_target_client by (auto simp: reaches_clients_def)
  then have "emits S ?w (indicate_then e (relay_addr e) (si_raw msg) [c] ok ?w)"
    if "ufrag_target e (w_table ?w) src u = Some c" for u c
    using that by (intro emits_indicate) simp_all
  then show ?thesis
    using Some by (auto simp: relay_check_def Let_def split: option.splits)
qed

lemma learn_by_client: "table_inv t \<Longrightarrow> by_client (learn_from_check e msg a t) = by_client t"
  using register_keeps_ids(3)
  by (simp add: learn_from_check_def Let_def table_add_permission_def index_permission_def split: option.split)

lemma emits_binding:
  assumes "reaches_clients S (w_table w)" "S src"
  shows "emits S w (handle_binding_request e msg src w)"
proof (cases "get_by_client (w_table w) src")
  case None
  then show ?thesis using assms(2) by (simp add: handle_binding_request_def emits_reply)
next
  case (Some a)
  let ?w = "upd_table (learn_from_check e msg a) w"
  have inv: "table_inv (w_table w)" using assms(1) by (simp add: reaches_clients_def)
  then have "consistency.holds ?w" using consistency.holds_learn [of w src a] Some by (simp add: consistency.holds_def)
  then have "reaches_clients S (w_table ?w)"
    using reaches_clients_update [OF assms(1)] learn_by_client [OF inv] by (simp add: consistency.holds_def)
  from emits_relay_check [OF this assms(2)] show ?thesis
    using Some is_client_iff [OF inv] by (simp add: handle_binding_request_def)
qed

lemma emits_client_response:
  assumes "reaches_clients S (w_table w)"
  shows "emits S w (handle_client_response e msg src w)"
proof -
  have "S c" if "c \<in> set (List.map_filter (\<lambda>i. case table_get (w_table w) i of None \<Rightarrow> None
      | Some target \<Rightarrow> if client_addr target = src then None else Some (client_addr target)) ids)" for c ids
    using that assms target_is_client
    by (auto simp: reaches_clients_def map_filter_set split: option.splits if_splits)
  then show ?thesis
    by (auto simp: handle_client_response_def Let_def intro!: emits_indicate split: option.split)
qed

lemma emits_finish [simp]: "emits S w (finish_internal e src b w)"
  by (simp add: finish_internal_def)

lemma emits_by_pair:
  assumes "reaches_clients S (w_table w)"
  shows "emits S w (route_by_pair e src data w)"
  using assms ice_targets_client
  by (auto simp: route_by_pair_def Let_def reaches_clients_def intro!: emits_indicate)

lemma reaches_clients_register:
  assumes "reaches_clients S t"
  shows "reaches_clients S (snd (register_ice_ufrags i l r t))"
proof -
  have "table_inv t" using assms by (simp add: reaches_clients_def)
  then show ?thesis
    by (intro reaches_clients_update [OF assms]) (simp_all add: register_ice_ufrags_inv register_keeps_ids)
qed

lemma emits_route_internally:
  assumes "reaches_clients S (w_table w)"
  shows "emits S w (route_internally e src payload w)"
proof -
  have "emits S w (route_by_pair e src data w)" for data by (rule emits_by_pair [OF assms])
  moreover have "emits S w
      (let w = upd_table (\<lambda>t. snd (register_ice_ufrags i l r t)) w
       in case ufrag_target e (w_table w) src r of
            Some c \<Rightarrow> indicate_then e (relay_addr e) data [c] (finish_internal e src True) w
          | None \<Rightarrow> route_by_pair e src data w)" for i l r data
  proof -
    let ?w = "upd_table (\<lambda>t. snd (register_ice_ufrags i l r t)) w"
    have reach: "reaches_clients S (w_table ?w)" using reaches_clients_register [OF assms] by simp
    then have "S c" if "ufrag_target e (w_table ?w) src r = Some c" for c
      using that ufrag_target_client by (auto simp: reaches_clients_def)
    then have "emits S ?w (case ufrag_target e (w_table ?w) src r of
        Some c \<Rightarrow> indicate_then e (relay_addr e) data [c] (finish_internal e src True) ?w
      | None \<Rightarrow> route_by_pair e src data ?w)"
      using emits_by_pair [OF reach] by (auto intro!: emits_indicate simp del: emits_upd split: option.splits)
    then show ?thesis by (simp add: Let_def)
  qed
  ultimately show ?thesis
    by (auto simp: route_internally_def split: option.split)
qed

lemma emits_send:
  assumes "reaches_clients S (w_table w)"
    and "\<And>a d. get_by_client (w_table w) src = Some a \<Longrightarrow> is_permitted (en_now e) a (sa_ip d) \<Longrightarrow>
      \<not> is_forbidden_peer_addr (en_cfg e) d \<Longrightarrow> S d"
  shows "emits S w (handle_send e msg src w)"
proof -
  have send: "emits S w' (send_then e p d (\<lambda>w. ok (upd_table g (upd_table f w))) w')"
    "emits S w' (send_then e p d (\<lambda>w. ok (upd_table f w)) w')" if "S d" for p d f g w'
    by (rule emits_send_then; simp add: that)+
  have drawn: "emits S w (send_then e p d (\<lambda>w. ok (upd_table g (upd_table f w))) (snd (draw e w)))"
    if "S d" for p d f g
    using send(1) [OF that, of "snd (draw e w)"] by simp
  show ?thesis
    using assms(2) emits_route_internally [OF assms(1)] send drawn
    by (auto simp: handle_send_def send_to_peer_def Let_def case_prod_unfold
        split: list.split option.split send_target.split)
qed

lemma emits_stun:
  assumes "reaches_clients S (w_table w)" "S src"
    and "\<And>a d. get_by_client (w_table w) src = Some a \<Longrightarrow> is_permitted (en_now e) a (sa_ip d) \<Longrightarrow>
      \<not> is_forbidden_peer_addr (en_cfg e) d \<Longrightarrow> S d"
  shows "emits S w (handle_stun e msg src w)"
  using emits_requests [of S src, OF assms(2)] emits_binding [of S w src, OF assms(1,2)]
    emits_client_response [OF assms(1)] emits_send [of S w src e, OF assms(1,3)]
  by (simp add: handle_stun_def split: stun_class.split stun_method.split)

lemma listeners_reach:
  assumes "reaches_clients S (w_table w)" "\<And>b w. emits S w (k b w)"
  shows "emits S w (relay_to_listeners e data src ids k w)"
  unfolding relay_to_listeners_def Let_def
proof (rule emits_deliver_all)
  show "\<forall>d \<in> set (List.map_filter (\<lambda>i. case table_get (w_table w) i of None \<Rightarrow> None
      | Some t \<Rightarrow> if client_addr t = src then None
          else Some \<lparr>dl_id = i, dl_client_addr = client_addr t,
            dl_channel = channel_for_peer (en_now e) t (relay_addr e)\<rparr>) ids). S (dl_client_addr d)"
    using assms(1) target_is_client
    by (auto simp: reaches_clients_def map_filter_set split: option.splits if_splits)
qed (rule assms(2))

lemma emits_channel_stun:
  assumes "reaches_clients S (w_table w)" "\<And>w. emits S w (k w)"
  shows "emits S w (channel_stun e i data src k w)"
proof -
  have pair: "emits S w' (let peers = ice_partners (w_table w') i
      in if peers \<noteq> [] then relay_to_listeners e data src peers (\<lambda>_. k) w' else k w')"
    if "reaches_clients S (w_table w')" for w'
    using listeners_reach [OF that] assms(2) by (simp add: Let_def)
  show ?thesis
  proof (cases "extract_stun_ufrags data")
    case None
    then show ?thesis using pair [OF assms(1)] by (simp add: channel_stun_def Let_def)
  next
    case (Some p)
    obtain r l where p: "p = (r, l)" by fastforce
    let ?w = "upd_table (\<lambda>t. snd (register_ice_ufrags i l r t)) w"
    have reach: "reaches_clients S (w_table ?w)" using reaches_clients_register [OF assms(1)] by simp
    then have "S (dl_client_addr d)" if "check_target e (w_table ?w) src r = Some d" for d
      using that check_target_client by (auto simp: reaches_clients_def)
    then have "emits S ?w (deliver e d (relay_addr e) data (\<lambda>w. k (engine_touch e (dl_id d) w)) ?w)"
      if "check_target e (w_table ?w) src r = Some d" for d
      using that emits_touch [of S k, OF assms(2)] by - (rule emits_deliver, blast+)
    then show ?thesis
      using Some p pair [OF reach] by (auto simp: channel_stun_def Let_def split: option.split)
  qed
qed

lemma emits_channel_data:
  assumes "reaches_clients S (w_table w)"
    and "\<And>a d. get_by_client (w_table w) src = Some a \<Longrightarrow> is_permitted (en_now e) a (sa_ip d) \<Longrightarrow>
      \<not> is_forbidden_peer_addr (en_cfg e) d \<Longrightarrow> S d"
  shows "emits S w (handle_channel_data e chan data src w)"
proof -
  have inv: "table_inv (w_table w)" using assms(1) by (simp add: reaches_clients_def)
  have touch: "emits S w (ok (upd_table f w))" for f w by simp
  have media: "emits S w (channel_media e i data src (\<lambda>w. ok (upd_table f w)) w)" for i f
    using listeners_reach [OF assms(1)]
    by (simp add: channel_media_def Let_def touch_relay_def)
  have "S (client_addr t)" if "get_by_client (w_table w) p = Some t" for p t
    using that assms(1) get_by_client_iff [OF inv] is_client_iff [OF inv] by (auto simp: reaches_clients_def)
  then have direct: "emits S w (channel_direct e data src p (\<lambda>w. ok (upd_table f w)) w)"
    if "get_by_client (w_table w) src = Some a" "is_permitted (en_now e) a (sa_ip p)" for a p f
    using that assms(2)
    by (auto simp: channel_direct_def Let_def engine_touch_def intro!: emits_deliver emits_send_then split: option.split)
  show ?thesis
    using media direct emits_channel_stun [OF assms(1)]
    by (simp add: handle_channel_data_def Let_def split: option.split)
qed

lemma emits_client_data:
  assumes "reaches_clients S (w_table w)"
  shows "emits S w (relay_client_data e data src w)"
proof -
  have "\<forall>t \<in> set (client_targets e (w_table w) src ps). S (snd t)" for ps
    using assms client_targets_client by (auto simp: reaches_clients_def)
  then have "emits S (snd (draw e w)) (relay_targets e p (client_targets e (w_table w) src ps)
      (\<lambda>w. ok (server_touch_relay e i b w)) (snd (draw e w)))" for p ps i b
    by (intro emits_relay_targets) (simp_all add: server_touch_relay_def)
  then show ?thesis
    by (simp add: relay_client_data_def Let_def case_prod_unfold server_touch_relay_def split: option.split)
qed

text \<open>Peer traffic: the snapshot is taken after the tuple was recorded, which changes no permission.\<close>

lemma tuple_get:
  "\<exists>f. table_get (register_peer_tuple now i p t) j = map_option f (table_get t j)
    \<and> (\<forall>a. client_addr (f a) = client_addr a \<and> permissions (f a) = permissions a)"
proof (cases "j = i")
  case True
  then show ?thesis
    by (intro exI [of _ "\<lambda>a. case dm_get (known_peers a) p of Some _ \<Rightarrow> a
        | None \<Rightarrow> a\<lparr>known_peers := dm_put p \<lparr>last_seen_ms = now\<rparr> (known_peers a)\<rparr>"])
      (simp add: register_peer_tuple_def table_get_def split: option.split)
next
  case False
  then show ?thesis
    by (intro exI [of _ "\<lambda>a. a"]) (simp add: register_peer_tuple_def table_get_def option.map_ident)
qed

definition permits_peer :: "env \<Rightarrow> alloc_table \<Rightarrow> socket_addr \<Rightarrow> socket_addr \<Rightarrow> bool" where
  "permits_peer e t p c \<longleftrightarrow>
    (\<exists>i a. table_get t i = Some a \<and> client_addr a = c \<and> is_permitted (en_now e) a (sa_ip p))"

lemma permits_peer_tuple: "permits_peer e (register_peer_tuple now i q t) p c \<Longrightarrow> permits_peer e t p c"
  unfolding permits_peer_def
proof (elim exE conjE)
  fix j a
  assume a: "table_get (register_peer_tuple now i q t) j = Some a" "client_addr a = c"
    "is_permitted (en_now e) a (sa_ip p)"
  then obtain b where "table_get t j = Some b" "client_addr b = client_addr a" "permissions b = permissions a"
    using tuple_get [of now i q t j] by fastforce
  then have "table_get t j = Some b \<and> client_addr b = c \<and> is_permitted (en_now e) b (sa_ip p)"
    using a by (simp add: is_permitted_def)
  then show "\<exists>i a. table_get t i = Some a \<and> client_addr a = c \<and> is_permitted (en_now e) a (sa_ip p)" by blast
qed

lemma snapshot_permits:
  assumes "d \<in> set (snapshot_peer_deliveries (en_now e) t ids p skip use)"
  shows "permits_peer e t p (dl_client_addr d)"
proof -
  obtain i where i: "(case table_get t i of None \<Rightarrow> None
      | Some a \<Rightarrow> if \<not> is_permitted (en_now e) a (sa_ip p) then None
          else if skip \<and> sa_ip (client_addr a) = sa_ip p then None
          else Some \<lparr>dl_id = i, dl_client_addr = client_addr a,
            dl_channel = (if use then channel_for_peer (en_now e) a p else None)\<rparr>) = Some d"
    using assms unfolding snapshot_peer_deliveries_def map_filter_set by blast
  then obtain a where "table_get t i = Some a" by (cases "table_get t i") simp_all
  then have "table_get t i = Some a \<and> client_addr a = dl_client_addr d \<and> is_permitted (en_now e) a (sa_ip p)"
    using i by (auto split: if_splits)
  then show ?thesis unfolding permits_peer_def by blast
qed

lemma emits_snapshot:
  assumes "w' = w \<or> (\<exists>i. w' = upd_table (register_peer_tuple (en_now e) i p) w)"
    and "\<And>c. permits_peer e (w_table w) p c \<Longrightarrow> S c"
  shows "emits S w (deliver_all e (snapshot_peer_deliveries (en_now e) (w_table w') ids p skip use) p data ok w')"
proof -
  have "emits S w' (deliver_all e (snapshot_peer_deliveries (en_now e) (w_table w') ids p skip use) p data ok w')"
    using assms snapshot_permits permits_peer_tuple by (intro emits_deliver_all) fastforce+
  moreover have "w_sent w' = w_sent w" using assms(1) by auto
  ultimately show ?thesis using emits_cong [of w' w] by blast
qed

lemma emits_peer:
  assumes "\<And>c. permits_peer e (w_table w) p c \<Longrightarrow> S c"
  shows "emits S w (handle_peer_data e data p w)" "emits S w (handle_rtp e ssrc data p w)"
    "emits S w (choose_and_deliver e use data p w)"
proof -
  have "emits S w (deliver_all e (snapshot_peer_deliveries (en_now e) (w_table w) ids p skip use) p data ok w)"
    "emits S w (deliver_all e (snapshot_peer_deliveries (en_now e) (register_peer_tuple (en_now e) i p (w_table w)) ids p skip use)
      p data ok (upd_table (register_peer_tuple (en_now e) i p) w))" for ids skip use i
    using emits_snapshot [of w w e p S, OF disjI1 [OF refl] assms]
      emits_snapshot [of "upd_table (register_peer_tuple (en_now e) i p) w" w e p S, OF _ assms]
    by (simp_all, metis)
  then show "emits S w (handle_peer_data e data p w)" "emits S w (handle_rtp e ssrc data p w)"
    "emits S w (choose_and_deliver e use data p w)"
    by (simp_all add: handle_peer_data_def handle_rtp_def choose_and_deliver_def Let_def case_prod_unfold)
qed

section \<open>Properties\<close>

text \<open>
  C1. Egress policy: whatever datagram arrives from whatever source, everything the server sends
  while it handles it goes to the sender itself, to a client of this server, or to an external peer
  the sending client holds a live permission for and which is not a forbidden destination. A sender
  without an allocation never reaches anybody but itself and the clients that permit its address.
\<close>

theorem egress_confined:
  assumes "table_inv (w_table w)"
  shows "case handle_packet e data src w of (res, w') \<Rightarrow>
    \<exists>l. w_sent w' = w_sent w @ l \<and> (\<forall>(pkt, dst) \<in> set l. may_reach e (w_table w) src dst)"
proof -
  let ?t = "w_table w" and ?S = "may_reach e (w_table w) src"
  have "emits ?S w (handle_packet e data src w)"
  proof (cases "get_by_client ?t src")
    case None
    have "?S c" if "permits_peer e ?t src c" for c
      using that None get_by_client_iff [OF assms] table_inv_alloc [OF assms]
      by (fastforce simp: permits_peer_def may_reach_def table_get_def)
    note peer = emits_peer [OF this]
    have client: "\<not> is_client ?t src" using None is_client_iff [OF assms] by simp
    have self: "?S src" by (simp add: may_reach_def)
    have "emits ?S w (handle_stun e msg src w)" for msg
      using emits_requests [of ?S, OF self] None client
      by (simp add: handle_stun_def handle_binding_request_def handle_client_response_def handle_send_def
          emits_reply self split: stun_class.split stun_method.split)
    then show ?thesis
      using peer client None
      by (simp add: handle_packet_def Let_def handle_rtcp_def handle_dtls_def handle_channel_data_def
          split: packet_type.split)
  next
    case (Some a)
    have reach: "reaches_clients ?S ?t" using assms Some by (simp add: reaches_clients_def may_reach_def)
    have "emits ?S w (handle_stun e msg src w)" for msg
      by (rule emits_stun [OF reach]) (simp_all add: may_reach_def)
    moreover have "emits ?S w (handle_channel_data e chan payload src w)" for chan payload
      by (rule emits_channel_data [OF reach]) (simp add: may_reach_def)
    moreover have "is_client ?t src" using Some is_client_iff [OF assms] by simp
    ultimately show ?thesis
      using emits_client_data [OF reach] by (simp add: handle_packet_def Let_def split: packet_type.split)
  qed
  then show ?thesis by (auto simp: emits_def case_prod_unfold)
qed

theorem egress_confined_witness:
  "\<exists>l. w_sent (snd (handle_packet (demo_env open_config) demo_binding demo_client demo_world)) = l
    \<and> (\<forall>(pkt, dst) \<in> set l. may_reach (demo_env open_config) demo_table demo_client dst)"
  using egress_confined [OF demo_client_alloc(1), where e = "demo_env open_config" and data = demo_binding and src = demo_client]
  by (auto simp: case_prod_unfold demo_world_def)

end
