(* ===== verification/Routing.thy ===== *)
theory Routing
  imports Egress
begin

text \<open>
  Where relayed traffic ends up, and what the cleanup task leaves: data along an ICE pair reaches
  the partner and nobody else, peers reach the allocations that permit them, ChannelData reaches
  the bound peer, and one tick of the cleanup removes exactly what has lapsed.
\<close>

section \<open>Lemmas\<close>

lemma get_by_client_map:
  assumes "table_inv t" "table_inv t'"
    and "\<And>i. dm_get (allocations t') i = map_option f (dm_get (allocations t) i)"
    and "\<And>a. alloc_id (f a) = alloc_id a \<and> client_addr (f a) = client_addr a"
  shows "get_by_client t' c = map_option f (get_by_client t c)"
proof (cases "get_by_client t c")
  case None
  have "get_by_client t' c \<noteq> Some b" for b
    using None get_by_client_iff [OF assms(2), of c b] get_by_client_iff [OF assms(1), of c] assms(3,4) by fastforce
  then show ?thesis using None by (cases "get_by_client t' c") auto
next
  case (Some a)
  then have "get_by_client t' c = Some (f a)"
    using get_by_client_iff [OF assms(2), of c "f a"] get_by_client_iff [OF assms(1), of c a] assms(3,4) by simp
  then show ?thesis using Some by simp
qed

lemma sweep_by_client:
  assumes "table_inv (w_table w)"
  shows "get_by_client (w_table (sweep_and_release (retain_unless Q) w)) c =
      (case get_by_client (w_table w) c of Some a \<Rightarrow> if Q a then None else Some a | None \<Rightarrow> None)"
    and "table_inv (w_table (sweep_and_release (retain_unless Q) w))"
    and "w_sent (sweep_and_release (retain_unless Q) w) = w_sent w"
  using reap_by_client [OF assms, of "\<lambda>_. Q"] reap_inv [OF assms, of "\<lambda>_. Q"]
  by (simp_all add: sweep_and_release_def case_prod_unfold Let_def retain_is_reap)

definition lapsed_client :: "u64 \<Rightarrow> allocation \<Rightarrow> bool" where
  "lapsed_client now a \<longleftrightarrow> is_expired now a \<or> is_inactive now INACTIVITY_TIMEOUT_SECS a
    \<or> is_orphaned_sender now INACTIVITY_TIMEOUT_SECS a"

definition trimmed :: "u64 \<Rightarrow> allocation \<Rightarrow> allocation" where
  "trimmed now a = snd (cleanup_expired_permissions now (cleanup_expired_channels now a))"

lemma tick_by_client:
  assumes "table_inv (w_table w)"
  shows "get_by_client (w_table (cleanup_tick e w)) c =
    (case get_by_client (w_table w) c of
       Some a \<Rightarrow> if lapsed_client (en_now e) a then None else Some (trimmed (en_now e) a)
     | None \<Rightarrow> None)"
proof -
  let ?now = "en_now e"
  define w1 where "w1 = sweep_and_release (cleanup_expired ?now) w"
  define w2 where "w2 = sweep_and_release (cleanup_inactive ?now INACTIVITY_TIMEOUT_SECS) w1"
  define w3 where "w3 = sweep_and_release (cleanup_orphaned_senders ?now INACTIVITY_TIMEOUT_SECS) w2"
  note sweeps = cleanup_expired_def [abs_def] cleanup_inactive_def [abs_def] cleanup_orphaned_senders_def [abs_def]
  have inv: "table_inv (w_table w1)" "table_inv (w_table w2)" "table_inv (w_table w3)"
    using assms sweep_by_client(2) by (simp_all add: w1_def w2_def w3_def sweeps)
  have swept: "get_by_client (w_table w3) c =
      (case get_by_client (w_table w) c of Some a \<Rightarrow> if lapsed_client ?now a then None else Some a | None \<Rightarrow> None)"
    using sweep_by_client(1) assms inv
    by (simp add: w1_def w2_def w3_def sweeps lapsed_client_def split: option.split)
  let ?t4 = "cleanup_channel_bindings ?now (w_table w3)"
  have t4: "table_inv ?t4" "get_by_client ?t4 c = map_option (cleanup_expired_channels ?now) (get_by_client (w_table w3) c)"
    using cleanup_channel_bindings_inv [OF inv(3)] neutral_updates(7) [of ?now]
    by (auto simp: neutral_def intro!: get_by_client_map [OF inv(3)] cleanup_channel_bindings_get)
  have "get_by_client (cleanup_permissions ?now ?t4) c
      = map_option (\<lambda>a. snd (cleanup_expired_permissions ?now a)) (get_by_client ?t4 c)"
    using cleanup_permissions_table [OF t4(1)]
    by (intro get_by_client_map [OF t4(1)]) (simp_all add: cleanup_expired_permissions_def Let_def)
  moreover have "w_table (cleanup_tick e w) = cleanup_permissions ?now ?t4"
    by (simp add: cleanup_tick_def Let_def w1_def w2_def w3_def)
  ultimately show ?thesis using t4(2) swept by (simp add: trimmed_def split: option.split)
qed

lemma trimmed_views:
  assumes "alloc_inv a"
  shows "is_permitted now (trimmed now a) ip = is_permitted now a ip"
    and "peer_for_channel now (trimmed now a) ch = peer_for_channel now a ch"
    and "dm_get (permissions (trimmed now a)) ip \<noteq> None \<Longrightarrow> is_permitted now a ip"
proof -
  have wf: "dm_wf (permissions a)" "dm_wf (channels a)" using assms by (simp_all add: alloc_inv_def alloc_maps_wf_def)
  have perms: "permissions (cleanup_expired_channels now a) = permissions a"
  proof -
    have "permissions (fold drop_lapsed ls a) = permissions a" for ls
      by (induction ls arbitrary: a) auto
    then show ?thesis by (simp add: cleanup_expired_channels_def Let_def)
  qed
  have get: "dm_get (permissions (trimmed now a)) ip =
      (case dm_get (permissions a) ip of Some e \<Rightarrow> if now < e then Some e else None | None \<Rightarrow> None)"
    unfolding trimmed_def using cleanup_permissions_get [of "cleanup_expired_channels now a"] wf(1) perms by simp
  show "is_permitted now (trimmed now a) ip = is_permitted now a ip"
    using get by (simp add: is_permitted_def split: option.split)
  show "is_permitted now a ip" if "dm_get (permissions (trimmed now a)) ip \<noteq> None"
    using that get by (auto simp: is_permitted_def split: option.splits if_splits)
  have "channels (trimmed now a) = channels (cleanup_expired_channels now a)"
    by (simp add: trimmed_def cleanup_expired_permissions_def Let_def)
  then show "peer_for_channel now (trimmed now a) ch = peer_for_channel now a ch"
    using cleanup_channels_peer [OF wf(2), of now now ch] by (simp add: peer_for_channel_def)
qed

section \<open>Properties\<close>

text \<open>
  C17. One tick of the cleanup: a client loses its allocation exactly when it has expired, has been
  silent for 45 seconds, or has sent media without a successful relay for that long; every other
  client keeps it, with every live permission and channel binding intact and no lapsed permission
  left. Nothing is sent.
\<close>

theorem cleanup_tick_exact:
  assumes "table_inv (w_table w)"
  shows "w_sent (cleanup_tick e w) = w_sent w
    \<and> (case get_by_client (w_table w) c of
         None \<Rightarrow> get_by_client (w_table (cleanup_tick e w)) c = None
       | Some a \<Rightarrow>
           if is_expired (en_now e) a \<or> is_inactive (en_now e) 45 a \<or> is_orphaned_sender (en_now e) 45 a
           then get_by_client (w_table (cleanup_tick e w)) c = None
           else \<exists>b. get_by_client (w_table (cleanup_tick e w)) c = Some b
             \<and> (\<forall>ip. is_permitted (en_now e) b ip \<longleftrightarrow> is_permitted (en_now e) a ip)
             \<and> (\<forall>ip. dm_get (permissions b) ip \<noteq> None \<longrightarrow> is_permitted (en_now e) b ip)
             \<and> (\<forall>ch. peer_for_channel (en_now e) b ch = peer_for_channel (en_now e) a ch))"
proof (cases "get_by_client (w_table w) c")
  case None
  then show ?thesis
    using tick_by_client [OF assms, of e c]
    by (simp add: cleanup_tick_def Let_def sweep_and_release_def case_prod_unfold)
next
  case (Some a)
  have "alloc_inv a"
    using table_inv_alloc [OF assms] get_by_client_id [OF assms Some] by blast
  from trimmed_views [OF this, of "en_now e"] show ?thesis
    using Some tick_by_client [OF assms, of e c]
    by (auto simp: lapsed_client_def INACTIVITY_TIMEOUT_SECS_def cleanup_tick_def Let_def
        sweep_and_release_def case_prod_unfold)
qed

section \<open>ICE pairs\<close>

text \<open>Two clients whose registered fragments name each other.\<close>

definition ice_partner :: "alloc_table \<Rightarrow> socket_addr \<Rightarrow> socket_addr \<Rightarrow> bool" where
  "ice_partner t src dst \<longleftrightarrow>
    (\<exists>a b l r. get_by_client t src = Some a \<and> get_by_client t dst = Some b \<and> src \<noteq> dst
      \<and> ice_ufrag a = Some l \<and> ice_remote_ufrag a = Some r
      \<and> ice_ufrag b = Some r \<and> ice_remote_ufrag b = Some l)"

lemma find_ice_peers_iff:
  assumes "table_inv t"
  shows "i \<in> set (find_ice_peers t l r) \<longleftrightarrow>
    (\<exists>b. table_get t i = Some b \<and> ice_ufrag b = Some r \<and> ice_remote_ufrag b = Some l)"
  using table_inv_ufrag [OF assms, of r i]
  by (auto simp: find_ice_peers_def find_ice_peer_def table_get_def split: option.splits if_splits)

lemma find_ice_peers_single: "i \<in> set (find_ice_peers t l r) \<Longrightarrow> find_ice_peers t l r = [i]"
  by (cases "find_ice_peer t l r") (auto simp: find_ice_peers_def)

lemma server_touch_sent [simp]: "w_sent (server_touch_relay e i b w) = w_sent w"
  by (simp add: server_touch_relay_def)

lemma listener_delivery:
  "d \<in> set (List.map_filter (\<lambda>i. case table_get t i of None \<Rightarrow> None
      | Some t \<Rightarrow> if client_addr t = src then None
          else Some \<lparr>dl_id = i, dl_client_addr = client_addr t, dl_channel = ch t\<rparr>) ids)
    \<Longrightarrow> \<exists>i b. i \<in> set ids \<and> table_get t i = Some b \<and> client_addr b \<noteq> src \<and> dl_client_addr d = client_addr b"
  by (auto simp: map_filter_lookup split: if_splits)

lemma peers_are_partners:
  assumes "table_inv t" "get_by_client t src = Some a" "ice_ufrag a = Some l" "ice_remote_ufrag a = Some r"
    and "i \<in> set (find_ice_peers t l r)" "table_get t i = Some b" "client_addr b \<noteq> src"
  shows "ice_partner t src (client_addr b)"
proof -
  have "alloc_id b = i" using table_inv_alloc [OF assms(1)] assms(6) by (simp add: table_get_def)
  then have "get_by_client t (client_addr b) = Some b"
    using get_by_client_iff [OF assms(1)] assms(6) by (simp add: table_get_def)
  then show ?thesis
    using assms find_ice_peers_iff [OF assms(1), of i l r] unfolding ice_partner_def by metis
qed

lemma partner_unique:
  assumes "table_inv t" "ice_partner t src d" "ice_partner t src d'"
  shows "d = d'"
proof -
  obtain a b b' l r l' r' where p: "get_by_client t src = Some a" "ice_remote_ufrag a = Some r" "ice_remote_ufrag a = Some r'"
    "get_by_client t d = Some b" "ice_ufrag b = Some r" "get_by_client t d' = Some b'" "ice_ufrag b' = Some r'"
    using assms(2,3) unfolding ice_partner_def by auto
  then have "dm_get (by_ice_ufrag t) r = Some (alloc_id b)" "dm_get (by_ice_ufrag t) r = Some (alloc_id b')"
    using table_inv_ufrag [OF assms(1)] get_by_client_id [OF assms(1)] by auto
  then show ?thesis using get_by_client_iff [OF assms(1)] p(4,6) by (metis option.inject)
qed

lemma ice_partners_of:
  assumes "table_inv t" "get_by_client t src = Some a"
  shows "ice_partners t (alloc_id a) =
    (case (ice_ufrag a, ice_remote_ufrag a) of (Some l, Some r) \<Rightarrow> find_ice_peers t l r | _ \<Rightarrow> [])"
  using get_by_client_id [OF assms]
  by (simp add: ice_partners_def sender_ufrags_def table_get_def get_ice_ufrag_def get_ice_remote_ufrag_def)

lemma listeners_are_partners:
  assumes "table_inv (w_table w)" "get_by_client (w_table w) src = Some a" "\<And>b w. emits S w (k b w)"
    and "S = ice_partner (w_table w) src"
  shows "emits S w (relay_to_listeners e data src (ice_partners (w_table w) (alloc_id a)) k w)"
  unfolding relay_to_listeners_def Let_def
proof (rule emits_deliver_all)
  show "\<forall>d \<in> set (List.map_filter (\<lambda>i. case table_get (w_table w) i of None \<Rightarrow> None
      | Some t \<Rightarrow> if client_addr t = src then None
          else Some \<lparr>dl_id = i, dl_client_addr = client_addr t,
            dl_channel = channel_for_peer (en_now e) t (relay_addr e)\<rparr>)
      (ice_partners (w_table w) (alloc_id a))). S (dl_client_addr d)"
  proof
    fix d
    assume "d \<in> set (List.map_filter (\<lambda>i. case table_get (w_table w) i of None \<Rightarrow> None
      | Some t \<Rightarrow> if client_addr t = src then None
          else Some \<lparr>dl_id = i, dl_client_addr = client_addr t,
            dl_channel = channel_for_peer (en_now e) t (relay_addr e)\<rparr>)
      (ice_partners (w_table w) (alloc_id a)))"
    from listener_delivery [OF this] show "S (dl_client_addr d)"
      using peers_are_partners [OF assms(1,2)]
      by (cases "ice_ufrag a"; cases "ice_remote_ufrag a") (auto simp: assms(4) ice_partners_of [OF assms(1,2)])
  qed
qed (rule assms(3))

text \<open>
  C9. The media of a call stays within the call. Data a client sends raw, media it sends over a
  channel bound to the relay address, and responses it sends to connectivity checks are forwarded
  only to its ICE partner, the one client whose registered fragments are the sender's, reversed; a
  sender without such a partner reaches nobody.
\<close>

theorem media_stays_in_call:
  assumes "table_inv (w_table w)"
    and "r = relay_client_data e data src w \<or> r = handle_client_response e msg src w
      \<or> (r = handle_channel_data e chan data src w \<and> \<not> is_stun data
          \<and> (\<exists>a. get_by_client (w_table w) src = Some a \<and> peer_for_channel (en_now e) a chan = Some (relay_addr e)))"
  shows "\<exists>l. w_sent (snd r) = w_sent w @ l
    \<and> (\<forall>(pkt, dst) \<in> set l. ice_partner (w_table w) src dst
        \<and> (\<forall>other. ice_partner (w_table w) src other \<longrightarrow> other = dst))"
proof -
  let ?t = "w_table w" and ?S = "ice_partner (w_table w) src"
  have "emits ?S w r"
  proof (cases "get_by_client ?t src")
    case None
    then show ?thesis
      using assms(2) by (auto simp: relay_client_data_def handle_client_response_def split: if_splits)
  next
    case (Some a)
    note partner = peers_are_partners [OF assms(1) Some]
    have "\<forall>x \<in> set (client_targets e ?t src (find_ice_peers ?t l r)). ?S (snd x)"
      if "ice_ufrag a = Some l" "ice_remote_ufrag a = Some r" for l r
      using partner [OF that] by (auto simp: client_targets_def map_filter_set split: option.splits if_splits)
    then have "emits ?S (snd (draw e w)) (relay_targets e p (client_targets e ?t src (find_ice_peers ?t l r))
        (\<lambda>w. ok (server_touch_relay e i b w)) (snd (draw e w)))"
      if "ice_ufrag a = Some l" "ice_remote_ufrag a = Some r" for p l r i b
      using that by (intro emits_relay_targets) simp_all
    then have "emits ?S w (relay_client_data e data src w)"
      using Some by (auto simp: relay_client_data_def Let_def case_prod_unfold
          get_ice_ufrag_def get_ice_remote_ufrag_def split: option.split)
    moreover have "emits ?S w (handle_client_response e msg src w)"
    proof (cases "(ice_ufrag a, ice_remote_ufrag a)")
      case (Pair l r)
      then show ?thesis
        using Some partner
        by (cases l; cases r)
          (auto simp: handle_client_response_def Let_def get_ice_ufrag_def get_ice_remote_ufrag_def map_filter_lookup
            intro!: emits_indicate split: if_splits)
    qed
    moreover have "emits ?S w (handle_channel_data e chan data src w)"
      if "\<not> is_stun data" "peer_for_channel (en_now e) a chan = Some (relay_addr e)"
      using Some that listeners_are_partners [OF assms(1) Some _ refl]
      by (simp add: handle_channel_data_def channel_media_def Let_def touch_relay_def)
    ultimately show ?thesis using assms(2) Some by (auto split: if_splits)
  qed
  then show ?thesis using partner_unique [OF assms(1)] by (fastforce simp: emits_def)
qed

section \<open>Delivery\<close>

lemma send_then_ok:
  "en_send_ok e (w_sends w) \<Longrightarrow> send_then e p d k w = k (attempt e p d w)"
  by (simp add: send_then_def Let_def)

text \<open>
  Delivery along an ICE pair: when two clients name each other and both permit the relay
  address, whatever one of them sends raw reaches the other as exactly one data indication from the
  relay address, and the sender counts as successfully relayed.
\<close>

lemma pair_delivery:
  assumes "table_inv (w_table w)" "get_by_client (w_table w) src = Some a" "get_by_client (w_table w) dst = Some b"
    and "ice_partner (w_table w) src dst"
    and "is_permitted (en_now e) a (ext_ip e)" "is_permitted (en_now e) b (ext_ip e)"
    and "en_send_ok e (w_sends w)"
  shows "\<exists>w' a'. relay_client_data e data src w = (Inr (), w')
    \<and> w_sent w' = w_sent w @ [(server_data_indication (en_rand e (w_rands w)) (relay_addr e) data, dst)]
    \<and> get_by_client (w_table w') src = Some a' \<and> last_successful_relay_ms a' = en_now e"
proof -
  let ?t = "w_table w"
  obtain l r where u: "ice_ufrag a = Some l" "ice_remote_ufrag a = Some r" "ice_ufrag b = Some r"
    "ice_remote_ufrag b = Some l" "src \<noteq> dst"
    using assms(2-4) unfolding ice_partner_def by auto
  have ids: "table_get ?t (alloc_id b) = Some b" "client_addr b = dst" "client_addr a = src"
    "dm_get (by_client ?t) src = Some (alloc_id a)" "alloc_id a \<noteq> alloc_id b"
    using get_by_client_iff [OF assms(1), of src a] get_by_client_iff [OF assms(1), of dst b]
      get_by_client_id [OF assms(1,2)] assms(2,3) u(5)
    by (simp_all add: table_get_def) (metis option.inject)
  have "find_ice_peers ?t l r = [alloc_id b]"
    using find_ice_peers_iff [OF assms(1), of "alloc_id b" l r] ids(1) u find_ice_peers_single by blast
  then have peers: "client_targets e ?t src (find_ice_peers ?t l r) = [(alloc_id b, dst)]"
    "find_ice_peers ?t l r \<noteq> []"
    using ids u(5) assms(6) by (simp_all add: client_targets_def List.map_filter_simps)
  let ?pkt = "server_data_indication (en_rand e (w_rands w)) (relay_addr e) data"
  let ?w1 = "upd_table (with_alloc (alloc_id b) (touch (en_now e))) (attempt e ?pkt dst (snd (draw e w)))"
  let ?w' = "server_touch_relay e (alloc_id a) True ?w1"
  have "relay_client_data e data src w = (Inr (), ?w')"
    using assms(2,5,7) u(1,2) peers
    by (simp add: relay_client_data_def Let_def case_prod_unfold get_ice_ufrag_def get_ice_remote_ufrag_def
        send_then_ok ok_def)
  moreover have "w_sent ?w' = w_sent w @ [(?pkt, dst)]" using assms(7) by (simp add: attempt_def)
  moreover have "get_by_client (w_table ?w') src = Some (touch_relay_success (en_now e) a)"
    using ids assms(2) by (simp add: server_touch_relay_def get_by_client_def)
  ultimately show ?thesis by (auto simp: touch_relay_success_def)
qed

text \<open>
  C22. Peer traffic with one candidate: RTP from a peer whose address is known to, or permitted by,
  exactly one allocation is delivered once to that client when its permission is live, over the
  bound channel if there is one and as a data indication otherwise; and the peer's address and port
  are recorded, in the tuple index as this allocation's and among the peers the allocation knows, so
  later packets from there are looked up by the tuple and take the same way.
\<close>

theorem peer_delivery_exact:
  assumes "lookup_by_peer_addr (w_table w) p = ([i], True)" "table_get (w_table w) i = Some a"
    and "is_permitted (en_now e) a (sa_ip p)" "en_send_ok e (w_sends w)"
  shows "\<exists>w'. handle_rtp e ssrc data p w = (Inr (), w')
    \<and> w_sent w' = w_sent w @
        [(case channel_for_peer (en_now e) a p of
            Some ch \<Rightarrow> build_channel_data ch data
          | None \<Rightarrow> engine_data_indication (en_rand e (w_rands w)) p data, client_addr a)]
    \<and> lookup_by_peer_tuple (w_table w') p = Some i
    \<and> (\<exists>b. table_get (w_table w') i = Some b \<and> dm_get (known_peers b) p \<noteq> None)
    \<and> lookup_by_peer_addr (w_table w') p = ([i], True)"
proof -
  let ?t = "register_peer_tuple (en_now e) i p (w_table w)"
  obtain b where b: "table_get ?t i = Some b" "client_addr b = client_addr a" "permissions b = permissions a"
    "channels b = channels a" "channels_reverse b = channels_reverse a" "dm_get (known_peers b) p \<noteq> None"
    using assms(2) by (auto simp: register_peer_tuple_def table_get_def split: option.splits)
  have views: "is_permitted (en_now e) b (sa_ip p)" "channel_for_peer (en_now e) b p = channel_for_peer (en_now e) a p"
    using assms(3) unfolding is_permitted_def channel_for_peer_def b(3,4,5) by simp_all
  let ?d = "\<lparr>dl_id = i, dl_client_addr = client_addr a, dl_channel = channel_for_peer (en_now e) a p\<rparr>"
  have snap: "snapshot_peer_deliveries (en_now e) ?t [i] p False True = [?d]"
    using b(1,2) views by (simp add: snapshot_peer_deliveries_def List.map_filter_simps)
  let ?kept = "\<lambda>t. lookup_by_peer_tuple t p = Some i \<and> (\<exists>b. table_get t i = Some b \<and> dm_get (known_peers b) p \<noteq> None)
    \<and> lookup_by_peer_addr t p = ([i], True)"
  have "?kept ?t" using b(1,6) by (simp add: lookup_by_peer_addr_def lookup_by_peer_tuple_def register_peer_tuple_def)
  moreover have "?kept (with_alloc i (touch now) t)" if "?kept t" for now t
    using that by (auto simp: lookup_by_peer_addr_def lookup_by_peer_tuple_def table_get_def touch_def)
  moreover have "handle_rtp e ssrc data p w
      = deliver_all e [?d] p data ok (upd_table (register_peer_tuple (en_now e) i p) w)"
    using assms(1) snap by (simp add: handle_rtp_def Let_def)
  ultimately show ?thesis
    using assms(4)
    by (auto simp: deliver_def send_channel_data_def send_data_indication_def build_channel_data_def Let_def
        case_prod_unfold send_then_def attempt_def engine_touch_def ok_def upd_table_def draw_def
        split: option.splits)
qed


section \<open>Data to a peer\<close>

text \<open>
  What one datagram of application data to a peer other than the relay address puts on the wire: the
  bare data for an external peer; for a client of this server that admits relayed traffic, the data
  under the channel that client bound to the sender, or a data indication from the sender.
\<close>

definition outbound :: "env \<Rightarrow> world \<Rightarrow> allocation \<Rightarrow> socket_addr \<Rightarrow> socket_addr \<Rightarrow> bytes \<Rightarrow> (bytes \<times> socket_addr) list" where
  "outbound e w a src peer data =
    (if \<not> is_permitted (en_now e) a (sa_ip peer) \<or> is_forbidden_peer_addr (en_cfg e) peer \<or> peer = src then []
     else case get_by_client (w_table w) peer of
       None \<Rightarrow> [(data, peer)]
     | Some b \<Rightarrow>
         if is_permitted (en_now e) b (ext_ip e)
         then [(case channel_for_peer (en_now e) b src of
                  Some ch \<Rightarrow> build_channel_data ch data
                | None \<Rightarrow> build_data_indication (en_rand e (w_rands w)) src data, peer)]
         else [])"

text \<open>
  C16. Away from the relay address, Send indications and ChannelData are equivalent ways to reach a
  peer: to an external peer, to another client that may be addressed, or to a forbidden destination
  outside the server, both put exactly the same datagrams on the wire. These are none without a live
  permission of the sender, none to a forbidden destination and none to the sender itself. The claim
  leaves out the relay address, where the two differ: an ICE check sent there in a Send indication
  needs the target's permission, one sent as ChannelData does not.
\<close>

theorem send_and_channel_agree:
  assumes "table_inv (w_table w)" "get_by_client (w_table w) src = Some a"
    and "peer \<noteq> relay_addr e" "is_forbidden_peer_addr (en_cfg e) peer \<Longrightarrow> get_by_client (w_table w) peer = None"
    and "en_send_ok e (w_sends w)" "length (en_rand e (w_rands w)) = 12"
    and "si_xor_peer_addresses msg = peer # ps" "si_data msg = Some data"
    and "peer_for_channel (en_now e) a chan = Some peer"
  shows "w_sent (snd (handle_send e msg src w)) = w_sent w @ outbound e w a src peer data
    \<and> w_sent (snd (handle_channel_data e chan data src w)) = w_sent w @ outbound e w a src peer data"
proof -
  have client: "is_client (w_table w) src" using is_client_iff [OF assms(1)] assms(2) by simp
  have addr: "client_addr b = peer" if "get_by_client (w_table w) peer = Some b" for b
    using that get_by_client_iff [OF assms(1)] by simp
  have "w_sent (snd (handle_send e msg src w)) = w_sent w @ outbound e w a src peer data"
    using assms client
    by (simp add: handle_send_def send_to_peer_def classify_send_target_def outbound_def Let_def send_then_ok attempt_def ok_def
        draw_def split: option.split)
  moreover have "w_sent (snd (handle_channel_data e chan data src w)) = w_sent w @ outbound e w a src peer data"
    using assms addr
    by (simp add: handle_channel_data_def channel_direct_def deliver_def send_channel_data_def build_channel_data_def
        send_data_indication_def indication_msgs(3) outbound_def Let_def send_then_ok attempt_def ok_def
        draw_def engine_touch_def split: option.split)
  ultimately show ?thesis by blast
qed

section \<open>Witnesses\<close>

text \<open>A call: two clients whose fragments name each other and who permit the relay address.\<close>

definition demo_callee :: allocation where
  "demo_callee = new_allocation 0 2 demo_peer (str ''v'') 600 (replicate 12 1)"

definition demo_pair :: alloc_table where
  "demo_pair = snd (create_or_get 0 demo_peer (str ''v'') 600 (replicate 12 1) demo_table)"

definition demo_named :: alloc_table where
  "demo_named = snd (register_ice_ufrags 2 (str ''bob'') (str ''alice'')
     (snd (register_ice_ufrags 1 (str ''alice'') (str ''bob'') demo_pair)))"

definition demo_call :: alloc_table where
  "demo_call = table_add_permission 0 2 (V4 203 0 113 5) (table_add_permission 0 1 (V4 203 0 113 5) demo_named)"

definition demo_call_world :: world where
  "demo_call_world = demo_world\<lparr>w_table := demo_call\<rparr>"

lemma demo_pair_value:
  "demo_pair = \<lparr>allocations = [(1, demo_alloc), (2, demo_callee)], by_client = [(demo_client, 1), (demo_peer, 2)],
     by_permission = [], by_peer_tuple = [], by_ice_ufrag = [], id_counter = 3\<rparr>"
  by (simp add: demo_pair_def demo_table_def demo_callee_def demo_alloc_def create_or_get_def new_table_def
      dm_get_def dm_put_def add_u64_def Let_def demo_client_def demo_peer_def)
    (simp add: numeral_2_eq_2)

lemma demo_named_value:
  "demo_named = demo_pair\<lparr>allocations := [(1, set_ufrags (str ''alice'') (str ''bob'') demo_alloc),
       (2, set_ufrags (str ''bob'') (str ''alice'') demo_callee)],
     by_ice_ufrag := [(str ''alice'', 1), (str ''bob'', 2)]\<rparr>"
  by (simp add: demo_named_def demo_pair_value register_ice_ufrags_def dm_get_def dm_put_def with_alloc_def Let_def
      get_ice_ufrag_def demo_alloc_def demo_callee_def new_allocation_def str_def)

definition demo_caller_side :: allocation where
  "demo_caller_side = alloc_add_permission 0 (V4 203 0 113 5) (set_ufrags (str ''alice'') (str ''bob'') demo_alloc)"

definition demo_callee_side :: allocation where
  "demo_callee_side = alloc_add_permission 0 (V4 203 0 113 5) (set_ufrags (str ''bob'') (str ''alice'') demo_callee)"

lemma demo_call_value:
  "demo_call = demo_named\<lparr>allocations := [(1, demo_caller_side), (2, demo_callee_side)],
     by_permission := [(V4 203 0 113 5, [1, 2])]\<rparr>"
  by (simp add: demo_call_def demo_named_value demo_pair_value table_add_permission_def index_permission_def
      dm_get_def dm_put_def with_alloc_def Let_def demo_caller_side_def demo_callee_side_def)

lemma demo_call_inv: "table_inv demo_call"
proof -
  have "table_inv demo_pair"
    unfolding demo_pair_def by (intro create_or_get_inv demo_table_inv) (simp add: demo_table_def table_eval)
  then have "table_inv demo_named" unfolding demo_named_def by (intro register_ice_ufrags_inv)
  then have "table_inv (table_add_permission 0 1 (V4 203 0 113 5) demo_named)"
    by (rule table_add_permission_inv) (simp add: demo_named_value dm_get_def)
  then show ?thesis unfolding demo_call_def
    by (rule table_add_permission_inv)
      (simp add: demo_named_value dm_get_def dm_put_def table_add_permission_def index_permission_def with_alloc_def Let_def)
qed

lemma demo_call_clients:
  "get_by_client demo_call demo_client = Some demo_caller_side" "get_by_client demo_call demo_peer = Some demo_callee_side"
  by (simp_all add: demo_call_value demo_named_value demo_pair_value get_by_client_def dm_get_def demo_client_def demo_peer_def)

lemma demo_sides:
  "ice_ufrag demo_caller_side = Some (str ''alice'')" "ice_remote_ufrag demo_caller_side = Some (str ''bob'')"
  "ice_ufrag demo_callee_side = Some (str ''bob'')" "ice_remote_ufrag demo_callee_side = Some (str ''alice'')"
  "is_permitted 1000 demo_caller_side (V4 203 0 113 5)" "is_permitted 1000 demo_callee_side (V4 203 0 113 5)"
  "\<not> is_expired 1000 demo_caller_side" "is_expired 600001 demo_caller_side"
  by (simp_all add: demo_caller_side_def demo_callee_side_def demo_alloc_def demo_callee_def new_allocation_def
      alloc_add_permission_def set_ufrags_def set_ice_ufrag_def set_ice_remote_ufrag_def is_permitted_def is_expired_def
      dm_get_def dm_put_def add_u64_def PERMISSION_LIFETIME_MS_def)

lemma demo_side_active:
  "\<not> is_inactive 1000 45 demo_caller_side" "\<not> is_orphaned_sender 1000 45 demo_caller_side"
  by (simp_all add: demo_caller_side_def demo_alloc_def new_allocation_def alloc_add_permission_def set_ufrags_def
      set_ice_ufrag_def set_ice_remote_ufrag_def is_inactive_def is_orphaned_sender_def is_expired_secs_def
      mul_u64_def)

lemma demo_call_partner: "ice_partner demo_call demo_client demo_peer"
proof -
  have "demo_client \<noteq> demo_peer" by (simp add: demo_client_def demo_peer_def)
  then show ?thesis by (simp add: ice_partner_def demo_call_clients demo_sides)
qed

lemma demo_call_world_table [simp]: "w_table demo_call_world = demo_call"
  by (simp add: demo_call_world_def)

theorem cleanup_tick_exact_witness:
  "(\<exists>b. get_by_client (w_table (cleanup_tick (demo_env open_config) demo_call_world)) demo_client = Some b
      \<and> is_permitted 1000 b (V4 203 0 113 5))
    \<and> get_by_client (w_table (cleanup_tick (demo_env open_config\<lparr>en_now := 600001\<rparr>) demo_call_world)) demo_client = None"
  using cleanup_tick_exact [of demo_call_world "demo_env open_config" demo_client]
    cleanup_tick_exact [of demo_call_world "demo_env open_config\<lparr>en_now := 600001\<rparr>" demo_client]
    demo_call_inv demo_call_clients(1) demo_sides
  by (auto simp: demo_side_active)

theorem media_stays_in_call_witness:
  "\<exists>l. w_sent (snd (relay_client_data (demo_env open_config) (str ''x'') demo_client demo_call_world)) = l
    \<and> (\<forall>(pkt, dst) \<in> set l. dst = demo_peer)"
  using media_stays_in_call [of demo_call_world
      "relay_client_data (demo_env open_config) (str ''x'') demo_client demo_call_world"
      "demo_env open_config" "str ''x''" demo_client] demo_call_inv demo_call_partner
  by (fastforce simp: demo_call_world_def demo_world_def)

text \<open>The external peer of one client, as the permission and as a learned tuple.\<close>

definition demo_remote :: socket_addr where "demo_remote = SockV4 198 51 100 7 9000"

definition demo_lease :: alloc_table where
  "demo_lease = table_add_permission 0 1 (sa_ip demo_remote) demo_table"

definition demo_leased :: allocation where
  "demo_leased = alloc_add_permission 0 (sa_ip demo_remote) demo_alloc"

lemma demo_lease_facts:
  "table_inv demo_lease" "table_get demo_lease 1 = Some demo_leased" "lookup_by_peer_addr demo_lease demo_remote = ([1], True)"
  "is_permitted 1000 demo_leased (sa_ip demo_remote)" "client_addr demo_leased = demo_client"
  "channel_for_peer 1000 demo_leased demo_remote = None"
proof -
  have v: "demo_table = \<lparr>allocations = [(1, demo_alloc)], by_client = [(demo_client, 1)], by_permission = [],
      by_peer_tuple = [], by_ice_ufrag = [], id_counter = 2\<rparr>"
    by (simp add: demo_table_def demo_alloc_def table_eval)
  show "table_inv demo_lease" unfolding demo_lease_def
    by (rule table_add_permission_inv [OF demo_table_inv]) (simp add: v dm_get_def)
  show "table_get demo_lease 1 = Some demo_leased" "lookup_by_peer_addr demo_lease demo_remote = ([1], True)"
    by (simp_all add: demo_lease_def demo_leased_def v table_add_permission_def index_permission_def with_alloc_def Let_def
        table_get_def dm_get_def dm_put_def lookup_by_peer_addr_def lookup_by_peer_ip_def)
  show "is_permitted 1000 demo_leased (sa_ip demo_remote)" "client_addr demo_leased = demo_client"
    "channel_for_peer 1000 demo_leased demo_remote = None"
    by (simp_all add: demo_leased_def demo_alloc_def new_allocation_def alloc_add_permission_def is_permitted_def
        channel_for_peer_def dm_get_def dm_put_def add_u64_def PERMISSION_LIFETIME_MS_def)
qed

theorem peer_delivery_exact_witness:
  "\<exists>w'. handle_rtp (demo_env open_config) 7 (str ''x'') demo_remote (demo_world\<lparr>w_table := demo_lease\<rparr>) = (Inr (), w')
    \<and> w_sent w' = [(engine_data_indication (replicate 12 0) demo_remote (str ''x''), demo_client)]
    \<and> lookup_by_peer_tuple demo_lease demo_remote = None \<and> lookup_by_peer_tuple (w_table w') demo_remote = Some 1"
proof -
  have "lookup_by_peer_tuple demo_lease demo_remote = None"
    by (simp add: lookup_by_peer_tuple_def demo_lease_def demo_table_def create_or_get_def new_table_def
        table_add_permission_def index_permission_def Let_def)
  moreover have "en_send_ok (demo_env open_config) n" "en_rand (demo_env open_config) n = replicate 12 0" for n
    by (simp_all add: demo_env_def)
  ultimately show ?thesis
    using peer_delivery_exact [of "demo_world\<lparr>w_table := demo_lease\<rparr>" demo_remote 1 demo_leased "demo_env open_config" 7 "str ''x''"]
      demo_lease_facts
    by (auto simp: demo_world_def)
qed


text \<open>The same client with a channel bound to the external peer.\<close>

definition demo_bound :: alloc_table where
  "demo_bound = with_alloc 1 (bind_channel 0 0x4000 demo_remote) demo_lease"

theorem send_and_channel_agree_witness:
  "w_sent (snd (handle_send (demo_env open_config)
      (demo_request\<lparr>si_xor_peer_addresses := [demo_remote], si_data := Some (str ''x'')\<rparr>) demo_client
      (demo_world\<lparr>w_table := demo_bound\<rparr>))) = [(str ''x'', demo_remote)]
    \<and> w_sent (snd (handle_channel_data (demo_env open_config) 0x4000 (str ''x'') demo_client
      (demo_world\<lparr>w_table := demo_bound\<rparr>))) = [(str ''x'', demo_remote)]"
proof -
  let ?b = "bind_channel 0 0x4000 demo_remote demo_leased" and ?e = "demo_env open_config"
  have ids: "dm_get (by_client demo_bound) demo_client = Some 1" "dm_get (allocations demo_bound) 1 = Some ?b"
    "dm_get (by_client demo_bound) demo_remote = None"
    using demo_lease_facts(2)
    by (simp_all add: demo_bound_def demo_lease_def table_add_permission_def index_permission_def Let_def table_get_def
        demo_table_def create_or_get_def new_table_def demo_client_def demo_remote_def)
  have inv: "table_inv demo_bound"
    unfolding demo_bound_def by (intro with_alloc_inv demo_lease_facts(1) neutral_updates)
  have "alloc_inv demo_leased" using table_inv_alloc [OF demo_lease_facts(1)] demo_lease_facts(2) by (simp add: table_get_def)
  then have chan: "peer_for_channel 1000 ?b 0x4000 = Some demo_remote"
    using bind_channel_effect [of demo_leased 0 "0x4000" demo_remote 1000]
    by (simp add: CHANNEL_LIFETIME_MS_def add_u64_def)
  have perm: "is_permitted 1000 ?b (sa_ip demo_remote)"
    using demo_lease_facts(4) by (auto simp: is_permitted_def bind_channel_def Let_def split: option.splits)
  have "\<not> is_forbidden_peer_addr open_config demo_remote" "demo_remote \<noteq> relay_addr ?e" "demo_remote \<noteq> demo_client"
    by (simp_all add: is_forbidden_peer_addr_def demo_remote_def open_config_fields relay_addr_def demo_client_def
        v4_is_loopback_def v4_is_multicast_def v4_is_broadcast_def v4_is_unspecified_def v4_is_link_local_def)
  then show ?thesis
    using send_and_channel_agree [of "demo_world\<lparr>w_table := demo_bound\<rparr>" demo_client ?b demo_remote ?e
        "demo_request\<lparr>si_xor_peer_addresses := [demo_remote], si_data := Some (str ''x'')\<rparr>" "[]" "str ''x''" "0x4000"]
      ids inv chan perm
    by (simp add: outbound_def get_by_client_def demo_env_def demo_world_def)
qed


end
