(* ===== verification/Runs.thy ===== *)
theory Runs
  imports Server Requests
begin

text \<open>
  Invariants of whole runs of the server: the tables stay consistent, the quota is exact, and every
  allocation goes back to an authenticated Allocate request. The 64-bit id counter is what bounds
  the length of the runs considered: an event creates at most one allocation, so a run of fewer
  than \<open>2^64 - 2\<close> events cannot wrap it.
\<close>

section \<open>Lemmas\<close>

subsection \<open>Where allocations come from\<close>

text \<open>Every allocation of \<open>t'\<close> is one of \<open>t\<close>, for the same client and user, and no id was drawn.\<close>

definition descends :: "alloc_table \<Rightarrow> alloc_table \<Rightarrow> bool" where
  "descends t' t \<longleftrightarrow> id_counter t' = id_counter t
    \<and> (\<forall>i b. dm_get (allocations t') i = Some b \<longrightarrow>
        (\<exists>a. dm_get (allocations t) i = Some a \<and> client_addr b = client_addr a \<and> username b = username a))"

lemma descends_map:
  assumes "id_counter t' = id_counter t"
    and "\<And>i. \<exists>f. dm_get (allocations t') i = map_option f (dm_get (allocations t) i)
      \<and> (\<forall>a. client_addr (f a) = client_addr a \<and> username (f a) = username a)"
  shows "descends t' t"
  unfolding descends_def
proof (intro conjI allI impI)
  fix i b
  assume "dm_get (allocations t') i = Some b"
  then show "\<exists>a. dm_get (allocations t) i = Some a \<and> client_addr b = client_addr a \<and> username b = username a"
    using assms(2) [of i] by fastforce
qed (rule assms(1))

lemma with_alloc_descends:
  assumes "\<And>a. client_addr (f a) = client_addr a \<and> username (f a) = username a"
  shows "descends (with_alloc i f t) t"
proof (rule descends_map)
  fix j
  show "\<exists>g. dm_get (allocations (with_alloc i f t)) j = map_option g (dm_get (allocations t) j)
      \<and> (\<forall>a. client_addr (g a) = client_addr a \<and> username (g a) = username a)"
    using assms by (intro exI [of _ "if j = i then f else (\<lambda>a. a)"]) (simp add: option.map_ident)
qed simp

lemma descends_same:
  "allocations t' = allocations t'' \<Longrightarrow> id_counter t' = id_counter t'' \<Longrightarrow> descends t'' t \<Longrightarrow> descends t' t"
  by (simp add: descends_def)

lemma descends_refl [simp]: "descends t t"
  by (auto simp: descends_def)

lemma permission_user [simp]:
  "username (alloc_add_permission now ip a) = username a"
  "client_addr (alloc_add_permission now ip a) = client_addr a"
  by (simp_all add: alloc_add_permission_def)

lemma fold_permission_user:
  "username (fold (alloc_add_permission now) ips a) = username a"
  by (induction ips arbitrary: a) simp_all

lemma set_ufrags_user: "username (set_ufrags l r a) = username a" "client_addr (set_ufrags l r a) = client_addr a"
  by (simp_all add: set_ufrags_def set_ice_ufrag_def set_ice_remote_ufrag_def Let_def)

lemma cleanup_permissions_counter: "id_counter (cleanup_permissions now t) = id_counter t"
proof -
  have "id_counter (fold (reap_permissions now) xs t) = id_counter t" for xs
    by (induction xs arbitrary: t) (auto simp: reap_permissions.simps Let_def case_prod_unfold fold_rfpi)
  then show ?thesis by (simp add: cleanup_permissions_def)
qed

lemma operations_descend:
  assumes "table_inv t"
  shows "neutral f \<Longrightarrow> descends (with_alloc i f t) t"
    and "descends (snd (register_ice_ufrags i l r t)) t"
    and "descends (table_add_permission now i ip t) t"
    and "descends (snd (try_add_permissions_capped now i ips cap t)) t"
    and "descends (register_peer_tuple now i p t) t"
    and "descends (snd (table_remove i t)) t"
    and "descends (cleanup_channel_bindings now t) t"
    and "descends (cleanup_permissions now t) t"
    and "descends (snd (retain_unless Q t)) t"
proof -
  have wf: "table_wf t" using assms by (simp add: table_inv_def)
  show "neutral f \<Longrightarrow> descends (with_alloc i f t) t"
    by (rule with_alloc_descends) (simp add: neutral_def)
  show "descends (snd (register_ice_ufrags i l r t)) t"
    using assms
  proof (cases rule: register_ice_ufrags_cases [of t i l r])
    case (installed a t')
    then show ?thesis
      using descends_same [OF _ _ with_alloc_descends [of "set_ufrags l r"], of t' i t] set_ufrags_user by simp
  qed simp
  show "descends (table_add_permission now i ip t) t"
    using descends_same [OF _ _ with_alloc_descends [of "alloc_add_permission now ip"],
        of "table_add_permission now i ip t" i]
    by (simp add: table_add_permission_def)
  show "descends (snd (try_add_permissions_capped now i ips cap t)) t"
    using descends_same [OF _ _ with_alloc_descends [of "fold (alloc_add_permission now) ips"],
        of "fold (index_permission i) ips (with_alloc i (fold (alloc_add_permission now) ips) t)" i]
    by (simp add: try_add_permissions_capped_def Let_def fold_index fold_add_permission fold_permission_user
        split: option.split)
  show "descends (register_peer_tuple now i p t) t"
    unfolding register_peer_tuple_def
    using with_alloc_descends [of "\<lambda>a. case dm_get (known_peers a) p of Some _ \<Rightarrow> a
        | None \<Rightarrow> a\<lparr>known_peers := dm_put p \<lparr>last_seen_ms = now\<rparr> (known_peers a)\<rparr>" i
        "t\<lparr>by_peer_tuple := dm_put p i (by_peer_tuple t)\<rparr>"]
    by (simp add: descends_def split: option.split)
  have reap: "descends (reap P t) t" for P
    using reap_get [OF wf, of P] reap_views [OF wf]
    by (auto simp: descends_def reap_def split: option.splits if_splits)
  show "descends (snd (table_remove i t)) t" by (simp add: remove_is_reap [OF wf] reap split: option.split)
  show "descends (snd (retain_unless Q t)) t" unfolding retain_is_reap by (rule reap)
  show "descends (cleanup_channel_bindings now t) t"
  proof (rule descends_map)
    have "neutral (cleanup_expired_channels now)" by (rule neutral_updates)
    then show "\<exists>f. dm_get (allocations (cleanup_channel_bindings now t)) j = map_option f (dm_get (allocations t) j)
        \<and> (\<forall>a. client_addr (f a) = client_addr a \<and> username (f a) = username a)" for j
      by (intro exI [of _ "cleanup_expired_channels now"]) (simp add: cleanup_channel_bindings_get neutral_def)
  qed (simp add: cleanup_channel_bindings_def)
  show "descends (cleanup_permissions now t) t"
  proof (rule descends_map)
    show "\<exists>f. dm_get (allocations (cleanup_permissions now t)) j = map_option f (dm_get (allocations t) j)
        \<and> (\<forall>a. client_addr (f a) = client_addr a \<and> username (f a) = username a)" for j
      by (intro exI [of _ "\<lambda>a. snd (cleanup_expired_permissions now a)"])
        (simp add: cleanup_permissions_table(2) [OF assms] cleanup_expired_permissions_def Let_def)
  qed (rule cleanup_permissions_counter)
qed

subsection \<open>Authenticated origin\<close>

text \<open>At most \<open>k\<close> as next id, and every allocation's client and user are listed in \<open>J\<close>.\<close>

definition owned_by :: "u64 \<Rightarrow> (socket_addr \<times> rstring) set \<Rightarrow> alloc_table \<Rightarrow> rate_limiter \<Rightarrow> bool" where
  "owned_by k J t rl \<longleftrightarrow> table_inv t \<and> id_counter t \<le> k
    \<and> (\<forall>i a. dm_get (allocations t) i = Some a \<longrightarrow> (client_addr a, username a) \<in> J)"

lemma owned_descends: "owned_by k J t rl \<Longrightarrow> table_inv t' \<Longrightarrow> descends t' t \<Longrightarrow> owned_by k J t' rl'"
  unfolding owned_by_def descends_def by metis

lemma owned_mono: "owned_by k J t rl \<Longrightarrow> k \<le> k' \<Longrightarrow> J \<subseteq> J' \<Longrightarrow> owned_by k' J' t rl"
  unfolding owned_by_def by (meson order_trans subsetD)

interpretation origin: relay_state "owned_by k J" for k J
proof unfold_locales
  fix t :: alloc_table and rl :: rate_limiter
  assume o: "owned_by k J t rl"
  then have inv: "table_inv t" by (simp add: owned_by_def)
  note keep = owned_descends [OF o] and ops = operations_descend [OF inv]
  show "table_inv t" by (rule inv)
  show "owned_by k J (with_alloc i f t) rl" if "neutral f" for i f
    using keep [OF with_alloc_inv [OF inv that]] ops(1) [OF that] by blast
  show "owned_by k J (snd (register_ice_ufrags i l r t)) rl" for i l r
    using keep [OF register_ice_ufrags_inv [OF inv]] ops(2) by blast
  show "owned_by k J (table_add_permission now i ip t) rl" if "dm_get (allocations t) i \<noteq> None" for now i ip
    using keep [OF consistency.inv_permission [OF inv that]] ops(3) by blast
  show "owned_by k J (snd (try_add_permissions_capped now i ips cap t)) rl" for now i ips cap
    using keep [OF try_add_permissions_inv [OF inv]] ops(4) by blast
  show "owned_by k J (register_peer_tuple now i p t) rl" if "dm_get (allocations t) i \<noteq> None" for now i p
    using keep [OF consistency.inv_tuple [OF inv that]] ops(5) by blast
  show "owned_by k J (snd (table_remove i t)) rl'" for i rl'
    using keep [OF remove_inv [OF inv]] ops(6) by blast
  show "owned_by k J (cleanup_channel_bindings now t) rl" for now
    using keep [OF cleanup_channel_bindings_inv [OF inv]] ops(7) by blast
  show "owned_by k J (cleanup_permissions now t) rl" for now
    using keep [OF cleanup_permissions_table(1) [OF inv]] ops(8) by blast
  show "owned_by k J (snd (retain_unless Q t)) (foldl record_deallocation rl (fst (retain_unless Q t)))" for Q
    using keep [OF consistency.inv_retain [OF inv]] ops(9) by blast
qed (simp_all add: owned_by_def)

context packet_state
begin

lemma holds_stun_other:
  assumes "holds w" "\<not> (si_class msg = Request \<and> si_method msg = Allocate)"
  shows "holds (snd (handle_stun e msg src w))"
  using assms
  by (auto simp: handle_stun_def holds_refresh holds_create_permission
      holds_channel_bind holds_send holds_binding holds_client_response
      split: stun_class.split stun_method.split)

end

text \<open>The clients and users that an event may give an allocation to.\<close>

fun grants :: "event \<Rightarrow> (socket_addr \<times> rstring) set" where
  "grants (Packet e data src) =
    {(c, user). c = src \<and> (\<exists>msg key. classify data = Stun msg \<and> si_class msg = Request
       \<and> si_method msg = Allocate \<and> allocate_auth e msg = Inr (user, key))}"
| "grants (Tick e) = {}"

lemma create_owned:
  assumes "owned_by k J t rl" "id_counter t + 1 < 2 ^ 64" "(c, user) \<in> J"
  shows "owned_by (Suc k) J (snd (create_or_get now c user l txn t)) rl'"
proof (cases rule: create_or_get_cases [of t c now user l txn])
  case existing
  then show ?thesis using owned_mono [OF assms(1), of "Suc k" J] by (simp add: owned_by_def)
next
  case created
  have "table_inv t" using assms(1) by (simp add: owned_by_def)
  then have "table_inv (snd (create_or_get now c user l txn t))" by (rule create_or_get_inv [OF _ assms(2)])
  then show ?thesis
    using assms created by (auto simp: owned_by_def new_allocation_def add_u64_exact)
qed

lemma allocate_owned:
  assumes "owned_by k J (w_table w) rl" "id_counter (w_table w) + 1 < 2 ^ 64"
    and "\<And>user key. allocate_auth e msg = Inr (user, key) \<Longrightarrow> (src, user) \<in> J"
  shows "owned_by (Suc k) J (w_table (snd (handle_allocate e msg src w))) rl'"
proof -
  have inv: "table_inv (w_table w)" using assms(1) by (simp add: owned_by_def)
  have same: "owned_by (Suc k) J t rl'" if "owned_by k J t rl''" for t rl''
    using owned_mono [OF that, of "Suc k" J] by (simp add: owned_by_def)
  have reaped: "owned_by k J (w_table (reaped e src w)) rl"
    "id_counter (w_table (reaped e src w)) = id_counter (w_table w)"
    using owned_descends [OF assms(1) remove_inv [OF inv] operations_descend(6) [OF inv]] assms(1)
      remove_id_counter [OF inv]
    by (simp_all add: reaped_def remove_and_release_def Let_def case_prod_unfold split: option.split)
  have create: "owned_by (Suc k) J (snd (create_or_get now src user l txn (w_table (reaped e src w)))) rl'"
    if "allocate_auth e msg = Inr (user, key)" for now user key l txn
    using create_owned [OF reaped(1), of src user] reaped(2) assms(2,3) that by simp
  have "owned_by (Suc k) J (w_table (snd (admit_allocate e msg src user key (reaped e src w)))) rl'"
    if "allocate_auth e msg = Inr (user, key)" for user key
    using create [OF that] same [OF reaped(1)]
    by (simp add: admit_allocate_def create_allocation_def Let_def case_prod_unfold split: sum.split)
  then show ?thesis
    using same [OF assms(1)]
    by (auto simp: handle_allocate_eq Let_def split: sum.split)
qed

lemma packet_owned:
  assumes "owned_by k J (w_table w) (w_limiter w)" "id_counter (w_table w) + 1 < 2 ^ 64"
    and "grants (Packet e data src) \<subseteq> J"
  shows "owned_by (Suc k) J (w_table (snd (handle_packet e data src w))) rl"
proof (cases "\<exists>msg. classify data = Stun msg \<and> si_class msg = Request \<and> si_method msg = Allocate")
  case True
  then obtain msg where msg: "classify data = Stun msg" "si_class msg = Request" "si_method msg = Allocate" by blast
  then have "(src, user) \<in> J" if "allocate_auth e msg = Inr (user, key)" for user key
    using that assms(3) by auto
  from allocate_owned [OF assms(1,2) this] show ?thesis
    using msg by (simp add: handle_packet_def Let_def handle_stun_def)
next
  case False
  have "origin.holds k J (snd (handle_packet e data src w))"
  proof (rule origin.holds_packet_from_stun)
    show w: "origin.holds k J w" using assms(1) by (simp add: origin.holds_def)
    show "origin.holds k J (snd (handle_stun e msg src w))" if "classify data = Stun msg" for msg
      using origin.holds_stun_other [OF w] that False by blast
  qed
  then show ?thesis
    using owned_mono [of k J _ _ "Suc k" J] by (auto simp: origin.holds_def owned_by_def)
qed

lemma run_configured: "run cfg evs w \<Longrightarrow> ev \<in> set evs \<Longrightarrow> en_cfg (event_env ev) = cfg"
  by (induction rule: run.induct) auto

lemma run_owned:
  assumes "run cfg evs w" "length evs + 2 < 2 ^ 64"
  shows "owned_by (Suc (length evs)) (\<Union> (grants ` set evs)) (w_table w) (w_limiter w)"
  using assms
proof (induction rule: run.induct)
  case start
  then show ?case
    using new_table_inv by (simp add: owned_by_def server_new_def new_table_def)
next
  case (event evs w ev w')
  let ?J = "\<Union> (grants ` set (ev # evs))"
  have "owned_by (Suc (length evs)) (\<Union> (grants ` set evs)) (w_table w) (w_limiter w)"
    using event by simp
  then have w: "owned_by (Suc (length evs)) ?J (w_table w) (w_limiter w)"
    by (rule owned_mono) auto
  then have room: "id_counter (w_table w) + 1 < 2 ^ 64"
    using event.prems by (simp add: owned_by_def)
  show ?case
  proof (cases ev)
    case (Packet e data src)
    then show ?thesis
      using packet_owned [OF w room, of e data src] event.hyps(3) by (auto simp: step_function)
  next
    case (Tick e)
    have "origin.holds (Suc (length evs)) ?J w'"
      using origin.holds_tick [of "Suc (length evs)" ?J w e] w event.hyps(3) Tick
      by (simp add: origin.holds_def step_function)
    then show ?thesis
      using owned_mono [of "Suc (length evs)" ?J _ _ "Suc (Suc (length evs))" ?J] by (simp add: origin.holds_def)
  qed
qed

lemma run_quota:
  assumes "run cfg evs w" "length evs + 2 < 2 ^ 64"
    and "0 < cfg_max_allocations_per_ip cfg" "cfg_max_allocations_per_ip cfg \<le> u32_max"
  shows "quota.holds (cfg_max_allocations_per_ip cfg) w"
  using assms(1,2)
proof (induction rule: run.induct)
  case start
  have "ip_allocs new_table = (\<lambda>_. 0)" by (simp add: ip_allocs_def new_table_def dm_count_def fun_eq_iff)
  then have "quota_exact (cfg_max_allocations_per_ip cfg) new_table
      (new_rate_limiter (cfg_rate_limit_per_minute cfg) (cfg_max_allocations_per_ip cfg))"
    using new_table_inv assms(3,4)
    by (simp add: quota_exact_def lim.accounts_def limiter_ok_def new_rate_limiter_def
        allocation_count_def fun_eq_iff)
  then show ?case by (simp add: quota.holds_def server_new_def)
next
  case (event evs w ev w')
  then have w: "quota.holds (cfg_max_allocations_per_ip cfg) w" by simp
  have "id_counter (w_table w) \<le> Suc (length evs)"
    using run_owned [OF event.hyps(1)] event.prems by (simp add: owned_by_def)
  then have "id_counter (w_table w) + 1 < 2 ^ 64" using event.prems by simp
  then show ?case
    using quota.holds_packet [OF w] quota.holds_tick [OF w] event.hyps(3)
    by (cases ev) (auto simp: step_function)
qed

lemma signed_allocate_effect:
  assumes "table_inv (w_table w)" "get_by_client (w_table w) src = None" "en_now e + 60000 < 2 ^ 64"
    and "digest_lengths (en_crypto e)" "auth_enabled (en_cfg e)" "length txn = 12"
    and "utf8_valid user" "length user \<le> 513"
    and "utf8_valid (cfg_realm (en_cfg e))" "length (cfg_realm (en_cfg e)) \<le> 763"
    and "ts < 2 ^ 64" "ts \<le> en_unix e" "en_unix e - ts < cfg_nonce_lifetime_secs (en_cfg e)"
    and "password \<in> set (candidate_passwords (en_crypto e) (en_cfg e) user (en_unix e))"
    and "data = signed_request (en_crypto e) 0x0003 txn user (cfg_realm (en_cfg e))
      (generate_nonce (en_crypto e) ts (cfg_nonce_secret (en_cfg e)))
      (compute_key (en_crypto e) user (cfg_realm (en_cfg e)) password)"
    and "check_allocation_request (en_instant e) (w_limiter w) (sa_ip src) = (Inr (), rl)"
  shows "case handle_packet e data src w of (res, w') \<Rightarrow>
    (\<exists>b. get_by_client (w_table w') src = Some b \<and> username b = user \<and> expires_at_ms b = en_now e + 60000)
    \<and> (en_send_ok e (w_sends w) \<longrightarrow> res = Inr ()
        \<and> (\<exists>msg key. classify data = Stun msg \<and> w_sent w' = w_sent w
            @ [(build_allocate_response (en_crypto e) (en_cfg e) msg src 60 (Some key), src)]))"
proof -
  have ty: "class_of 0x0003 = Some Request" "method_of 0x0003 = Allocate" "unat (0x0003 :: u16) < 1024"
    by (simp_all add: class_of_def method_of_def)
  obtain msg where msg: "classify data = Stun msg" "si_class msg = Request" "si_method msg = Allocate"
    "si_requested_transport msg = None"
    "credential_ok e msg user (compute_key (en_crypto e) user (cfg_realm (en_cfg e)) password)"
    using signed_request_accepted [OF assms(4,6) ty(1,3) assms(7-14) refl assms(15)] ty(2) by auto
  obtain key where key: "allocate_auth e msg = Inr (user, Some key)"
    using verify_complete [OF assms(4) msg(5)] assms(5) by (auto simp: allocate_auth_def)
  have reaped: "reaped e src w = w" and "\<not> live_client e (w_table w) src"
    using assms(2) by (simp_all add: reaped_def live_client_def)
  then obtain w' where w': "w_sent w' = w_sent w"
    "handle_allocate e msg src w = reply e (build_allocate_response (en_crypto e) (en_cfg e) msg src 60 (Some key)) src w'"
    "\<exists>b. get_by_client (w_table w') src = Some b \<and> username b = user \<and> expires_at_ms b = en_now e + 60000"
    "w_sends w' = w_sends w"
    using allocate_effect [OF assms(1,3) key, of src "Inr ()" rl] assms(16) msg(4) by auto
  have "handle_packet e data src w = handle_allocate e msg src w"
    using msg(1-3) by (simp add: handle_packet_def Let_def handle_stun_def)
  then show ?thesis
    using w' msg(1) by (auto simp: ok_def reply_def send_then_def Let_def attempt_def split: if_splits)
qed

section \<open>Properties\<close>

text \<open>
  C5. Whatever packets arrive and whenever the cleanup runs, and whether or not the socket accepts
  what is sent, the allocation table stays consistent, the limiter's count of every address is
  exactly the number of allocations that address holds, and no address ever holds more allocations
  than configured.
\<close>

theorem run_quota_exact:
  assumes "run cfg evs w" "length evs + 2 < 2 ^ 64"
    and "0 < cfg_max_allocations_per_ip cfg" "cfg_max_allocations_per_ip cfg \<le> u32_max"
  shows "table_inv (w_table w)
    \<and> allocation_count (w_limiter w) ip = ip_allocs (w_table w) ip
    \<and> ip_allocs (w_table w) ip \<le> cfg_max_allocations_per_ip cfg"
  using run_quota [OF assms] lim.accounts_cap [of "w_limiter w" "ip_allocs (w_table w)" ip]
  by (auto simp: quota.holds_def quota_exact_def lim.accounts_def)

text \<open>
  C7. With credentials configured, every allocation that exists at any point of any run was created
  for its client by an Allocate request that came from that client's address and authenticated as
  the user the allocation belongs to.
\<close>

theorem allocations_authentic:
  assumes "run cfg evs w" "length evs + 2 < 2 ^ 64" "auth_enabled cfg"
    and "table_get (w_table w) i = Some a"
  shows "\<exists>e data msg key. Packet e data (client_addr a) \<in> set evs \<and> classify data = Stun msg
    \<and> si_class msg = Request \<and> si_method msg = Allocate
    \<and> verify_long_term_credentials e msg = Inr (username a, key)"
proof -
  have "(client_addr a, username a) \<in> \<Union> (grants ` set evs)"
    using run_owned [OF assms(1,2)] assms(4) by (auto simp: owned_by_def table_get_def)
  then obtain ev where ev: "ev \<in> set evs" "(client_addr a, username a) \<in> grants ev" by blast
  from ev(2) obtain e data msg key where p: "ev = Packet e data (client_addr a)" "classify data = Stun msg"
    "si_class msg = Request" "si_method msg = Allocate" "allocate_auth e msg = Inr (username a, key)"
    by (cases ev) auto
  have "en_cfg e = cfg" using run_configured [OF assms(1) ev(1)] p(1) by simp
  then have "\<exists>key. verify_long_term_credentials e msg = Inr (username a, key)"
    using p(5) assms(3) by (auto simp: allocate_auth_def split: sum.splits)
  then show ?thesis using p ev(1) by blast
qed

text \<open>
  C12. End to end: a client without an allocation that sends an Allocate request for a user with a
  current password, signed over a nonce the server issued within its lifetime, gets an allocation
  that belongs to that user and lasts 60 seconds, provided the limiter admits it; and when the
  socket accepts the response, exactly the success response is sent.
\<close>

theorem signed_allocate_admitted:
  assumes "table_inv (w_table w)" "get_by_client (w_table w) src = None" "en_now e + 60000 < 2 ^ 64"
    and "digest_lengths (en_crypto e)" "auth_enabled (en_cfg e)" "length txn = 12"
    and "utf8_valid user" "length user \<le> 513"
    and "utf8_valid (cfg_realm (en_cfg e))" "length (cfg_realm (en_cfg e)) \<le> 763"
    and "ts < 2 ^ 64" "ts \<le> en_unix e" "en_unix e - ts < cfg_nonce_lifetime_secs (en_cfg e)"
    and "password \<in> set (candidate_passwords (en_crypto e) (en_cfg e) user (en_unix e))"
    and "data = signed_request (en_crypto e) 0x0003 txn user (cfg_realm (en_cfg e))
      (generate_nonce (en_crypto e) ts (cfg_nonce_secret (en_cfg e)))
      (compute_key (en_crypto e) user (cfg_realm (en_cfg e)) password)"
    and "check_allocation_request (en_instant e) (w_limiter w) (sa_ip src) = (Inr (), rl)"
  shows "case handle_packet e data src w of (res, w') \<Rightarrow>
    (\<exists>b. get_by_client (w_table w') src = Some b \<and> username b = user \<and> expires_at_ms b = en_now e + 60000)
    \<and> (en_send_ok e (w_sends w) \<longrightarrow> res = Inr ()
        \<and> (\<exists>msg key. classify data = Stun msg \<and> w_sent w' = w_sent w
            @ [(build_allocate_response (en_crypto e) (en_cfg e) msg src 60 (Some key), src)]))"
  by (rule signed_allocate_effect [OF assms])

section \<open>Witnesses\<close>

definition demo_nonce :: rstring where
  "demo_nonce = generate_nonce demo_crypto 900 (cfg_nonce_secret demo_config)"

definition demo_allocate :: bytes where
  "demo_allocate = signed_request demo_crypto 0x0003 (replicate 12 1) (str ''user'') (cfg_realm demo_config) demo_nonce
     (compute_key demo_crypto (str ''user'') (cfg_realm demo_config) (str ''pass''))"

definition demo_event :: event where
  "demo_event = Packet (demo_env demo_config) demo_allocate demo_client"

definition demo_after :: world where
  "demo_after = snd (handle_packet (demo_env demo_config) demo_allocate demo_client (server_new demo_config))"

lemma demo_run: "run demo_config [demo_event] demo_after"
  by (rule run.event [OF run.start]) (simp_all add: demo_event_def demo_after_def step_function)

lemma demo_premises:
  "table_inv (w_table (server_new demo_config))"
  "get_by_client (w_table (server_new demo_config)) demo_client = None"
  "utf8_valid (str ''user'')" "utf8_valid (cfg_realm demo_config)" "length (cfg_realm demo_config) \<le> 763"
  "str ''pass'' \<in> set (candidate_passwords demo_crypto demo_config (str ''user'') 1000)"
  "check_allocation_request 0 (w_limiter (server_new demo_config)) (sa_ip demo_client)
    = (Inr (), snd (check_allocation_request 0 (w_limiter (server_new demo_config)) (sa_ip demo_client)))"
proof -
  have realm: "cfg_realm demo_config = str ''uturn''"
    by (simp add: demo_config_def config_new_def with_credential_def with_auth_secret_def)
  show "utf8_valid (cfg_realm demo_config)" "length (cfg_realm demo_config) \<le> 763" "utf8_valid (str ''user'')"
    unfolding realm by (simp_all add: str_def)
  show "table_inv (w_table (server_new demo_config))"
    "get_by_client (w_table (server_new demo_config)) demo_client = None"
    using new_table_inv by (simp_all add: server_new_def new_table_def get_by_client_def)
  show "str ''pass'' \<in> set (candidate_passwords demo_crypto demo_config (str ''user'') 1000)"
    by (simp add: candidate_passwords_def demo_config_fields)
  have "cfg_rate_limit_per_minute demo_config = 30" "cfg_max_allocations_per_ip demo_config = 200"
    by (simp_all add: demo_config_def config_new_def with_credential_def with_auth_secret_def)
  then have "fst (check_allocation_request 0 (w_limiter (server_new demo_config)) (sa_ip demo_client)) = Inr ()"
    by (simp add: server_new_def limiter_eval)
  then show "check_allocation_request 0 (w_limiter (server_new demo_config)) (sa_ip demo_client)
    = (Inr (), snd (check_allocation_request 0 (w_limiter (server_new demo_config)) (sa_ip demo_client)))"
    by (simp add: prod_eq_iff)
qed

lemmas demo_signed_premises = demo_premises demo_digest_lengths demo_config_fields demo_allocate_def demo_nonce_def

lemma demo_after_alloc:
  "\<exists>b. get_by_client (w_table demo_after) demo_client = Some b \<and> username b = str ''user''"
  using signed_allocate_effect [of "server_new demo_config" demo_client "demo_env demo_config" "replicate 12 1"
      "str ''user''" 900 "str ''pass''" demo_allocate] demo_signed_premises
  by (auto simp: demo_after_def case_prod_unfold str_def)

theorem signed_allocate_admitted_witness:
  "\<exists>b. get_by_client (w_table (snd (handle_packet (demo_env demo_config) demo_allocate demo_client
      (server_new demo_config)))) demo_client = Some b \<and> expires_at_ms b = 61000"
  using signed_allocate_admitted [of "server_new demo_config" demo_client "demo_env demo_config" "replicate 12 1"
      "str ''user''" 900 "str ''pass''" demo_allocate] demo_signed_premises
  by (auto simp: case_prod_unfold str_def)

theorem allocations_authentic_witness:
  "\<exists>i a. table_get (w_table demo_after) i = Some a \<and> username a = str ''user''
    \<and> (\<exists>e data msg key. Packet e data (client_addr a) \<in> set [demo_event] \<and> classify data = Stun msg
        \<and> verify_long_term_credentials e msg = Inr (username a, key))"
proof -
  obtain b where b: "get_by_client (w_table demo_after) demo_client = Some b" "username b = str ''user''"
    using demo_after_alloc by blast
  then obtain i where "table_get (w_table demo_after) i = Some b"
    by (auto simp: get_by_client_def table_get_def split: option.splits)
  then show ?thesis
    using allocations_authentic [OF demo_run _ demo_config_fields(1), of i b] b(2)
    by (intro exI [of _ i] exI [of _ b]) auto
qed

theorem run_quota_exact_witness:
  "allocation_count (w_limiter demo_after) (sa_ip demo_client) = ip_allocs (w_table demo_after) (sa_ip demo_client)
    \<and> ip_allocs (w_table demo_after) (sa_ip demo_client) \<le> 200"
proof -
  have "cfg_max_allocations_per_ip demo_config = 200"
    by (simp add: demo_config_def config_new_def with_credential_def with_auth_secret_def)
  then show ?thesis using run_quota_exact [OF demo_run] by (simp add: u32_max_def)
qed

end
