(* ===== verification/Calls.thy ===== *)
theory Calls
  imports Routing Runs
begin

text \<open>
  How a call comes about: Binding requests as the two sides of a call send them, what the server
  learns from each, and the path media takes once both have been seen.
\<close>

section \<open>Definitions\<close>

text \<open>
  A connectivity check as a client sends it: a Binding request whose USERNAME names the fragment of
  the other side first, then the sender's own.
\<close>

definition ice_check :: "bytes \<Rightarrow> rstring \<Rightarrow> rstring \<Rightarrow> bytes" where
  "ice_check txn remote_ufrag local_ufrag = stun_msg 0x0001 txn [(0x0006, remote_ufrag @ COLON # local_ufrag)]"

section \<open>Lemmas\<close>

text \<open>What the parser makes of a check.\<close>

lemma ice_check_parsed:
  assumes "length txn = 12" "utf8_valid (r @ COLON # l)" "length r + length l < 513" "COLON \<notin> set r"
  shows "\<exists>msg. classify (ice_check txn r l) = Stun msg \<and> si_class msg = Request \<and> si_method msg = Binding
    \<and> parse_ice_username msg = Some (r, l) \<and> si_raw msg = ice_check txn r l"
proof -
  let ?u = "r @ COLON # l" and ?m = "ice_check txn r l"
  have ty: "class_of 0x0001 = Some Request" "method_of 0x0001 = Binding" "unat (0x0001 :: u16) < 1024"
    by (simp_all add: class_of_def method_of_def)
  have len: "length ?u \<le> 513" using assms(3) by simp
  then have "length (enc_attrs [(0x0006, ?u)]) < 65536"
    using pad4_bounds(2) [of "length ?u"] by (simp add: length_enc_attr)
  then have "parse_stun_info ?m = Some (info_of 0x0001 Request txn (fold_attrs txn 0 [(0x0006, ?u)] empty_attrs) ?m)"
    unfolding ice_check_def using parse_stun_msg [OF assms(1) _ _ ty(1)] len by auto
  moreover have "fold_attrs txn 0 [(0x0006, ?u)] empty_attrs = empty_attrs\<lparr>pa_username := Some ?u\<rparr>"
    using len assms(2) by (simp add: match_username from_utf8_def)
  moreover have "classify ?m = parse_stun ?m"
    unfolding ice_check_def
    using classify_stun_msg [OF stun_msg_type [OF assms(1)] ty(3) stun_msg_nonempty] by blast
  ultimately show ?thesis
    using ty(2) split_once_append [OF assms(4), of l]
    by (auto simp: parse_stun_def info_of_def parse_ice_username_def)
qed

lemma classify_payload:
  "classify data = Rtp s d \<Longrightarrow> d = data" "classify data = Rtcp d \<Longrightarrow> d = data" "classify data = Dtls d \<Longrightarrow> d = data"
  by (auto simp: classify_def parse_stun_def parse_channel_data_def parse_rtp_rtcp_def Let_def
      split: list.splits if_splits option.splits)

lemma classify_txn:
  assumes "classify data = Stun msg"
  shows "length (si_transaction_id msg) = 12"
proof -
  have "parse_stun_info data = Some msg"
    using assms by (auto simp: classify_def parse_stun_def parse_channel_data_def parse_rtp_rtcp_def Let_def
        split: list.splits if_splits option.splits)
  then have "wf_msg msg" using parse_stun_info_sound by blast
  then show ?thesis unfolding wf_msg_def by blast
qed

lemma get_by_client_same:
  "allocations t' = allocations t \<Longrightarrow> by_client t' = by_client t \<Longrightarrow> get_by_client t' c = get_by_client t c"
  by (simp add: get_by_client_def split: option.split)

lemma set_ufrags_views [simp]:
  "ice_ufrag (set_ufrags l r a) = Some l" "ice_remote_ufrag (set_ufrags l r a) = Some r"
  "permissions (set_ufrags l r a) = permissions a" "alloc_id (set_ufrags l r a) = alloc_id a"
  by (simp_all add: set_ufrags_def set_ice_ufrag_def set_ice_remote_ufrag_def)

text \<open>The allocation of a client whose check with the pair \<open>(r, l)\<close> has been handled.\<close>

definition checked :: "env \<Rightarrow> rstring \<Rightarrow> rstring \<Rightarrow> allocation \<Rightarrow> allocation" where
  "checked e r l a =
    (let b = set_ufrags l r a
     in touch_received (en_now e) (if is_permitted (en_now e) a (ext_ip e) then b else alloc_add_permission (en_now e) (ext_ip e) b))"

lemma learn_effect:
  assumes "table_inv t" "get_by_client t src = Some a" "parse_ice_username msg = Some (r, l)"
    and "lookup_by_ice_ufrag t l = None \<or> lookup_by_ice_ufrag t l = Some (alloc_id a)"
  shows "let t' = with_client src (touch_received (en_now e)) (learn_from_check e msg a t)
    in table_inv t' \<and> get_by_client t' c = (if c = src then Some (checked e r l a) else get_by_client t c)
      \<and> lookup_by_ice_ufrag t' u =
        (if u = l then Some (alloc_id a) else if ice_ufrag a = Some u then None else lookup_by_ice_ufrag t u)"
  using assms(1)
proof (cases rule: register_ice_ufrags_cases [of t "alloc_id a" l r])
  case refused
  then show ?thesis using assms(4) get_by_client_id [OF assms(1,2)] by (auto simp: lookup_by_ice_ufrag_def)
next
  case (installed b t1)
  have ids: "dm_get (by_client t) src = Some (alloc_id a)" "dm_get (allocations t) (alloc_id a) = Some a"
    using get_by_client_id [OF assms(1,2)] by auto
  then have b: "b = a" using installed(2) by simp
  have inv1: "table_inv t1" using register_ice_ufrags_inv [OF assms(1), of "alloc_id a" l r] installed(1) by simp
  have only: "dm_get (by_client t) c = Some (alloc_id a) \<longleftrightarrow> c = src" for c
    using ids table_inv_client [OF assms(1)] by auto
  have get1: "get_by_client t1 c = (if c = src then Some (set_ufrags l r a) else get_by_client t c)" for c
    using get_by_client_same [of t1 "with_alloc (alloc_id a) (set_ufrags l r) t"] installed(3,6) only assms(2)
    by (simp add: with_alloc_by_client)
  define t2 where "t2 = learn_from_check e msg a t"
  have t2: "t2 = (if is_permitted (en_now e) a (ext_ip e) then t1 else table_add_permission (en_now e) (alloc_id a) (ext_ip e) t1)"
    using assms(3) installed(1) by (simp add: t2_def learn_from_check_def Let_def)
  have alive: "dm_get (allocations t1) (alloc_id a) = Some (set_ufrags l r a)"
    using ids(2) installed(3) by (simp add: with_alloc_def)
  have inv2: "table_inv t2" using inv1 table_add_permission_inv [OF inv1 alive] by (simp add: t2)
  have "get_by_client (table_add_permission (en_now e) (alloc_id a) (ext_ip e) t1) c
      = (if c = src then Some (alloc_add_permission (en_now e) (ext_ip e) (set_ufrags l r a)) else get_by_client t c)" for c
    using get_by_client_same [of "table_add_permission (en_now e) (alloc_id a) (ext_ip e) t1"
        "with_alloc (alloc_id a) (alloc_add_permission (en_now e) (ext_ip e)) t1"] get1 installed(6) only
    by (simp add: table_add_permission_def with_alloc_by_client)
  then have get2: "get_by_client t2 c = (if c = src then Some (if is_permitted (en_now e) a (ext_ip e) then set_ufrags l r a
      else alloc_add_permission (en_now e) (ext_ip e) (set_ufrags l r a)) else get_by_client t c)" for c
    using get1 by (simp add: t2)
  have "by_ice_ufrag t2 = by_ice_ufrag t1" by (simp add: t2 table_add_permission_def)
  then have "lookup_by_ice_ufrag (with_client src f t2) u =
      (if u = l then Some (alloc_id a) else if ice_ufrag a = Some u then None else lookup_by_ice_ufrag t u)" for f
    using installed(4) b by (simp add: lookup_by_ice_ufrag_def)
  then show ?thesis
    using with_client_inv [OF inv2 neutral_updates(2)] with_client_by_client [OF inv2] get2
    by (simp add: t2_def [symmetric] Let_def checked_def)
qed

lemma checked_views:
  "ice_ufrag (checked e r l a) = Some l" "ice_remote_ufrag (checked e r l a) = Some r"
  "alloc_id (checked e r l a) = alloc_id a" "client_addr (checked e r l a) = client_addr a"
  by (simp_all add: checked_def Let_def touch_received_def alloc_add_permission_def set_ufrags_user)

lemma checked_permitted:
  assumes "en_now e \<le> now" "now < en_now e + PERMISSION_LIFETIME_MS" "en_now e + PERMISSION_LIFETIME_MS < 2 ^ 64"
    and "is_permitted (en_now e) a (ext_ip e) \<Longrightarrow> is_permitted now a (ext_ip e)"
  shows "is_permitted now (checked e r l a) (ext_ip e)"
  using assms
  by (auto simp: checked_def Let_def touch_received_def alloc_add_permission_def is_permitted_def add_u64_def)

lemma check_handled:
  assumes "table_inv (w_table w)" "get_by_client (w_table w) src = Some a"
    and "lookup_by_ice_ufrag (w_table w) l = None \<or> lookup_by_ice_ufrag (w_table w) l = Some (alloc_id a)"
    and "length txn = 12" "utf8_valid (r @ COLON # l)" "length r + length l < 513" "COLON \<notin> set r"
    and "en_now e + PERMISSION_LIFETIME_MS < 2 ^ 64"
    and "w' = snd (handle_packet e (ice_check txn r l) src w)"
  shows "table_inv (w_table w')"
    and "get_by_client (w_table w') c = (if c = src then Some (checked e r l a) else get_by_client (w_table w) c)"
    and "lookup_by_ice_ufrag (w_table w') u = (if u = l then Some (alloc_id a)
      else if ice_ufrag a = Some u then None else lookup_by_ice_ufrag (w_table w) u)"
    and "ufrag_target e (w_table w') src r = Some d \<Longrightarrow> en_send_ok e (w_sends w) \<Longrightarrow>
      w_sent w' = w_sent w @ [(build_data_indication (en_rand e (w_rands w)) (relay_addr e) (ice_check txn r l), d)]"
proof -
  obtain msg where msg: "classify (ice_check txn r l) = Stun msg" "si_class msg = Request" "si_method msg = Binding"
    "parse_ice_username msg = Some (r, l)" "si_raw msg = ice_check txn r l"
    using ice_check_parsed [OF assms(4-7)] by blast
  let ?t1 = "learn_from_check e msg a (w_table w)"
  let ?t = "with_client src (touch_received (en_now e)) ?t1"
  note learned = learn_effect [OF assms(1,2) msg(4) assms(3), of e, unfolded Let_def]
  have "0 < PERMISSION_LIFETIME_MS" by (simp add: PERMISSION_LIFETIME_MS_def)
  then have may: "is_permitted (en_now e) (checked e r l a) (ext_ip e)"
    using assms(8) by (intro checked_permitted) simp_all
  have "get_by_client ?t src = Some (checked e r l a)" using learned [of src] by simp
  then obtain b where b: "get_by_client ?t1 src = Some b" "touch_received (en_now e) b = checked e r l a"
    by (auto simp: with_client_def with_alloc_by_client get_by_client_def split: option.splits)
  have "is_client (w_table w) src" using assms(2) by (auto simp: is_client_def get_by_client_def split: option.splits)
  then have w': "w' = snd (case ufrag_target e ?t src r of
      Some target \<Rightarrow> indicate_then e (relay_addr e) (si_raw msg) [target] ok (w\<lparr>w_table := ?t\<rparr>)
    | None \<Rightarrow> ok (w\<lparr>w_table := ?t\<rparr>))"
    using assms(2,9) msg b may
    by (simp add: handle_packet_def Let_def handle_stun_def handle_binding_request_def relay_check_def upd_table_def)
  then have t: "w_table w' = ?t"
    by (simp add: indicate_then_def case_prod_unfold Let_def send_then_def ok_def split: option.split)
  show "table_inv (w_table w')" using learned t by simp
  show "get_by_client (w_table w') c = (if c = src then Some (checked e r l a) else get_by_client (w_table w) c)"
    using learned t by simp
  show "lookup_by_ice_ufrag (w_table w') u = (if u = l then Some (alloc_id a)
      else if ice_ufrag a = Some u then None else lookup_by_ice_ufrag (w_table w) u)"
    using learned t by simp
  show "w_sent w' = w_sent w @ [(build_data_indication (en_rand e (w_rands w)) (relay_addr e) (ice_check txn r l), d)]"
    if "ufrag_target e (w_table w') src r = Some d" "en_send_ok e (w_sends w)"
    using that w' t msg(5)
    by (simp add: indicate_then_def case_prod_unfold Let_def send_then_ok ok_def attempt_def upd_table_def draw_def)
qed


section \<open>Properties\<close>

text \<open>
  C13. Two Binding requests establish a call: once each of two clients has sent a check that names
  the other's fragment and its own, they are ICE partners, the second check has been relayed to the
  first client, and whatever media the first client sends afterwards, while the permission for the
  relay address that the checks granted lasts, reaches the second as exactly one data indication.
\<close>

theorem call_established:
  assumes "table_inv (w_table w)" "get_by_client (w_table w) src = Some a" "get_by_client (w_table w) dst = Some b" "src \<noteq> dst"
    and "lookup_by_ice_ufrag (w_table w) u = None \<or> lookup_by_ice_ufrag (w_table w) u = Some (alloc_id a)"
    and "lookup_by_ice_ufrag (w_table w) v = None \<or> lookup_by_ice_ufrag (w_table w) v = Some (alloc_id b)"
    and "u \<noteq> v" "length u + length v < 513" "utf8_valid (v @ COLON # u)" "utf8_valid (u @ COLON # v)"
    and "COLON \<notin> set u" "COLON \<notin> set v" "length txn = 12" "length txn' = 12"
    and "en_cfg e' = en_cfg e" "en_cfg e'' = en_cfg e" "en_now e \<le> en_now e'" "en_now e' \<le> en_now e''"
    and "en_now e'' < en_now e + PERMISSION_LIFETIME_MS" "en_now e' + PERMISSION_LIFETIME_MS < 2 ^ 64"
    and "is_permitted (en_now e) a (ext_ip e) \<Longrightarrow> is_permitted (en_now e'') a (ext_ip e)"
    and "is_permitted (en_now e') b (ext_ip e) \<Longrightarrow> is_permitted (en_now e'') b (ext_ip e)"
    and "w1 = snd (handle_packet e (ice_check txn v u) src w)" "w2 = snd (handle_packet e' (ice_check txn' u v) dst w1)"
    and "en_send_ok e' (w_sends w1)" "en_send_ok e'' (w_sends w2)"
    and "\<And>msg. classify data \<noteq> Stun msg" "\<And>c payload. classify data \<noteq> TurnChannelData c payload"
  shows "ice_partner (w_table w2) src dst
    \<and> w_sent w2 = w_sent w1 @ [(build_data_indication (en_rand e' (w_rands w1)) (relay_addr e) (ice_check txn' u v), src)]
    \<and> (\<exists>w3. handle_packet e'' data src w2 = (Inr (), w3)
        \<and> w_sent w3 = w_sent w2 @ [(server_data_indication (en_rand e'' (w_rands w2)) (relay_addr e) data, dst)])"
proof -
  have ext: "ext_ip e' = ext_ip e" "ext_ip e'' = ext_ip e" "relay_addr e' = relay_addr e" "relay_addr e'' = relay_addr e"
    using assms(15,16) by (simp_all add: ext_ip_def relay_addr_def)
  have room: "en_now e + PERMISSION_LIFETIME_MS < 2 ^ 64" using assms(17,20) by simp
  have "length v + length u < 513" using assms(8) by simp
  note first = check_handled [OF assms(1,2,5,13,9) this assms(12) room assms(23)]
  let ?a = "checked e v u a" and ?b = "checked e' u v b"
  have b: "get_by_client (w_table w1) dst = Some b" using first(2) assms(3,4) by simp
  have v: "lookup_by_ice_ufrag (w_table w1) v = None \<or> lookup_by_ice_ufrag (w_table w1) v = Some (alloc_id b)"
    using first(3) [of v] assms(6,7) by auto
  note second = check_handled [OF first(1) b v assms(14,10,8,11,20,24)]
  have sides: "get_by_client (w_table w2) src = Some ?a" "get_by_client (w_table w2) dst = Some ?b"
    using second(2) first(2) assms(4) by simp_all
  then have pair: "ice_partner (w_table w2) src dst"
    using assms(4) by (simp add: ice_partner_def checked_views)
  have a'': "is_permitted (en_now e'') ?a (ext_ip e)"
    using assms(17-19,21) room by (intro checked_permitted) simp_all
  have a': "is_permitted (en_now e') ?a (ext_ip e)"
    using a'' assms(18) by (auto simp: is_permitted_def split: option.splits)
  have b'': "is_permitted (en_now e'') ?b (ext_ip e)"
    using checked_permitted [of e' "en_now e''" b u v] assms(17-20,22) ext by simp
  have ids: "table_get (w_table w2) (alloc_id a) = Some ?a" "client_addr ?a = src"
    using get_by_client_iff [OF second(1), of src ?a] sides(1) by (simp_all add: table_get_def checked_views)
  have "lookup_by_ice_ufrag (w_table w2) u = Some (alloc_id a)"
  proof -
    have "alloc_id a \<noteq> alloc_id b"
      using get_by_client_iff [OF assms(1)] assms(2-4) by (metis option.inject)
    then have "ice_ufrag b \<noteq> Some u"
      using table_inv_ufrag [OF first(1), of u "alloc_id b"] first(3) [of u] get_by_client_id [OF first(1) b]
      by (auto simp: lookup_by_ice_ufrag_def)
    then show ?thesis using second(3) [of u] first(3) [of u] assms(7) by simp
  qed
  then have "ufrag_target e' (w_table w2) dst u = Some src"
    using ids a' assms(4) ext by (simp add: ufrag_target_def)
  from second(4) [OF this assms(25)] have sent: "w_sent w2 = w_sent w1
      @ [(build_data_indication (en_rand e' (w_rands w1)) (relay_addr e) (ice_check txn' u v), src)]"
    using ext by simp
  have "is_client (w_table w2) src" using sides(1) by (auto simp: is_client_def get_by_client_def split: option.splits)
  then have "handle_packet e'' data src w2 = relay_client_data e'' data src w2"
    using assms(27,28) classify_payload [of data]
    by (auto simp: handle_packet_def Let_def split: packet_type.split)
  moreover obtain w3 where "relay_client_data e'' data src w2 = (Inr (), w3)"
    "w_sent w3 = w_sent w2 @ [(server_data_indication (en_rand e'' (w_rands w2)) (relay_addr e) data, dst)]"
    using pair_delivery [OF second(1) sides pair _ _ assms(26), of data] a'' b'' ext by auto
  ultimately show ?thesis using pair sent by auto
qed


text \<open>
  C32. A Binding request from an address without an allocation is a plain STUN query: it changes
  nothing and is answered with exactly one message, a success response with the transaction id of the
  request whose XOR-MAPPED-ADDRESS decodes to the address the request came from.
\<close>

theorem binding_response_round_trip:
  assumes "classify data = Stun msg" "si_class msg = Request" "si_method msg = Binding"
    and "\<not> is_client (w_table w) src" "wf_sa src" "en_send_ok e (w_sends w)"
  shows "\<exists>response v. handle_packet e data src w = (Inr (), w\<lparr>w_sent := w_sent w @ [(response, src)], w_sends := Suc (w_sends w)\<rparr>)
    \<and> response = stun_msg 0x0101 (si_transaction_id msg) [(0x0020, v)]
    \<and> decode_xor_address v (si_transaction_id msg) = Some (sa_new (sa_ip src) (sa_port src))
    \<and> (\<exists>info. classify response = Stun info \<and> si_class info = SuccessResponse \<and> si_method info = Binding
        \<and> si_transaction_id info = si_transaction_id msg)"
proof -
  let ?txn = "si_transaction_id msg" and ?v = "xor_value src (si_transaction_id msg)"
  let ?r = "build_binding_response msg src"
  have txn: "length ?txn = 12" using assms(1) classify_txn by blast
  have r: "?r = stun_msg 0x0101 ?txn [(0x0020, ?v)]" by (rule builder_msgs(1) [OF txn demo_digest_lengths])
  have len: "length ?v < 65536" by (simp add: length_xor_value split: socket_addr.split)
  have "length (enc_attrs [(0x0020, ?v)]) < 65536"
    by (simp add: length_enc_attr length_xor_value pad4_def split: socket_addr.split)
  then have "parse_stun_info ?r = Some (info_of 0x0101 SuccessResponse ?txn (fold_attrs ?txn 0 [(0x0020, ?v)] empty_attrs) ?r)"
    unfolding r using parse_stun_msg [OF txn _ _ const_class_method(1)] len by auto
  moreover have "classify ?r = parse_stun ?r"
    unfolding r using classify_stun_msg [OF stun_msg_type [OF txn] _ stun_msg_nonempty] by force
  moreover have "handle_packet e data src w = (Inr (), w\<lparr>w_sent := w_sent w @ [(?r, src)], w_sends := Suc (w_sends w)\<rparr>)"
    using assms by (simp add: handle_packet_def Let_def handle_stun_def handle_binding_request_def reply_def
        send_then_ok ok_def attempt_def)
  ultimately show ?thesis
    using r decode_xor_value [OF assms(5) txn] const_class_method(2)
    by (intro exI [of _ ?r] exI [of _ ?v]) (simp add: parse_stun_def info_of_def)
qed


section \<open>Witnesses\<close>

lemma demo_pair_clients:
  "table_inv demo_pair" "get_by_client demo_pair demo_client = Some demo_alloc"
  "get_by_client demo_pair demo_peer = Some demo_callee" "lookup_by_ice_ufrag demo_pair u = None" "demo_client \<noteq> demo_peer"
proof -
  show "table_inv demo_pair"
    unfolding demo_pair_def by (intro create_or_get_inv demo_table_inv) (simp add: demo_table_def table_eval)
qed (simp_all add: demo_pair_value get_by_client_def lookup_by_ice_ufrag_def dm_get_def demo_client_def demo_peer_def)

text \<open>Two checks, and the callee hears what the caller says.\<close>

theorem call_established_witness:
  "let e = demo_env open_config; w = demo_world\<lparr>w_table := demo_pair\<rparr>;
       w1 = snd (handle_packet e (ice_check (replicate 12 1) (str ''bob'') (str ''alice'')) demo_client w);
       w2 = snd (handle_packet e (ice_check (replicate 12 2) (str ''alice'') (str ''bob'')) demo_peer w1)
   in \<exists>w3. handle_packet e (str '''') demo_client w2 = (Inr (), w3)
     \<and> w_sent w3 = w_sent w2 @ [(server_data_indication (en_rand e (w_rands w2)) (relay_addr e) (str ''''), demo_peer)]"
proof -
  let ?e = "demo_env open_config" and ?w = "demo_world\<lparr>w_table := demo_pair\<rparr>"
  define w1 where "w1 = snd (handle_packet ?e (ice_check (replicate 12 1) (str ''bob'') (str ''alice'')) demo_client ?w)"
  define w2 where "w2 = snd (handle_packet ?e (ice_check (replicate 12 2) (str ''alice'') (str ''bob'')) demo_peer w1)"
  have names: "str ''alice'' \<noteq> str ''bob''" "COLON \<notin> set (str ''alice'')" "COLON \<notin> set (str ''bob'')"
    "utf8_valid (str ''bob'' @ COLON # str ''alice'')" "utf8_valid (str ''alice'' @ COLON # str ''bob'')"
    "length (str ''alice'') + length (str ''bob'') < 513"
    by (simp_all add: str_def COLON_def)
  have fresh: "\<not> is_permitted now demo_alloc ip" "\<not> is_permitted now demo_callee ip" for now ip
    by (simp_all add: is_permitted_def demo_alloc_def demo_callee_def new_allocation_def dm_get_def)
  have sends: "en_send_ok ?e n" for n by (simp add: demo_env_def)
  have "classify (str '''') = Unknown" by (simp add: classify_def str_def)
  then have "\<exists>w3. handle_packet ?e (str '''') demo_client w2 = (Inr (), w3)
      \<and> w_sent w3 = w_sent w2 @ [(server_data_indication (en_rand ?e (w_rands w2)) (relay_addr ?e) (str ''''), demo_peer)]"
    using demo_pair_clients names fresh
    by (intro call_established [OF _ _ _ _ _ _ _ _ _ _ _ _ _ _ _ _ _ _ _ _ _ _ w1_def w2_def sends sends,
          THEN conjunct2, THEN conjunct2]) (simp_all add: PERMISSION_LIFETIME_MS_def)
  then show ?thesis unfolding Let_def w2_def w1_def .
qed

theorem binding_response_round_trip_witness:
  "\<exists>response. handle_packet (demo_env open_config) (ice_check (replicate 12 1) (str ''bob'') (str ''alice'')) demo_peer demo_world
    = (Inr (), demo_world\<lparr>w_sent := [(response, demo_peer)], w_sends := 1\<rparr>)"
proof -
  obtain msg where "classify (ice_check (replicate 12 1) (str ''bob'') (str ''alice'')) = Stun msg"
    "si_class msg = Request" "si_method msg = Binding"
    using ice_check_parsed [of "replicate 12 1" "str ''bob''" "str ''alice''"] by (auto simp: str_def COLON_def)
  moreover have "\<not> is_client (w_table demo_world) demo_peer"
    by (simp add: demo_world_def is_client_def demo_table_def table_eval demo_peer_def demo_client_def)
  moreover have "wf_sa demo_peer" by (simp add: demo_peer_def wf_sa_def)
  moreover have "w_sent demo_world = []" "w_sends demo_world = 0" "en_send_ok (demo_env open_config) 0"
    by (simp_all add: demo_world_def demo_env_def)
  ultimately show ?thesis
    using binding_response_round_trip [of "ice_check (replicate 12 1) (str ''bob'') (str ''alice'')" msg demo_world demo_peer
        "demo_env open_config"]
    by auto
qed

end
