(* ===== verification/Table_Core.thy ===== *)
theory Table_Core
  imports Alloc_Table
begin

text \<open>
  The part of the allocation table a stale id cannot harm. Called with the id of an allocation that is
  gone, \<open>add_permission\<close> and \<open>register_peer_tuple\<close> leave entries in the permission index and in the tuple
  index that point nowhere. The rest of the table, and everything the operations do to it, does not
  depend on these two indices.
\<close>

definition same_core :: "alloc_table \<Rightarrow> alloc_table \<Rightarrow> bool" where
  "same_core t s \<longleftrightarrow> allocations t = allocations s \<and> by_client t = by_client s
    \<and> by_ice_ufrag t = by_ice_ufrag s \<and> id_counter t = id_counter s"

definition core_inv :: "alloc_table \<Rightarrow> bool" where
  "core_inv t \<longleftrightarrow> (\<exists>s. table_inv s \<and> same_core t s)"

lemma table_inv_core: "table_inv t \<Longrightarrow> core_inv t"
  by (auto simp: core_inv_def same_core_def)

lemma same_core_ops:
  assumes "same_core t s"
  shows "same_core (with_alloc i f t) (with_alloc i f s)"
    and "same_core (snd (register_ice_ufrags i l r t)) (snd (register_ice_ufrags i l r s))"
    and "same_core (table_add_permission now i ip t) (table_add_permission now i ip s)"
    and "same_core (snd (try_add_permissions_capped now i ips cap t)) (snd (try_add_permissions_capped now i ips cap s))"
    and "same_core (register_peer_tuple now i p t) (register_peer_tuple now i p s)"
    and "fst (table_remove i t) = fst (table_remove i s)"
    and "same_core (snd (table_remove i t)) (snd (table_remove i s))"
    and "fst (create_or_get now c u life x t) = fst (create_or_get now c u life x s)"
    and "same_core (snd (create_or_get now c u life x t)) (snd (create_or_get now c u life x s))"
proof -
  have eq: "allocations t = allocations s" "by_client t = by_client s" "by_ice_ufrag t = by_ice_ufrag s"
    "id_counter t = id_counter s" using assms by (simp_all add: same_core_def)
  show alloc: "same_core (with_alloc i f t) (with_alloc i f s)" for f
    by (simp add: same_core_def eq with_alloc_def split: option.split)
  show "same_core (snd (register_ice_ufrags i l r t)) (snd (register_ice_ufrags i l r s))"
    by (simp add: same_core_def eq register_ice_ufrags_def Let_def with_alloc_def split: option.split)
  show "same_core (table_add_permission now i ip t) (table_add_permission now i ip s)"
    by (simp add: same_core_def eq table_add_permission_def with_alloc_def split: option.split)
  show "same_core (snd (try_add_permissions_capped now i ips cap t)) (snd (try_add_permissions_capped now i ips cap s))"
    by (simp add: same_core_def eq try_add_permissions_capped_def Let_def fold_index with_alloc_def split: option.split)
  show "same_core (register_peer_tuple now i p t) (register_peer_tuple now i p s)"
    by (simp add: same_core_def eq register_peer_tuple_def with_alloc_def split: option.split)
  show "fst (table_remove i t) = fst (table_remove i s)"
    "same_core (snd (table_remove i t)) (snd (table_remove i s))"
    by (simp_all add: same_core_def eq table_remove_def unindex_def Let_def fold_rfpi split: option.split)
  show "fst (create_or_get now c u life x t) = fst (create_or_get now c u life x s)"
    "same_core (snd (create_or_get now c u life x t)) (snd (create_or_get now c u life x s))"
    by (simp_all add: same_core_def eq create_or_get_def Let_def split: option.split)
qed

lemma same_core_unindex: "same_core t s \<Longrightarrow> same_core (fold (\<lambda>(i, a). unindex i a) ds t) (fold (\<lambda>(i, a). unindex i a) ds s)"
proof (induction ds arbitrary: t s)
  case (Cons d ds)
  have "same_core (unindex i a t) (unindex i a s)" for i a
    using Cons.prems by (simp add: same_core_def unindex_def Let_def fold_rfpi split: option.split)
  then show ?case using Cons.IH by (cases d) simp
qed simp

lemma same_core_reap: "same_core t s \<Longrightarrow> same_core (reap P t) (reap P s)"
  using same_core_unindex [of t s "filter (\<lambda>(i, a). P i a) (allocations s)"] by (simp add: reap_def same_core_def)

lemma same_core_sweeps:
  assumes "same_core t s"
  shows "same_core (cleanup_channel_bindings now t) (cleanup_channel_bindings now s)"
    and "same_core (cleanup_permissions now t) (cleanup_permissions now s)"
proof -
  show "same_core (cleanup_channel_bindings now t) (cleanup_channel_bindings now s)"
    using assms by (simp add: same_core_def cleanup_channel_bindings_def)
  have "same_core t s \<Longrightarrow> same_core (fold (reap_permissions now) xs t) (fold (reap_permissions now) xs s)" for xs
  proof (induction xs arbitrary: t s)
    case (Cons x xs)
    then have "same_core (reap_permissions now x t) (reap_permissions now x s)"
      by (cases x) (simp add: same_core_def reap_permissions_eq fold_rfpi)
    then show ?case using Cons.IH by simp
  qed simp
  moreover have "allocations t = allocations s" using assms by (simp add: same_core_def)
  ultimately show "same_core (cleanup_permissions now t) (cleanup_permissions now s)"
    using assms by (simp add: cleanup_permissions_def)
qed

text \<open>So every operation acts on the core as on a consistent table with the same core.\<close>

lemma same_core_op: "same_core t s \<Longrightarrow> same_core (run_table_op x t) (run_table_op x s)"
  by (cases x) (simp_all add: same_core_ops same_core_sweeps same_core_reap retain_is_reap cleanup_expired_def
      cleanup_inactive_def cleanup_orphaned_senders_def)

lemma core_op:
  assumes "table_inv s" "same_core t s" "op_ok t x"
  shows "core_inv (run_table_op x t)"
proof (cases "op_alive s x")
  case True
  have "op_ok s x" using assms(2,3) by (cases x) (simp_all add: same_core_def)
  then show ?thesis
    using run_table_op_inv [OF assms(1) _ True] same_core_op [OF assms(2), of x] by (auto simp: core_inv_def)
next
  case False
  have eq: "allocations t = allocations s" using assms(2) by (simp add: same_core_def)
  have "same_core (run_table_op x t) t"
    using False by (cases x) (simp_all add: same_core_def eq table_add_permission_def register_peer_tuple_def with_alloc_def)
  then show ?thesis using assms(1,2) by (auto simp: core_inv_def same_core_def)
qed

end
