(* ===== verification/Interleaving.thy ===== *)
theory Interleaving
  imports Runs Routing Table_Core
begin

text \<open>
  The two tasks of the server side by side. \<open>Server::run\<close> handles datagrams in one task and sweeps
  allocations in another, on a runtime with several threads, so a call of one task can fall between
  any two calls of the other. Here every call of a method of the allocation table or of the rate
  limiter is one step, a sweep of the table is one step per allocation it visits, the sweep of the
  limiter one per entry, and each task is a program counter that remembers what the code keeps in
  local variables between its calls. The contents of
  datagrams and the readings of the clocks are left open, so the steps cover every datagram and time.
\<close>

section \<open>Definitions\<close>

subsection \<open>The packet task\<close>

text \<open>What \<open>handle_allocate\<close> carries to the creation of the allocation.\<close>

record admission =
  ad_src :: socket_addr
  ad_user :: rstring
  ad_lifetime :: u32
  ad_txn :: bytes

text \<open>
  \<open>PHold\<close>: a handler holds the id of an allocation it has looked up. The other counters are the
  points of \<open>handle_allocate\<close> and of a Refresh with lifetime 0: about to remove, about to release the
  quota, about to ask the limiter, about to create, about to cancel a reservation.
\<close>

datatype packet_pc =
    PIdle
  | PHold allocation_id
  | PReap allocation_id socket_addr "admission option"
  | PRelease ip_addr "admission option"
  | PAdmit admission
  | PCreate admission
  | PCancel ip_addr

fun proceed :: "admission option \<Rightarrow> packet_pc" where
  "proceed None = PIdle"
| "proceed (Some ad) = PAdmit ad"

text \<open>
  The calls a handler makes with an id it holds: an update of the allocation itself (a timer, a
  channel binding), the registration of ICE fragments, permissions and peer tuples. By then the
  allocation may be gone. The steps allow these calls with any arguments; the handlers call
  \<open>add_permission\<close> only with the external address, and \<open>try_add_permissions_capped\<close> with the addresses
  of a CreatePermission or ChannelBind request.
\<close>

inductive held_call :: "allocation_id \<Rightarrow> alloc_table \<Rightarrow> alloc_table \<Rightarrow> bool" for i t where
  update: "neutral f \<Longrightarrow> held_call i t (with_alloc i f t)"
| ufrags: "held_call i t (snd (register_ice_ufrags i l r t))"
| permission: "held_call i t (table_add_permission now i ip t)"
| capped: "held_call i t (snd (try_add_permissions_capped now i ips cap t))"
| tuple: "held_call i t (register_peer_tuple now i p t)"

inductive packet_step ::
  "packet_pc \<Rightarrow> alloc_table \<Rightarrow> rate_limiter \<Rightarrow> packet_pc \<Rightarrow> alloc_table \<Rightarrow> rate_limiter \<Rightarrow> bool" where
  look: "dm_get (allocations t) i \<noteq> None \<Longrightarrow> packet_step PIdle t rl (PHold i) t rl"
| call: "held_call i t t' \<Longrightarrow> packet_step (PHold i) t rl (PHold i) t' rl"
| leave: "packet_step (PHold i) t rl PIdle t rl"
| fresh: "get_by_client t (ad_src ad) = None \<Longrightarrow> packet_step PIdle t rl (PAdmit ad) t rl"
| lapsed: "get_by_client t (ad_src ad) = Some a \<Longrightarrow> is_expired now a \<Longrightarrow>
    packet_step PIdle t rl (PReap (alloc_id a) (ad_src ad) (Some ad)) t rl"
| retire: "get_by_client t src = Some a \<Longrightarrow> packet_step PIdle t rl (PReap (alloc_id a) src None) t rl"
| reaped: "table_remove i t = (True, t') \<Longrightarrow> packet_step (PReap i src k) t rl (PRelease (sa_ip src) k) t' rl"
| gone: "table_remove i t = (False, t') \<Longrightarrow> packet_step (PReap i src k) t rl (proceed k) t' rl"
| release: "packet_step (PRelease ip k) t rl (proceed k) t (record_deallocation rl ip)"
| transport: "packet_step (PAdmit ad) t rl PIdle t rl"
| refused: "check_allocation_request ins rl (sa_ip (ad_src ad)) = (Inl err, rl') \<Longrightarrow>
    packet_step (PAdmit ad) t rl PIdle t rl'"
| admitted: "check_allocation_request ins rl (sa_ip (ad_src ad)) = (Inr (), rl') \<Longrightarrow>
    packet_step (PAdmit ad) t rl (PCreate ad) t rl'"
| created: "create_or_get now (ad_src ad) (ad_user ad) (ad_lifetime ad) (ad_txn ad) t = ((i, True), t') \<Longrightarrow>
    packet_step (PCreate ad) t rl PIdle t' rl"
| existed: "create_or_get now (ad_src ad) (ad_user ad) (ad_lifetime ad) (ad_txn ad) t = ((i, False), t') \<Longrightarrow>
    packet_step (PCreate ad) t rl (PCancel (sa_ip (ad_src ad))) t' rl"
| cancel: "packet_step (PCancel ip) t rl PIdle t (cancel_reservation rl ip)"

subsection \<open>The cleanup task\<close>

datatype sweep = Expired | Inactive | Orphaned

fun doomed :: "sweep \<Rightarrow> u64 \<Rightarrow> allocation \<Rightarrow> bool" where
  "doomed Expired now a = is_expired now a"
| "doomed Inactive now a = is_inactive now INACTIVITY_TIMEOUT_SECS a"
| "doomed Orphaned now a = is_orphaned_sender now INACTIVITY_TIMEOUT_SECS a"

text \<open>
  \<open>CSweep\<close>: the entries \<open>retain\<close> has still to visit and the addresses collected so far; \<open>CRefund\<close>: the
  loop over these addresses; \<open>CChannels\<close> and \<open>CPermissions\<close>: the allocations whose leases are still to
  be swept; \<open>CUnlist\<close>: the index entries of permissions already dropped; \<open>CTrim\<close>: the entries of the
  limiter still to be trimmed, at the instant read before the loop.
\<close>

datatype cleanup_pc =
    CSleep
  | CSweep sweep "allocation_id list" "ip_addr list"
  | CRefund sweep "ip_addr list"
  | CChannels "allocation_id list"
  | CPermissions "allocation_id list"
  | CUnlist allocation_id "ip_addr list" "allocation_id list"
  | CTrim instant "ip_addr list"

text \<open>
  A walk over a map starts with the keys that are there. As it goes on it may take the rest in another
  order and meet keys that were inserted after it began.
\<close>

definition visit :: "alloc_table \<Rightarrow> allocation_id list" where
  "visit t = map fst (allocations t)"

definition meets :: "('k, 'v) dmap \<Rightarrow> 'k list \<Rightarrow> 'k list \<Rightarrow> bool" where
  "meets m todo todo' \<longleftrightarrow> set todo \<subseteq> set todo' \<and> set todo' \<subseteq> set todo \<union> set (map fst m)"

text \<open>What \<open>RateLimiter::cleanup\<close> does to the entry of one address.\<close>

definition trim_at :: "instant \<Rightarrow> ip_addr \<Rightarrow> rate_limiter \<Rightarrow> rate_limiter" where
  "trim_at now ip rl =
    rl\<lparr>entries_of := filter (\<lambda>(k, e). k \<noteq> ip \<or> keeps_entry e)
         (map (\<lambda>(k, e). (k, if k = ip then trim_entry now e else e)) (entries_of rl))\<rparr>"

fun next_sweep :: "sweep \<Rightarrow> alloc_table \<Rightarrow> cleanup_pc" where
  "next_sweep Expired t = CSweep Inactive (visit t) []"
| "next_sweep Inactive t = CSweep Orphaned (visit t) []"
| "next_sweep Orphaned t = CChannels (visit t)"

inductive cleanup_step ::
  "cleanup_pc \<Rightarrow> alloc_table \<Rightarrow> rate_limiter \<Rightarrow> cleanup_pc \<Rightarrow> alloc_table \<Rightarrow> rate_limiter \<Rightarrow> bool" where
  wake: "cleanup_step CSleep t rl (CSweep Expired (visit t) []) t rl"
| meet: "meets (allocations t) todo todo' \<Longrightarrow> cleanup_step (CSweep s todo ips) t rl (CSweep s todo' ips) t rl"
| pass: "(case dm_get (allocations t) i of Some a \<Rightarrow> \<not> doomed s now a | None \<Rightarrow> True) \<Longrightarrow>
    cleanup_step (CSweep s (i # todo) ips) t rl (CSweep s todo ips) t rl"
| drop: "dm_get (allocations t) i = Some a \<Longrightarrow> doomed s now a \<Longrightarrow>
    cleanup_step (CSweep s (i # todo) ips) t rl
      (CSweep s todo (ips @ [sa_ip (client_addr a)])) (snd (table_remove i t)) rl"
| swept: "cleanup_step (CSweep s [] ips) t rl (CRefund s ips) t rl"
| refund: "cleanup_step (CRefund s (ip # ips)) t rl (CRefund s ips) t (record_deallocation rl ip)"
| onward: "cleanup_step (CRefund s []) t rl (next_sweep s t) t rl"
| meet_channels: "meets (allocations t) todo todo' \<Longrightarrow> cleanup_step (CChannels todo) t rl (CChannels todo') t rl"
| channels: "cleanup_step (CChannels (i # todo)) t rl (CChannels todo) (with_alloc i (cleanup_expired_channels now) t) rl"
| unbound: "cleanup_step (CChannels []) t rl (CPermissions (visit t)) t rl"
| meet_permissions: "meets (allocations t) todo todo' \<Longrightarrow> cleanup_step (CPermissions todo) t rl (CPermissions todo') t rl"
| absent: "dm_get (allocations t) i = None \<Longrightarrow>
    cleanup_step (CPermissions (i # todo)) t rl (CPermissions todo) t rl"
| lapse: "dm_get (allocations t) i = Some a \<Longrightarrow> cleanup_expired_permissions now a = (ips, a') \<Longrightarrow>
    cleanup_step (CPermissions (i # todo)) t rl (CUnlist i ips todo) (t\<lparr>allocations := dm_put i a' (allocations t)\<rparr>) rl"
| unlist: "cleanup_step (CUnlist i (ip # ips) todo) t rl (CUnlist i ips todo) (remove_from_permission_index ip i t) rl"
| unlisted: "cleanup_step (CUnlist i [] todo) t rl (CPermissions todo) t rl"
| pruned: "cleanup_step (CPermissions []) t rl (CTrim ins (map fst (entries_of rl))) t rl"
| meet_entries: "meets (entries_of rl) todo todo' \<Longrightarrow> cleanup_step (CTrim ins todo) t rl (CTrim ins todo') t rl"
| trim: "cleanup_step (CTrim ins (ip # todo)) t rl (CTrim ins todo) t (trim_at ins ip rl)"
| trimmed: "cleanup_step (CTrim ins []) t rl CSleep t rl"

subsection \<open>The system\<close>

record system =
  sy_packet :: packet_pc
  sy_cleanup :: cleanup_pc
  sy_table :: alloc_table
  sy_limiter :: rate_limiter

definition boot :: "config \<Rightarrow> system" where
  "boot cfg = \<lparr>sy_packet = PIdle, sy_cleanup = CSleep, sy_table = w_table (server_new cfg),
     sy_limiter = w_limiter (server_new cfg)\<rparr>"

inductive sys_step :: "system \<Rightarrow> system \<Rightarrow> bool" where
  packet: "packet_step (sy_packet s) (sy_table s) (sy_limiter s) pc t rl \<Longrightarrow>
    sys_step s (s\<lparr>sy_packet := pc, sy_table := t, sy_limiter := rl\<rparr>)"
| cleanup: "cleanup_step (sy_cleanup s) (sy_table s) (sy_limiter s) pc t rl \<Longrightarrow>
    sys_step s (s\<lparr>sy_cleanup := pc, sy_table := t, sy_limiter := rl\<rparr>)"

text \<open>\<open>steps n s s'\<close>: some interleaving of \<open>n\<close> steps leads from \<open>s\<close> to \<open>s'\<close>.\<close>

inductive steps :: "nat \<Rightarrow> system \<Rightarrow> system \<Rightarrow> bool" where
  none: "steps 0 s s"
| one: "steps n s s' \<Longrightarrow> sys_step s' s'' \<Longrightarrow> steps (Suc n) s s''"

section \<open>Lemmas\<close>

subsection \<open>Calls on the core of the table\<close>

lemma same_core_views:
  assumes "same_core t s"
  shows "ip_allocs t = ip_allocs s" "get_by_client t c = get_by_client s c" "is_client t c = is_client s c"
    "lookup_by_ice_ufrag t u = lookup_by_ice_ufrag s u" "descends t t' = descends s t'" "descends t' t = descends t' s"
  using assms
  by (simp_all add: same_core_def ip_allocs_def get_by_client_def is_client_def lookup_by_ice_ufrag_def
      descends_def fun_eq_iff split: option.split)

text \<open>What a step does to the core: it stays consistent, the counts change as given, no allocation changes hands.\<close>

definition core_step :: "alloc_table \<Rightarrow> alloc_table \<Rightarrow> bool" where
  "core_step t t' \<longleftrightarrow> core_inv t' \<and> descends t' t \<and> ip_allocs t' = ip_allocs t"

lemma core_stepI:
  assumes "table_inv s'" "same_core t' s'" "same_core t s" "descends s' s" "ip_allocs s' = ip_allocs s"
  shows "core_step t t'"
  using assms same_core_views [OF assms(2)] same_core_views [OF assms(3)]
  by (auto simp: core_step_def core_inv_def)

lemma held_call_core:
  assumes "core_inv t" "held_call i t t'"
  shows "core_step t t'"
proof -
  obtain s where s: "table_inv s" "same_core t s" using assms(1) by (auto simp: core_inv_def)
  note ops = same_core_ops [OF s(2)] and desc = operations_descend [OF s(1)] and cnt = ip_allocs_frames [OF s(1)]
  have alive: "dm_get (allocations t) i = dm_get (allocations s) i" using s(2) by (simp add: same_core_def)
  have dead: "same_core (table_add_permission now i ip t) s" "same_core (register_peer_tuple now i p t) s"
    if "dm_get (allocations s) i = None" for now ip p
    using s(2) that
    by (simp_all add: same_core_def table_add_permission_def register_peer_tuple_def with_alloc_def)
  show ?thesis
    using assms(2)
  proof cases
    case (update f)
    then show ?thesis using core_stepI [OF with_alloc_inv ops(1) s(2) desc(1) cnt(1)] s(1) by blast
  next
    case (ufrags l r)
    then show ?thesis using core_stepI [OF register_ice_ufrags_inv ops(2) s(2) desc(2) cnt(2)] s(1) by blast
  next
    case (permission now ip)
    then show ?thesis
      using core_stepI [OF consistency.inv_permission ops(3) s(2) desc(3) cnt(3)] s
        core_stepI [OF s(1) dead(1) s(2)] by (cases "dm_get (allocations s) i") auto
  next
    case (capped now ips cap)
    then show ?thesis using core_stepI [OF try_add_permissions_inv ops(4) s(2) desc(4) cnt(4)] s(1) by blast
  next
    case (tuple now p)
    then show ?thesis
      using core_stepI [OF consistency.inv_tuple ops(5) s(2) desc(5) cnt(5)] s
        core_stepI [OF s(1) dead(2) s(2)] by (cases "dm_get (allocations s) i") auto
  qed
qed


lemma core_remove:
  assumes "core_inv t"
  shows "table_remove i t = (False, t') \<Longrightarrow> t' = t"
    and "table_remove i t = (True, t') \<Longrightarrow> \<exists>a. dm_get (allocations t) i = Some a"
    and "dm_get (allocations t) i = Some a \<Longrightarrow> core_inv (snd (table_remove i t)) \<and> descends (snd (table_remove i t)) t
      \<and> ip_allocs t ip = ip_allocs (snd (table_remove i t)) ip + (if ip = sa_ip (client_addr a) then 1 else 0)"
proof -
  show "table_remove i t = (False, t') \<Longrightarrow> t' = t" "table_remove i t = (True, t') \<Longrightarrow> \<exists>a. dm_get (allocations t) i = Some a"
    by (auto simp: table_remove_def split: option.splits)
  assume a: "dm_get (allocations t) i = Some a"
  obtain s where s: "table_inv s" "same_core t s" using assms by (auto simp: core_inv_def)
  then have a': "dm_get (allocations s) i = Some a" using a by (simp add: same_core_def)
  note ops = same_core_ops(7) [OF s(2), of i]
  show "core_inv (snd (table_remove i t)) \<and> descends (snd (table_remove i t)) t
      \<and> ip_allocs t ip = ip_allocs (snd (table_remove i t)) ip + (if ip = sa_ip (client_addr a) then 1 else 0)"
    using ip_allocs_remove [OF s(1) a', of ip] remove_inv [OF s(1), of i] operations_descend(6) [OF s(1), of i]
      same_core_views [OF s(2)] same_core_views [OF ops] ops
    by (auto simp: core_inv_def)
qed

lemma core_create:
  assumes "core_inv t" "id_counter t + 1 < 2 ^ 64" "create_or_get now c u life x t = ((i, b), t')"
  shows "core_inv t' \<and> id_counter t' \<le> Suc (id_counter t)
    \<and> ip_allocs t' ip = ip_allocs t ip + (if b \<and> ip = sa_ip c then 1 else 0)"
proof -
  obtain s where s: "table_inv s" "same_core t s" using assms(1) by (auto simp: core_inv_def)
  have room: "id_counter s + 1 < 2 ^ 64" using s(2) assms(2) by (simp add: same_core_def)
  note ops = same_core_ops(8,9) [OF s(2), of now c u life x]
  obtain s' where s': "create_or_get now c u life x s = ((i, b), s')" "same_core t' s'"
    using ops assms(3) by (cases "create_or_get now c u life x s") simp
  have "id_counter s' \<le> Suc (id_counter s)"
    using room s'(1) by (cases rule: create_or_get_cases [of s c now u life x]) (auto simp: add_u64_exact)
  moreover have "table_inv s'" "ip_allocs s' ip = ip_allocs s ip + (if b \<and> ip = sa_ip c then 1 else 0)"
    using create_or_get_inv [OF s(1) room, of now c u life x] ip_allocs_create [OF s(1), of now c u life x ip] s'(1)
    by simp_all
  ultimately show ?thesis
    using same_core_views(1) [OF s(2)] same_core_views(1) [OF s'(2)] s(2) s'(2)
    by (auto simp: core_inv_def same_core_def)
qed

lemma core_lapse:
  assumes "core_inv t" "dm_get (allocations t) i = Some a" "cleanup_expired_permissions now a = (ips, a')"
  shows "core_step t (t\<lparr>allocations := dm_put i a' (allocations t)\<rparr>)"
proof -
  obtain s where s: "table_inv s" "same_core t s" using assms(1) by (auto simp: core_inv_def)
  have a: "dm_get (allocations s) i = Some a" using s(2) assms(2) by (simp add: same_core_def)
  let ?s = "reap_permissions now (i, a) s"
  have a': "a' = snd (cleanup_expired_permissions now a)" using assms(3) by simp
  have user: "username a' = username a" by (simp add: a' cleanup_expired_permissions_def Let_def)
  have get: "dm_get (allocations ?s) j = (if j = i then Some a' else dm_get (allocations s) j)" for j
    by (simp add: reap_permissions_get a')
  have inv: "table_inv ?s" by (rule reap_permissions_inv [OF s(1) a])
  have core: "same_core (t\<lparr>allocations := dm_put i a' (allocations t)\<rparr>) ?s"
    using s(2) by (simp add: same_core_def reap_permissions_eq fold_rfpi a')
  have "descends ?s s"
    unfolding descends_def get using a user by (simp add: reap_permissions_eq fold_rfpi a')
  moreover have "ip_allocs ?s = ip_allocs s"
    using ip_allocs_same_clients [OF s(1), of ?s] inv a
    by (auto simp: get a' table_inv_def table_wf_def fun_eq_iff)
  ultimately show ?thesis by (rule core_stepI [OF inv core s(2)])
qed

lemma core_channels:
  assumes "core_inv t"
  shows "core_step t (with_alloc i (cleanup_expired_channels now) t)"
  by (rule held_call_core [OF assms held_call.update]) (rule neutral_updates)

lemma core_unlist: "core_inv t \<Longrightarrow> core_step t (remove_from_permission_index ip i t)"
  by (auto simp: core_step_def core_inv_def same_core_def descends_def ip_allocs_def fun_eq_iff)

subsection \<open>Trimming the limiter entry by entry\<close>

lemma trim_at_get:
  assumes "dm_wf (entries_of rl)"
  shows "dm_get (entries_of (trim_at now ip rl)) k =
    (if k = ip then (case dm_get (entries_of rl) k of
        Some e \<Rightarrow> if keeps_entry (trim_entry now e) then Some (trim_entry now e) else None | None \<Rightarrow> None)
     else dm_get (entries_of rl) k)"
proof -
  have "map_of (filter (\<lambda>(k, e). k \<noteq> ip \<or> keeps_entry e) (map (\<lambda>(k, e). (k, if k = ip then trim_entry now e else e)) m)) k =
      (if k = ip then (case map_of m k of
        Some e \<Rightarrow> if keeps_entry (trim_entry now e) then Some (trim_entry now e) else None | None \<Rightarrow> None)
     else map_of m k)" if "distinct (map fst m)" for m
    using that
  proof (induction m)
    case (Cons x m)
    obtain j e where x: "x = (j, e)" by (cases x)
    have "map_of m j = None" using Cons.prems x by (simp add: map_of_eq_None_iff)
    then show ?case using Cons x by (cases "k = ip"; cases "j = ip"; cases "k = j") simp_all
  qed simp
  then show ?thesis using assms by (simp add: trim_at_def dm_get_def dm_wf_def)
qed

lemma trim_at_wf: "dm_wf (entries_of rl) \<Longrightarrow> dm_wf (entries_of (trim_at now ip rl))"
proof -
  have "map fst (map (\<lambda>(k, e). (k, if k = ip then trim_entry now e else e)) m) = map fst m" for m
    by (induction m) auto
  then have "dm_wf (map (\<lambda>(k, e). (k, if k = ip then trim_entry now e else e)) m) = dm_wf m" for m
    unfolding dm_wf_def by (simp only:)
  then show "dm_wf (entries_of rl) \<Longrightarrow> dm_wf (entries_of (trim_at now ip rl))"
    unfolding trim_at_def by (simp del: map_map) (rule dm_wf_filter, simp)
qed

lemma accounts_trim:
  assumes "lim.accounts rl f"
  shows "lim.accounts (trim_at now ip rl) f \<and> max_allocations_per_ip (trim_at now ip rl) = max_allocations_per_ip rl"
proof -
  have wf: "dm_wf (entries_of rl)" using assms by (simp add: lim.accounts_def limiter_ok_def)
  have "allocation_count (trim_at now ip rl) = allocation_count rl"
    by (auto simp: allocation_count_def trim_at_get [OF wf] trim_entry_def keeps_entry_def fun_eq_iff split: option.split)
  moreover have "max_allocations_per_ip (trim_at now ip rl) = max_allocations_per_ip rl" by (simp add: trim_at_def)
  ultimately show ?thesis
    using assms trim_at_wf [OF wf, of now ip] by (auto simp: lim.accounts_def limiter_ok_def)
qed

lemma trim_idem: "trim_entry now (trim_entry now e) = trim_entry now e"
  by (simp add: trim_entry_def pop_expired_mono)

lemma trim_some:
  "entries_of (fold (trim_at now) ks rl) = filter (\<lambda>(k, e). k \<notin> set ks \<or> keeps_entry e)
     (map (\<lambda>(k, e). (k, if k \<in> set ks then trim_entry now e else e)) (entries_of rl))"
proof (induction ks arbitrary: rl)
  case (Cons ip ks)
  have "filter (\<lambda>(k, e). k \<notin> set ks \<or> keeps_entry e) (map (\<lambda>(k, e). (k, if k \<in> set ks then trim_entry now e else e))
      (filter (\<lambda>(k, e). k \<noteq> ip \<or> keeps_entry e) (map (\<lambda>(k, e). (k, if k = ip then trim_entry now e else e)) m)))
    = filter (\<lambda>(k, e). k \<notin> set (ip # ks) \<or> keeps_entry e)
        (map (\<lambda>(k, e). (k, if k \<in> set (ip # ks) then trim_entry now e else e)) m)" for m
    by (induction m) (auto simp: trim_idem split: if_splits)
  then show ?case using Cons [of "trim_at now ip rl"] by (simp add: trim_at_def)
qed simp

lemma trim_all: "fold (trim_at now) (map fst (entries_of rl)) rl = limiter_cleanup now rl"
proof -
  have frame: "fold (trim_at now) ks rl = rl\<lparr>entries_of := entries_of (fold (trim_at now) ks rl)\<rparr>" for ks
    by (induction ks arbitrary: rl) (simp_all, metis (no_types, lifting) trim_at_def rate_limiter.update_convs(1)
        rate_limiter.surjective)
  have all: "filter (\<lambda>(k, e). k \<notin> set (map fst m) \<or> keeps_entry e)
      (map (\<lambda>(k, e). (k, if k \<in> set (map fst m) then trim_entry now e else e)) m)
    = filter (\<lambda>(ip, e). keeps_entry e) (map (\<lambda>(ip, e). (ip, trim_entry now e)) m)" for m
  proof -
    have "map (\<lambda>(k, e). (k, if k \<in> set (map fst m) then trim_entry now e else e)) m = map (\<lambda>(ip, e). (ip, trim_entry now e)) m"
      by (rule map_cong) force+
    then show ?thesis by (simp only:) (rule filter_cong, auto simp: rev_image_eqI)
  qed
  show ?thesis by (subst frame) (simp only: trim_some limiter_cleanup_def all)
qed

subsection \<open>The ledger\<close>

text \<open>Slots of an address that are counted by the limiter without an allocation to show for it.\<close>

fun packet_owes :: "packet_pc \<Rightarrow> ip_addr \<Rightarrow> nat" where
  "packet_owes (PRelease ip k) q = (if q = ip then 1 else 0)"
| "packet_owes (PCreate ad) q = (if q = sa_ip (ad_src ad) then 1 else 0)"
| "packet_owes (PCancel ip) q = (if q = ip then 1 else 0)"
| "packet_owes _ q = 0"

fun cleanup_owes :: "cleanup_pc \<Rightarrow> ip_addr \<Rightarrow> nat" where
  "cleanup_owes (CSweep s todo ips) q = count_list ips q"
| "cleanup_owes (CRefund s ips) q = count_list ips q"
| "cleanup_owes _ q = 0"

definition in_flight :: "system \<Rightarrow> ip_addr \<Rightarrow> nat" where
  "in_flight s ip = packet_owes (sy_packet s) ip + cleanup_owes (sy_cleanup s) ip"

definition ledger :: "system \<Rightarrow> ip_addr \<Rightarrow> nat" where
  "ledger s ip = ip_allocs (sy_table s) ip + in_flight s ip"

text \<open>An allocation about to be reaped is the one of the client it was looked up for, if it is still there.\<close>

fun reap_ok :: "alloc_table \<Rightarrow> packet_pc \<Rightarrow> bool" where
  "reap_ok t (PReap i src k) = (\<forall>a. dm_get (allocations t) i = Some a \<longrightarrow> client_addr a = src)"
| "reap_ok t _ = True"

definition sys_inv :: "nat \<Rightarrow> nat \<Rightarrow> system \<Rightarrow> bool" where
  "sys_inv m n s \<longleftrightarrow> core_inv (sy_table s) \<and> id_counter (sy_table s) \<le> Suc n
    \<and> lim.accounts (sy_limiter s) (ledger s) \<and> max_allocations_per_ip (sy_limiter s) = m
    \<and> reap_ok (sy_table s) (sy_packet s)"

lemma reap_ok_descends: "reap_ok t pc \<Longrightarrow> descends t' t \<Longrightarrow> reap_ok t' pc"
  by (cases pc) (fastforce simp: descends_def)+

lemma proceed_simps [simp]: "packet_owes (proceed k) ip = 0" "reap_ok t (proceed k)"
  by (cases k; simp)+

lemma accounts_cong: "lim.accounts rl f \<Longrightarrow> (\<And>ip. g ip = f ip) \<Longrightarrow> lim.accounts rl g"
  by (simp add: lim.accounts_def fun_eq_iff)


subsection \<open>Every step keeps the ledger\<close>

lemma sys_invI:
  assumes "core_inv t" "id_counter t \<le> Suc n" "lim.accounts rl f" "max_allocations_per_ip rl = m" "reap_ok t pk"
    and "\<And>ip. ip_allocs t ip + (packet_owes pk ip + cleanup_owes cl ip) = f ip"
  shows "sys_inv m n \<lparr>sy_packet = pk, sy_cleanup = cl, sy_table = t, sy_limiter = rl\<rparr>"
  using assms accounts_cong [OF assms(3)] by (simp add: sys_inv_def ledger_def in_flight_def)

lemma ledger_of:
  "ledger \<lparr>sy_packet = pk, sy_cleanup = cl, sy_table = t, sy_limiter = rl\<rparr>
    = (\<lambda>ip. ip_allocs t ip + (packet_owes pk ip + cleanup_owes cl ip))"
  by (simp add: ledger_def in_flight_def fun_eq_iff)

lemma core_client:
  assumes "core_inv t" "get_by_client t src = Some a"
  shows "dm_get (allocations t) (alloc_id a) = Some a" "client_addr a = src"
proof -
  obtain s where s: "table_inv s" "same_core t s" using assms(1) by (auto simp: core_inv_def)
  then show "dm_get (allocations t) (alloc_id a) = Some a" "client_addr a = src"
    using assms(2) get_by_client_iff [OF s(1)] same_core_views(2) [OF s(2)] by (auto simp: same_core_def)
qed

lemma descends_ids: "descends t' t \<Longrightarrow> id_counter t' = id_counter t"
  by (simp add: descends_def)

lemma packet_keeps:
  assumes inv: "sys_inv m n \<lparr>sy_packet = pk, sy_cleanup = cl, sy_table = t, sy_limiter = rl\<rparr>"
    and room: "n + 2 < 2 ^ 64" and step: "packet_step pk t rl pk' t' rl'"
  shows "sys_inv m (Suc n) \<lparr>sy_packet = pk', sy_cleanup = cl, sy_table = t', sy_limiter = rl'\<rparr>"
proof -
  define f where "f = (\<lambda>ip. ip_allocs t ip + (packet_owes pk ip + cleanup_owes cl ip))"
  have core: "core_inv t" and ids: "id_counter t \<le> Suc n" and acc: "lim.accounts rl f"
    and cap: "max_allocations_per_ip rl = m" and reap: "reap_ok t pk"
    using inv by (simp_all add: sys_inv_def f_def ledger_of)
  have quiet: ?thesis if "core_inv t'" "descends t' t" "rl' = rl" "reap_ok t' pk'"
    "\<And>ip. ip_allocs t' ip + (packet_owes pk' ip + cleanup_owes cl ip) = f ip"
    using that acc cap ids descends_ids [OF that(2)] by (intro sys_invI) auto
  have counted: ?thesis if "t' = t" "lim.accounts rl' g" "max_allocations_per_ip rl' = max_allocations_per_ip rl"
    "reap_ok t pk'" "\<And>ip. ip_allocs t ip + (packet_owes pk' ip + cleanup_owes cl ip) = g ip" for g
    using that core cap ids by (intro sys_invI [where f = g]) auto
  have grown: ?thesis
    if "create_or_get now c u life x t = ((i, b), t')" "rl' = rl" "reap_ok t' pk'"
      "\<And>ip. packet_owes pk ip = packet_owes pk' ip + (if b \<and> ip = sa_ip c then 1 else 0)" for now c u life x i b
  proof -
    have "id_counter t + 1 < 2 ^ 64" using ids room by simp
    note grow = core_create [OF core this that(1)]
    have "id_counter t' \<le> Suc (Suc n)" using grow [of undefined] ids by linarith
    moreover have "lim.accounts rl' f" using acc that(2) by simp
    ultimately show ?thesis using grow that(2-4) cap by (intro sys_invI [where f = f]) (simp_all add: f_def)
  qed
  have stay: ?thesis if "t' = t" "rl' = rl" "reap_ok t pk'" "\<And>ip. packet_owes pk' ip = packet_owes pk ip"
    using that core by (intro quiet) (simp_all add: f_def)
  show ?thesis
    using step
  proof cases
    case (call i)
    then show ?thesis using held_call_core [OF core] by (intro quiet) (auto simp: core_step_def f_def)
  next
    case (lapsed ad a now)
    then show ?thesis using core_client [OF core] core by (intro quiet) (auto simp: f_def)
  next
    case (retire src a)
    then show ?thesis using core_client [OF core] core by (intro quiet) (auto simp: f_def)
  next
    case (reaped i src k)
    then obtain a where a: "dm_get (allocations t) i = Some a" using core_remove(2) [OF core] by blast
    then have "client_addr a = src" "t' = snd (table_remove i t)" using reap reaped by simp_all
    then show ?thesis using core_remove(3) [OF core a] reaped by (intro quiet) (auto simp: f_def)
  next
    case (gone i src k)
    then show ?thesis using core_remove(1) [OF core gone(4)] core by (intro quiet) (auto simp: f_def)
  next
    case (release ip k)
    then show ?thesis using lim.accounts_release [OF acc, of ip]
      by (intro counted [where g = "f(ip := f ip - 1)"]) (auto simp: f_def)
  next
    case (refused ins ad err)
    then show ?thesis using lim.accounts_refuse [OF acc refused(4)] by (intro counted [where g = f]) (auto simp: f_def)
  next
    case (admitted ins ad)
    then show ?thesis using lim.accounts_admit [OF acc admitted(4)]
      by (intro counted [where g = "f(sa_ip (ad_src ad) := Suc (f (sa_ip (ad_src ad))))"]) (auto simp: f_def)
  next
    case (created now ad i)
    then show ?thesis by (intro grown) auto
  next
    case (existed now ad i)
    then show ?thesis by (intro grown) auto
  next
    case (cancel ip)
    then show ?thesis
      using lim.accounts_release [OF acc, of ip]
      by (intro counted [where g = "f(ip := f ip - 1)"]) (auto simp: f_def cancel_is_dealloc)
  qed (rule stay; simp)+
qed

lemma cleanup_keeps:
  assumes inv: "sys_inv m n \<lparr>sy_packet = pk, sy_cleanup = cl, sy_table = t, sy_limiter = rl\<rparr>"
    and step: "cleanup_step cl t rl cl' t' rl'"
  shows "sys_inv m (Suc n) \<lparr>sy_packet = pk, sy_cleanup = cl', sy_table = t', sy_limiter = rl'\<rparr>"
proof -
  define f where "f = (\<lambda>ip. ip_allocs t ip + (packet_owes pk ip + cleanup_owes cl ip))"
  have core: "core_inv t" and ids: "id_counter t \<le> Suc n" and acc: "lim.accounts rl f"
    and cap: "max_allocations_per_ip rl = m" and reap: "reap_ok t pk"
    using inv by (simp_all add: sys_inv_def f_def ledger_of)
  have quiet: ?thesis if "core_inv t'" "descends t' t" "rl' = rl"
    "\<And>ip. ip_allocs t' ip + (packet_owes pk ip + cleanup_owes cl' ip) = f ip"
    using that acc cap ids descends_ids [OF that(2)] reap_ok_descends [OF reap that(2)] by (intro sys_invI) auto
  have counted: ?thesis if "t' = t" "lim.accounts rl' g" "max_allocations_per_ip rl' = max_allocations_per_ip rl"
    "\<And>ip. ip_allocs t ip + (packet_owes pk ip + cleanup_owes cl' ip) = g ip" for g
    using that core cap ids reap by (intro sys_invI [where f = g]) auto
  have swept: ?thesis if "core_step t t'" "rl' = rl" "\<And>ip. cleanup_owes cl' ip = cleanup_owes cl ip"
    using that by (intro quiet) (auto simp: core_step_def f_def)
  have stay: ?thesis if "t' = t" "rl' = rl" "\<And>ip. cleanup_owes cl' ip = cleanup_owes cl ip"
    using that core by (intro quiet) (simp_all add: f_def)
  show ?thesis
    using step
  proof cases
    case (drop i a s now todo ips)
    then show ?thesis using core_remove(3) [OF core drop(5)] by (intro quiet) (auto simp: f_def)
  next
    case (refund s ip ips)
    then show ?thesis
      using lim.accounts_release [OF acc, of ip]
      by (intro counted [where g = "f(ip := f ip - 1)"]) (auto simp: f_def)
  next
    case (onward s)
    then show ?thesis by (intro stay) (cases s; simp)+
  next
    case (channels i todo now)
    then show ?thesis using core_channels [OF core] by (intro swept) simp_all
  next
    case (lapse i a now ips a' todo)
    then show ?thesis using core_lapse [OF core] by (intro swept) simp_all
  next
    case (unlist i ip ips todo)
    then show ?thesis using core_unlist [OF core] by (intro swept) simp_all
  next
    case (trim ins ip todo)
    then show ?thesis using accounts_trim [OF acc, of ins ip] by (intro counted [where g = f]) (auto simp: f_def)
  qed (rule stay; simp)+
qed

lemma sys_step_keeps:
  assumes "sys_step s s'" "sys_inv m n s" "n + 2 < 2 ^ 64"
  shows "sys_inv m (Suc n) s'"
proof (cases s)
  case (fields pk cl t rl)
  with assms(1) show ?thesis
    using packet_keeps [OF assms(2) [unfolded fields] assms(3)] cleanup_keeps [OF assms(2) [unfolded fields]]
    by (elim sys_step.cases) simp_all
qed

lemma steps_keep:
  assumes "steps n s s'" "sys_inv m k s" "n + k + 2 < 2 ^ 64"
  shows "sys_inv m (n + k) s'"
  using assms
proof (induction rule: steps.induct)
  case (one n s s' s'')
  then have "sys_inv m (n + k) s'" by simp
  with one.hyps(2) one.prems(2) show ?case
    using sys_step_keeps [of s' s'' m "n + k"] by simp
qed simp

lemma boot_inv:
  assumes "0 < cfg_max_allocations_per_ip cfg" "cfg_max_allocations_per_ip cfg \<le> u32_max"
  shows "sys_inv (cfg_max_allocations_per_ip cfg) 0 (boot cfg)"
proof -
  have "ip_allocs new_table ip = 0" for ip by (simp add: ip_allocs_def new_table_def dm_count_def)
  then show ?thesis
    using assms table_inv_core [OF new_table_inv]
    by (simp add: sys_inv_def boot_def server_new_def lim.accounts_def limiter_ok_def new_rate_limiter_def
        allocation_count_def ledger_def in_flight_def fun_eq_iff new_table_def)
qed


subsection \<open>Handlers and ticks as sequences of steps\<close>

definition leads_to :: "system \<Rightarrow> system \<Rightarrow> bool" where
  "leads_to s s' \<longleftrightarrow> (\<exists>n. steps n s s')"

abbreviation sys :: "packet_pc \<Rightarrow> cleanup_pc \<Rightarrow> alloc_table \<Rightarrow> rate_limiter \<Rightarrow> system" where
  "sys pk cl t rl \<equiv> \<lparr>sy_packet = pk, sy_cleanup = cl, sy_table = t, sy_limiter = rl\<rparr>"

lemma leads_to_refl [simp]: "leads_to s s"
  using steps.none by (auto simp: leads_to_def)

lemma leads_to_step: "leads_to s s' \<Longrightarrow> sys_step s' s'' \<Longrightarrow> leads_to s s''"
  unfolding leads_to_def by (blast intro: steps.one)

lemma leads_to_trans:
  assumes "leads_to s s'" "leads_to s' s''"
  shows "leads_to s s''"
proof -
  have "leads_to s u" if "steps n s' u" for n u
    using that assms(1) by (induction n s' u rule: steps.induct) (auto intro: leads_to_step)
  then show ?thesis using assms(2) by (auto simp: leads_to_def)
qed

lemma packet_leads: "leads_to s (sys pk cl t rl) \<Longrightarrow> packet_step pk t rl pk' t' rl' \<Longrightarrow> leads_to s (sys pk' cl t' rl')"
  using leads_to_step [OF _ sys_step.packet, of s "sys pk cl t rl"] by simp

lemma cleanup_leads: "leads_to s (sys pk cl t rl) \<Longrightarrow> cleanup_step cl t rl cl' t' rl' \<Longrightarrow> leads_to s (sys pk cl' t' rl')"
  using leads_to_step [OF _ sys_step.cleanup, of s "sys pk cl t rl"] by simp

text \<open>States in which both tasks are between their activities.\<close>

definition rests :: "system \<Rightarrow> alloc_table \<Rightarrow> rate_limiter \<Rightarrow> bool" where
  "rests s t rl \<longleftrightarrow> table_inv t \<and> leads_to s (sys PIdle CSleep t rl)"

lemma rests_call:
  assumes "rests s t rl" "held_call i t t'" "table_inv t'" "dm_get (allocations t) i = None \<Longrightarrow> t' = t"
  shows "rests s t' rl"
proof (cases "dm_get (allocations t) i")
  case None
  then show ?thesis using assms by simp
next
  case (Some a)
  have "leads_to s (sys PIdle CSleep t rl)" using assms(1) by (simp add: rests_def)
  moreover have "packet_step PIdle t rl (PHold i) t rl" using Some by (simp add: packet_step.look)
  ultimately show ?thesis
    using packet_leads [OF packet_leads [OF packet_leads] packet_step.leave] packet_step.call [OF assms(2)] assms(3)
    by (metis rests_def)
qed

interpretation walk: packet_invariant "rests s" for s
proof unfold_locales
  fix t :: alloc_table and rl rl' :: rate_limiter
  assume r: "rests s t rl"
  then show inv: "table_inv t" by (simp add: rests_def)
  have path: "leads_to s (sys PIdle CSleep t rl)" using r by (simp add: rests_def)
  note call = rests_call [OF r]
  show "rests s (with_alloc i f t) rl" if "neutral f" for i f
    using call [OF held_call.update [OF that]] with_alloc_inv [OF inv that] by (simp add: with_alloc_def)
  show "rests s (snd (register_ice_ufrags i l r t)) rl" for i l r
    using call [OF held_call.ufrags] register_ice_ufrags_inv [OF inv] by (simp add: register_ice_ufrags_def)
  show "rests s (table_add_permission now i ip t) rl" if "dm_get (allocations t) i \<noteq> None" for now i ip
    using call [OF held_call.permission, of now i ip] consistency.inv_permission [OF inv that] that by simp
  show "rests s (snd (try_add_permissions_capped now i ips cap t)) rl" for now i ips cap
    using call [OF held_call.capped] try_add_permissions_inv [OF inv] by (simp add: try_add_permissions_capped_def)
  show "rests s (register_peer_tuple now i p t) rl" if "dm_get (allocations t) i \<noteq> None" for now i p
    using call [OF held_call.tuple, of now i p] consistency.inv_tuple [OF inv that] that by simp
  show "rests s (snd (table_remove i t)) (record_deallocation rl (sa_ip (client_addr a)))"
    if a: "dm_get (allocations t) i = Some a" for i a
  proof -
    have "get_by_client t (client_addr a) = Some a" "alloc_id a = i"
      using get_by_client_iff [OF inv] table_inv_alloc [OF inv a] a by auto
    moreover have "table_remove i t = (True, snd (table_remove i t))" using a by (simp add: table_remove_def)
    ultimately have "leads_to s (sys (proceed None) CSleep (snd (table_remove i t)) (record_deallocation rl (sa_ip (client_addr a))))"
      using packet_leads [OF packet_leads [OF packet_leads [OF path packet_step.retire] packet_step.reaped] packet_step.release]
      by blast
    then show ?thesis using remove_inv [OF inv] by (simp add: rests_def)
  qed
  fix c :: socket_addr
  assume new: "get_by_client t c = None"
  have admit: "leads_to s (sys (PAdmit ad) CSleep t rl)" if "ad_src ad = c" for ad
    using packet_leads [OF path packet_step.fresh] that new by simp
  show "rests s t rl'" if "check_allocation_request ins rl (sa_ip c) = (Inl err, rl')" for ins err
    using packet_leads [OF admit packet_step.refused, of "\<lparr>ad_src = c, ad_user = [], ad_lifetime = 0, ad_txn = []\<rparr>"]
      that inv by (auto simp: rests_def)
  show "rests s (snd (create_or_get now c u life x t)) rl'"
    if "id_counter t + 1 < 2 ^ 64" "check_allocation_request ins rl (sa_ip c) = (Inr (), rl')" for now u life x ins
  proof -
    let ?ad = "\<lparr>ad_src = c, ad_user = u, ad_lifetime = life, ad_txn = x\<rparr>"
    have "dm_get (by_client t) c = None" using new inv is_client_iff [of t c] by (simp add: is_client_def)
    then obtain i where "create_or_get now c u life x t = ((i, True), snd (create_or_get now c u life x t))"
      by (simp add: create_or_get_def Let_def)
    then have "leads_to s (sys PIdle CSleep (snd (create_or_get now c u life x t)) rl')"
      using packet_leads [OF packet_leads [OF admit packet_step.admitted, of ?ad] packet_step.created] that(2) by simp
    then show ?thesis using create_or_get_inv [OF inv that(1)] by (simp add: rests_def)
  qed
qed


text \<open>The cleanup task, one entry at a time.\<close>

lemma remove_others: "j \<noteq> i \<Longrightarrow> dm_get (allocations (snd (table_remove i t))) j = dm_get (allocations t) j"
  by (simp add: table_remove_def unindex_def Let_def fold_rfpi split: option.split)

lemma sweep_leads:
  assumes "leads_to s (sys pk (CSweep k (map fst xs) ips) t rl)"
    and "distinct (map fst xs)" "\<And>i a. (i, a) \<in> set xs \<Longrightarrow> dm_get (allocations t) i = Some a"
  shows "leads_to s (sys pk
      (CSweep k [] (ips @ map (\<lambda>(i, a). sa_ip (client_addr a)) (filter (\<lambda>(i, a). doomed k now a) xs)))
      (fold (\<lambda>i t. snd (table_remove i t)) (map fst (filter (\<lambda>(i, a). doomed k now a) xs)) t) rl)"
  using assms
proof (induction xs arbitrary: ips t)
  case (Cons x xs)
  obtain i a where x [simp]: "x = (i, a)" by (cases x)
  have a: "dm_get (allocations t) i = Some a" using Cons.prems(3) by simp
  have rest: "dm_get (allocations (snd (table_remove i t))) j = Some b" if "(j, b) \<in> set xs" for j b
    using that Cons.prems(2,3) remove_others [of j i t] by (force simp: image_iff)
  have start: "leads_to s (sys pk (CSweep k (i # map fst xs) ips) t rl)" using Cons.prems(1) by simp
  show ?case
  proof (cases "doomed k now a")
    case True
    from cleanup_leads [OF start cleanup_step.drop [OF a True]]
    show ?thesis using Cons.IH [OF _ _ rest, of "ips @ [sa_ip (client_addr a)]"] Cons.prems(2) True by simp
  next
    case False
    then have "leads_to s (sys pk (CSweep k (map fst xs) ips) t rl)"
      using cleanup_leads [OF start cleanup_step.pass [where now = now]] a by simp
    then show ?thesis using Cons.IH [of ips t] Cons.prems(2,3) False by simp
  qed
qed simp

lemma refund_leads:
  "leads_to s (sys pk (CRefund k ips) t rl) \<Longrightarrow> leads_to s (sys pk (CRefund k []) t (foldl record_deallocation rl ips))"
  by (induction ips arbitrary: rl) (auto intro: cleanup_leads [OF _ cleanup_step.refund])

lemma sweep_and_refund_leads:
  assumes "leads_to s (sys pk (CSweep k (visit t) []) t rl)" "dm_wf (allocations t)"
    and "retain_unless (doomed k now) t = (ips, t')"
  shows "leads_to s (sys pk (next_sweep k t') t' (foldl record_deallocation rl ips))"
proof -
  have "distinct (map fst (allocations t))" "\<And>i a. (i, a) \<in> set (allocations t) \<Longrightarrow> dm_get (allocations t) i = Some a"
    using assms(2) by (simp_all add: dm_wf_def dm_mem_iff [OF assms(2)])
  from sweep_leads [OF assms(1) [unfolded visit_def] this, where now = now]
  have "leads_to s (sys pk (CSweep k [] ips) t' rl)"
    using retain_is_removals [OF assms(2), of "doomed k now"] assms(3) by simp
  then show ?thesis
    using cleanup_leads [OF refund_leads [OF cleanup_leads [OF _ cleanup_step.swept]] cleanup_step.onward] by blast
qed

lemma unlist_leads:
  "leads_to s (sys pk (CUnlist i ips todo) t rl) \<Longrightarrow>
    leads_to s (sys pk (CPermissions todo) (fold (\<lambda>ip. remove_from_permission_index ip i) ips t) rl)"
  by (induction ips arbitrary: t) (auto intro: cleanup_leads [OF _ cleanup_step.unlist] cleanup_leads [OF _ cleanup_step.unlisted])

lemma permissions_lead:
  assumes "leads_to s (sys pk (CPermissions (map fst xs)) t rl)"
    and "distinct (map fst xs)" "\<And>i a. (i, a) \<in> set xs \<Longrightarrow> dm_get (allocations t) i = Some a"
  shows "leads_to s (sys pk (CPermissions []) (fold (reap_permissions now) xs t) rl)"
  using assms
proof (induction xs arbitrary: t)
  case (Cons x xs)
  obtain i a where x [simp]: "x = (i, a)" by (cases x)
  have a: "dm_get (allocations t) i = Some a" using Cons.prems(3) by simp
  have rest: "dm_get (allocations (reap_permissions now (i, a) t)) j = Some b" if "(j, b) \<in> set xs" for j b
    using that Cons.prems(2,3) by (force simp: reap_permissions_get image_iff)
  have "leads_to s (sys pk (CPermissions (i # map fst xs)) t rl)" using Cons.prems(1) by simp
  from unlist_leads [OF cleanup_leads [OF this cleanup_step.lapse [OF a, of now]]]
  have "leads_to s (sys pk (CPermissions (map fst xs)) (reap_permissions now (i, a) t) rl)"
    unfolding reap_permissions_eq by (simp add: prod_eq_iff)
  then show ?case using Cons.IH [OF _ _ rest] Cons.prems(2) by simp
qed simp

text \<open>Sweeping the channels of one allocation after the other is the sweep of all.\<close>

lemma put_present: "k \<notin> fst ` set pre \<Longrightarrow> dm_put k v (pre @ (k, u) # rest) = pre @ (k, v) # rest"
  by (induction pre) (auto simp: dm_put_def)

lemma with_alloc_each:
  "allocations t = pre @ xs \<Longrightarrow> distinct (map fst (pre @ xs)) \<Longrightarrow>
    fold (\<lambda>i. with_alloc i f) (map fst xs) t = t\<lparr>allocations := pre @ map (\<lambda>(i, a). (i, f a)) xs\<rparr>"
proof (induction xs arbitrary: pre t)
  case (Cons x xs)
  obtain i a where x: "x = (i, a)" by (cases x)
  have new: "i \<notin> fst ` set pre" using Cons.prems(2) x by auto
  then have "map_of pre i = None" by (simp add: map_of_eq_None_iff)
  then have "dm_get (allocations t) i = Some a" using Cons.prems(1) x by (simp add: dm_get_def map_add_def)
  then have "with_alloc i f t = t\<lparr>allocations := (pre @ [(i, f a)]) @ xs\<rparr>"
    using put_present [OF new] Cons.prems(1) x by (simp add: with_alloc_def)
  then show ?case
    using Cons.IH [of "with_alloc i f t" "pre @ [(i, f a)]"] Cons.prems(2) x by simp
qed simp

lemma channels_each:
  "dm_wf (allocations t) \<Longrightarrow>
    fold (\<lambda>i. with_alloc i (cleanup_expired_channels now)) (visit t) t = cleanup_channel_bindings now t"
  using with_alloc_each [of t "[]" "allocations t"] by (simp add: visit_def cleanup_channel_bindings_def dm_wf_def)

lemma channels_lead:
  "leads_to s (sys pk (CChannels todo) t rl) \<Longrightarrow>
    leads_to s (sys pk (CChannels []) (fold (\<lambda>i. with_alloc i (cleanup_expired_channels now)) todo t) rl)"
  by (induction todo arbitrary: t) (auto intro: cleanup_leads [OF _ cleanup_step.channels])

lemma trims_lead:
  "leads_to s (sys pk (CTrim ins todo) t rl) \<Longrightarrow> leads_to s (sys pk (CTrim ins []) t (fold (trim_at ins) todo rl))"
  by (induction todo arbitrary: rl) (auto intro: cleanup_leads [OF _ cleanup_step.trim])

lemma permission_sweep_leads:
  assumes "leads_to s (sys pk (CChannels (visit t)) t rl)" "table_inv t"
  shows "leads_to s (sys pk CSleep (cleanup_permissions now (cleanup_channel_bindings now t)) (limiter_cleanup ins rl))"
proof -
  let ?t = "cleanup_channel_bindings now t"
  have wf: "dm_wf (allocations t)" "dm_wf (allocations ?t)"
    using assms(2) cleanup_channel_bindings_inv [OF assms(2)] by (simp_all add: table_inv_def table_wf_def)
  have "leads_to s (sys pk (CPermissions (map fst (allocations ?t))) ?t rl)"
    using cleanup_leads [OF channels_lead [OF assms(1), of now] cleanup_step.unbound] channels_each [OF wf(1)]
    by (simp add: visit_def)
  moreover have "distinct (map fst (allocations ?t))"
    "\<And>i a. (i, a) \<in> set (allocations ?t) \<Longrightarrow> dm_get (allocations ?t) i = Some a"
    using wf(2) by (simp_all add: dm_wf_def dm_mem_iff [OF wf(2)])
  ultimately have "leads_to s (sys pk (CPermissions []) (cleanup_permissions now ?t) rl)"
    unfolding cleanup_permissions_def by (rule permissions_lead)
  from trims_lead [OF cleanup_leads [OF this cleanup_step.pruned [of _ _ ins]]]
  show ?thesis using cleanup_leads [OF _ cleanup_step.trimmed] by (simp add: trim_all)
qed

lemma tick_rests:
  assumes "walk.holds s w"
  shows "walk.holds s (cleanup_tick e w)"
proof -
  let ?now = "en_now e"
  have inv: "table_inv (w_table w)" and path: "leads_to s (sys PIdle CSleep (w_table w) (w_limiter w))"
    using assms by (simp_all add: walk.holds_def rests_def)
  obtain ips1 t1 where r1: "retain_unless (doomed Expired ?now) (w_table w) = (ips1, t1)" by fastforce
  obtain ips2 t2 where r2: "retain_unless (doomed Inactive ?now) t1 = (ips2, t2)" by fastforce
  obtain ips3 t3 where r3: "retain_unless (doomed Orphaned ?now) t2 = (ips3, t3)" by fastforce
  have inv1: "table_inv t1" using consistency.inv_retain [OF inv, of "doomed Expired ?now"] r1 by simp
  have inv2: "table_inv t2" using consistency.inv_retain [OF inv1, of "doomed Inactive ?now"] r2 by simp
  have inv3: "table_inv t3" using consistency.inv_retain [OF inv2, of "doomed Orphaned ?now"] r3 by simp
  have wf: "table_inv t \<Longrightarrow> dm_wf (allocations t)" for t by (simp add: table_inv_def table_wf_def)
  note s1 = sweep_and_refund_leads [OF cleanup_leads [OF path cleanup_step.wake] wf [OF inv] r1, simplified]
  note s2 = sweep_and_refund_leads [OF s1 wf [OF inv1] r2, simplified]
  note s3 = permission_sweep_leads [OF sweep_and_refund_leads [OF s2 wf [OF inv2] r3, simplified] inv3]
  have "doomed Expired ?now = is_expired ?now" "doomed Inactive ?now = is_inactive ?now INACTIVITY_TIMEOUT_SECS"
    "doomed Orphaned ?now = is_orphaned_sender ?now INACTIVITY_TIMEOUT_SECS" by (simp_all add: fun_eq_iff)
  then show ?thesis
    using s3 [of ?now "en_instant e"] r1 r2 r3 cleanup_permissions_table(1) [OF cleanup_channel_bindings_inv [OF inv3]]
    by (simp add: cleanup_tick_def Let_def sweep_and_release_def cleanup_expired_def cleanup_inactive_def
        cleanup_orphaned_senders_def walk.holds_def rests_def)
qed

lemma run_rests:
  assumes "run cfg evs w" "length evs + 2 < 2 ^ 64"
  shows "walk.holds (boot cfg) w"
  using assms
proof (induction rule: run.induct)
  case start
  have "rests (boot cfg) (w_table (server_new cfg)) (w_limiter (server_new cfg))"
    using new_table_inv by (simp add: rests_def boot_def server_new_def)
  then show ?case by (simp add: walk.holds_def)
next
  case (event evs w ev w')
  then have w: "walk.holds (boot cfg) w" by simp
  have "id_counter (w_table w) \<le> Suc (length evs)"
    using run_owned [OF event.hyps(1)] event.prems by (simp add: owned_by_def)
  then have "id_counter (w_table w) + 1 < 2 ^ 64" using event.prems by simp
  then show ?case
    using walk.holds_packet [OF w] tick_rests [OF w] event.hyps(3) by (cases ev) (auto simp: step_function)
qed


subsection \<open>What a stale id leaves behind\<close>

lemma dangling_tuple:
  assumes "lookup_by_peer_tuple (w_table w) p = Some i" "table_get (w_table w) i = None" "\<not> is_client (w_table w) p"
    and "\<And>msg. classify data \<noteq> Stun msg" "\<And>c payload. classify data \<noteq> TurnChannelData c payload"
  shows "handle_packet e data p w = (Inr (), w)"
proof -
  have "AList.update k v m = m" if "map_of m k = Some v" for m :: "(socket_addr \<times> allocation_id) list" and k v
    using that by (induction m) (auto split: if_splits)
  then have "dm_put p i (by_peer_tuple (w_table w)) = by_peer_tuple (w_table w)"
    using assms(1) by (simp add: lookup_by_peer_tuple_def dm_put_def dm_get_def)
  then have "register_peer_tuple now i p (w_table w) = w_table w" for now
    using assms(2) by (simp add: register_peer_tuple_def with_alloc_def table_get_def)
  then have same: "upd_table (register_peer_tuple now i p) w = w" for now by (cases w) (simp add: upd_table_def)
  have look: "lookup_by_peer_addr (w_table w) p = ([i], True)"
    using assms(1) by (simp add: lookup_by_peer_addr_def lookup_by_peer_tuple_def)
  have "snapshot_peer_deliveries now (w_table w) [i] p skip use = []" for now skip use
    using assms(2) by (simp add: snapshot_peer_deliveries_def List.map_filter_def)
  then show ?thesis
    using assms(3-5) look same
    by (auto simp: handle_packet_def Let_def is_known_peer_def handle_rtp_def handle_rtcp_def handle_dtls_def
        choose_and_deliver_def handle_peer_data_def ok_def split: packet_type.split)
qed

section \<open>Properties\<close>

text \<open>
  C2. The quota survives concurrency: under every interleaving of the calls the two tasks make on the
  shared maps, the limiter's count of an address is the number of its allocations plus the slots one
  of the tasks is just about to fill or to give back; it never exceeds the configured maximum; the
  client index and the index of ICE fragments find exactly the allocations there are; and whenever both tasks are between their
  activities the count is the number of allocations.
\<close>

theorem interleaved_quota_exact:
  assumes "steps n (boot cfg) s" "n + 2 < 2 ^ 64"
    and "0 < cfg_max_allocations_per_ip cfg" "cfg_max_allocations_per_ip cfg \<le> u32_max"
  shows "allocation_count (sy_limiter s) ip = ip_allocs (sy_table s) ip + in_flight s ip
    \<and> allocation_count (sy_limiter s) ip \<le> cfg_max_allocations_per_ip cfg
    \<and> (\<forall>c a. get_by_client (sy_table s) c = Some a \<longleftrightarrow> (\<exists>i. table_get (sy_table s) i = Some a \<and> client_addr a = c))
    \<and> (\<forall>u i. lookup_by_ice_ufrag (sy_table s) u = Some i \<longleftrightarrow> (\<exists>a. table_get (sy_table s) i = Some a \<and> ice_ufrag a = Some u))
    \<and> (sy_packet s = PIdle \<and> sy_cleanup s = CSleep \<longrightarrow>
        allocation_count (sy_limiter s) ip = ip_allocs (sy_table s) ip)"
proof -
  have inv: "sys_inv (cfg_max_allocations_per_ip cfg) n s"
    using steps_keep [OF assms(1) boot_inv [OF assms(3,4)]] assms(2) by simp
  then obtain t where t: "table_inv t" "same_core (sy_table s) t" by (auto simp: sys_inv_def core_inv_def)
  have "get_by_client (sy_table s) c = Some a \<longleftrightarrow> (\<exists>i. table_get (sy_table s) i = Some a \<and> client_addr a = c)" for c a
    using get_by_client_iff [OF t(1)] same_core_views(2) [OF t(2)] table_inv_alloc [OF t(1)] t(2)
    by (auto simp: same_core_def table_get_def)
  moreover have "lookup_by_ice_ufrag (sy_table s) u = Some i \<longleftrightarrow> (\<exists>a. table_get (sy_table s) i = Some a \<and> ice_ufrag a = Some u)" for u i
    using table_inv_ufrag [OF t(1), of u i] t(2) by (simp add: same_core_def table_get_def lookup_by_ice_ufrag_def)
  ultimately show ?thesis
    using inv by (auto simp: sys_inv_def lim.accounts_def ledger_def in_flight_def limiter_ok_def)
qed

text \<open>
  C15. Handlers are made of these calls: whatever a run of the server, in which every datagram and
  every tick is handled to its end, does to the table and the limiter, some interleaving of the two
  tasks does as well, so the runs are a special case of the interleavings.
\<close>

theorem sequential_runs_interleave:
  assumes "run cfg evs w" "length evs + 2 < 2 ^ 64"
  shows "\<exists>n. steps n (boot cfg)
    \<lparr>sy_packet = PIdle, sy_cleanup = CSleep, sy_table = w_table w, sy_limiter = w_limiter w\<rparr>"
  using run_rests [OF assms] by (simp add: walk.holds_def rests_def leads_to_def)

text \<open>
  C24. What concurrency does break is the fast path for peers: when the cleanup removes an
  allocation between the lookup of a handler and its \<open>register_peer_tuple\<close>, the peer's address stays
  recorded for an allocation that is gone. From then on media from that address is dropped without
  any change of state, whatever the other allocations permit.
\<close>

theorem stale_tuple_race:
  assumes "table_inv t" "table_get t i = Some a" "doomed k now a" "\<not> is_client t p"
  shows "\<exists>cl t'. steps 2 \<lparr>sy_packet = PHold i, sy_cleanup = CSweep k (i # todo) ips, sy_table = t, sy_limiter = rl\<rparr>
      \<lparr>sy_packet = PHold i, sy_cleanup = cl, sy_table = t', sy_limiter = rl\<rparr>
    \<and> lookup_by_peer_tuple t' p = Some i \<and> table_get t' i = None
    \<and> (\<forall>j. j \<noteq> i \<longrightarrow> table_get t' j = table_get t j)
    \<and> (\<forall>e data w. w_table w = t' \<and> (\<forall>msg. classify data \<noteq> Stun msg) \<and> (\<forall>c payload. classify data \<noteq> TurnChannelData c payload)
        \<longrightarrow> handle_packet e data p w = (Inr (), w))"
proof -
  let ?r = "snd (table_remove i t)" and ?cl = "CSweep k todo (ips @ [sa_ip (client_addr a)])"
  let ?t = "register_peer_tuple now i p ?r"
  have a: "dm_get (allocations t) i = Some a" using assms(2) by (simp add: table_get_def)
  have gone: "dm_get (allocations ?r) i = None"
    by (simp add: table_remove_def unindex_def Let_def fold_rfpi split: option.split)
  have "sys_step (sys (PHold i) (CSweep k (i # todo) ips) t rl) (sys (PHold i) ?cl ?r rl)"
    using sys_step.cleanup [of "sys (PHold i) (CSweep k (i # todo) ips) t rl"] cleanup_step.drop [OF a assms(3)] by simp
  moreover have "sys_step (sys (PHold i) ?cl ?r rl) (sys (PHold i) ?cl ?t rl)"
    using sys_step.packet [of "sys (PHold i) ?cl ?r rl"] packet_step.call [OF held_call.tuple] by simp
  ultimately have "steps 2 (sys (PHold i) (CSweep k (i # todo) ips) t rl) (sys (PHold i) ?cl ?t rl)"
    using steps.one [OF steps.one [OF steps.none]] by (simp add: numeral_2_eq_2)
  moreover have tuple: "lookup_by_peer_tuple ?t p = Some i" "table_get ?t i = None"
    using gone by (simp_all add: lookup_by_peer_tuple_def register_peer_tuple_def with_alloc_def table_get_def)
  moreover have "table_get ?t j = table_get t j" if "j \<noteq> i" for j
    using remove_others [OF that, of t] gone by (simp add: table_get_def register_peer_tuple_def with_alloc_def)
  moreover have fresh: "\<not> is_client ?t p"
    using assms(4) a gone
    by (simp add: is_client_def register_peer_tuple_def with_alloc_def table_remove_def unindex_def Let_def fold_rfpi
        split: option.split)
  moreover have "handle_packet e data p w = (Inr (), w)" if "w_table w = ?t \<and> (\<forall>msg. classify data \<noteq> Stun msg)
      \<and> (\<forall>c payload. classify data \<noteq> TurnChannelData c payload)" for e data w
    using dangling_tuple [of w p i data e] tuple fresh that by auto
  ultimately show ?thesis by blast
qed


text \<open>
  C25. The permission sweep has a window of the same kind: it drops a lapsed permission first and its
  index entry afterwards. When a CreatePermission for that peer runs in between, with room under the
  cap, it succeeds, and then the sweep takes the fresh index entry away: the allocation is left with a
  live permission that the index does not list, so media from the peer's address is not found by it.
\<close>

theorem permission_unlisted_race:
  assumes "table_get t i = Some a" "cleanup_expired_permissions now a = (ip # ips, a')"
    and "permissions_count now a' < cap" "now + PERMISSION_LIFETIME_MS < 2 ^ 64"
  shows "\<exists>t1 t2 t3 b.
    cleanup_step (CPermissions (i # todo)) t rl (CUnlist i (ip # ips) todo) t1 rl
    \<and> try_add_permissions_capped now i [ip] cap t1 = (True, t2) \<and> i \<in> set (lookup_by_peer_ip t2 ip)
    \<and> cleanup_step (CUnlist i (ip # ips) todo) t2 rl (CUnlist i ips todo) t3 rl
    \<and> steps 3 \<lparr>sy_packet = PHold i, sy_cleanup = CPermissions (i # todo), sy_table = t, sy_limiter = rl\<rparr>
        \<lparr>sy_packet = PHold i, sy_cleanup = CUnlist i ips todo, sy_table = t3, sy_limiter = rl\<rparr>
    \<and> table_get t3 i = Some b \<and> is_permitted now b ip \<and> i \<notin> set (lookup_by_peer_ip t3 ip)
    \<and> (\<forall>p. sa_ip p = ip \<and> lookup_by_peer_tuple t3 p = None \<longrightarrow> i \<notin> set (fst (lookup_by_peer_addr t3 p)))"
proof -
  have a: "dm_get (allocations t) i = Some a" using assms(1) by (simp add: table_get_def)
  let ?t1 = "t\<lparr>allocations := dm_put i a' (allocations t)\<rparr>"
  let ?t2 = "index_permission i ip (with_alloc i (alloc_add_permission now ip) ?t1)"
  let ?t3 = "remove_from_permission_index ip i ?t2"
  have lapse: "cleanup_step (CPermissions (i # todo)) t rl (CUnlist i (ip # ips) todo) ?t1 rl"
    by (rule cleanup_step.lapse [OF a assms(2)])
  have "length (new_ips now a' [ip]) \<le> 1" by (simp add: new_ips_def)
  then have grant: "try_add_permissions_capped now i [ip] cap ?t1 = (True, ?t2)"
    using assms(3) by (simp add: try_add_permissions_capped_def permissions_count_def Let_def)
  have "sys_step (sys (PHold i) (CPermissions (i # todo)) t rl) (sys (PHold i) (CUnlist i (ip # ips) todo) ?t1 rl)"
    using sys_step.cleanup [of "sys (PHold i) (CPermissions (i # todo)) t rl"] lapse by simp
  moreover have "sys_step (sys (PHold i) (CUnlist i (ip # ips) todo) ?t1 rl) (sys (PHold i) (CUnlist i (ip # ips) todo) ?t2 rl)"
    using sys_step.packet [of "sys (PHold i) (CUnlist i (ip # ips) todo) ?t1 rl"]
      packet_step.call [OF held_call.capped [where i = i and t = ?t1 and now = now and ips = "[ip]" and cap = cap]] grant
    by simp
  moreover have "sys_step (sys (PHold i) (CUnlist i (ip # ips) todo) ?t2 rl) (sys (PHold i) (CUnlist i ips todo) ?t3 rl)"
    using sys_step.cleanup [of "sys (PHold i) (CUnlist i (ip # ips) todo) ?t2 rl"] cleanup_step.unlist by simp
  ultimately have "steps 3 (sys (PHold i) (CPermissions (i # todo)) t rl) (sys (PHold i) (CUnlist i ips todo) ?t3 rl)"
    using steps.one [OF steps.one [OF steps.one [OF steps.none]]] by (simp add: numeral_3_eq_3)
  moreover have "table_get ?t3 i = Some (alloc_add_permission now ip a')"
    by (simp add: table_get_def with_alloc_def)
  moreover have "is_permitted now (alloc_add_permission now ip a') ip"
    using assms(4) by (simp add: is_permitted_def alloc_add_permission_def add_u64_exact PERMISSION_LIFETIME_MS_def)
  moreover have unlisted: "i \<notin> set (lookup_by_peer_ip ?t3 ip)" by (simp add: rfpi_lookup)
  moreover have "i \<notin> set (fst (lookup_by_peer_addr ?t3 p))" if "sa_ip p = ip \<and> lookup_by_peer_tuple ?t3 p = None" for p
    using that unlisted by (auto simp: lookup_by_peer_addr_def lookup_by_peer_tuple_def Let_def)
  moreover have "i \<in> set (lookup_by_peer_ip ?t2 ip)" by (simp add: index_permission_lookup)
  ultimately show ?thesis using lapse grant cleanup_step.unlist by blast
qed

section \<open>Witnesses\<close>

text \<open>An Allocate request that the limiter has admitted and the table does not hold yet.\<close>

definition demo_admission :: admission where
  "demo_admission = \<lparr>ad_src = demo_client, ad_user = str ''user'', ad_lifetime = 60, ad_txn = []\<rparr>"

definition demo_pending :: system where
  "demo_pending = (boot demo_config)\<lparr>sy_packet := PCreate demo_admission,
     sy_limiter := snd (check_allocation_request 0 (w_limiter (server_new demo_config)) (sa_ip demo_client))\<rparr>"

lemma demo_pending_steps: "steps 2 (boot demo_config) demo_pending"
proof -
  let ?s = "(boot demo_config)\<lparr>sy_packet := PAdmit demo_admission\<rparr>"
  have "packet_step PIdle (sy_table (boot demo_config)) (sy_limiter (boot demo_config)) (PAdmit demo_admission)
      (sy_table (boot demo_config)) (sy_limiter (boot demo_config))"
    using demo_premises(2) by (intro packet_step.fresh) (simp add: demo_admission_def boot_def)
  then have "sys_step (boot demo_config) ?s"
    using sys_step.packet [of "boot demo_config"] by (simp add: boot_def)
  moreover have "packet_step (PAdmit demo_admission) (sy_table ?s) (sy_limiter ?s) (PCreate demo_admission)
      (sy_table ?s) (sy_limiter demo_pending)"
    using demo_premises(7)
    by (intro packet_step.admitted [of 0]) (simp add: demo_admission_def boot_def demo_pending_def)
  then have "sys_step ?s demo_pending"
    using sys_step.packet [of ?s] by (simp add: demo_pending_def boot_def)
  ultimately show ?thesis using steps.one [OF steps.one [OF steps.none]] by (simp add: numeral_2_eq_2)
qed

theorem interleaved_quota_exact_witness:
  "in_flight demo_pending (sa_ip demo_client) = 1 \<and> allocation_count (sy_limiter demo_pending) (sa_ip demo_client) = 1"
proof -
  have "cfg_max_allocations_per_ip demo_config = 200"
    by (simp add: demo_config_def config_new_def with_credential_def with_auth_secret_def)
  then have "allocation_count (sy_limiter demo_pending) (sa_ip demo_client)
      = ip_allocs (sy_table demo_pending) (sa_ip demo_client) + in_flight demo_pending (sa_ip demo_client)"
    using interleaved_quota_exact [OF demo_pending_steps, of "sa_ip demo_client"] by (simp add: u32_max_def)
  moreover have "ip_allocs (sy_table demo_pending) ip = 0" for ip
    by (simp add: demo_pending_def boot_def server_new_def ip_allocs_def new_table_def dm_count_def)
  ultimately show ?thesis
    by (simp add: in_flight_def demo_pending_def boot_def demo_admission_def)
qed

theorem sequential_runs_interleave_witness:
  "\<exists>n. steps n (boot demo_config)
    \<lparr>sy_packet = PIdle, sy_cleanup = CSleep, sy_table = w_table demo_after, sy_limiter = w_limiter demo_after\<rparr>"
  using sequential_runs_interleave [OF demo_run] by simp

theorem stale_tuple_race_witness:
  "\<exists>cl t'. steps 2
      \<lparr>sy_packet = PHold 1, sy_cleanup = CSweep Expired [1] [], sy_table = demo_table, sy_limiter = new_rate_limiter 30 200\<rparr>
      \<lparr>sy_packet = PHold 1, sy_cleanup = cl, sy_table = t', sy_limiter = new_rate_limiter 30 200\<rparr>
    \<and> lookup_by_peer_tuple t' demo_peer = Some 1
    \<and> handle_packet (demo_env open_config) [] demo_peer (demo_world\<lparr>w_table := t'\<rparr>)
        = (Inr (), demo_world\<lparr>w_table := t'\<rparr>)"
proof -
  have "table_inv demo_table" "table_get demo_table 1 = Some demo_alloc"
    using demo_client_alloc by (simp_all add: demo_world_def demo_table_def table_get_def table_eval demo_alloc_def new_allocation_def)
  moreover have "doomed Expired 10000000 demo_alloc"
    by (simp add: is_expired_def demo_alloc_def new_allocation_def add_u64_def)
  moreover have "\<not> is_client demo_table demo_peer"
    by (simp add: is_client_def demo_table_def table_eval demo_peer_def demo_client_def)
  ultimately obtain cl t' where race: "steps 2
      \<lparr>sy_packet = PHold 1, sy_cleanup = CSweep Expired [1] [], sy_table = demo_table, sy_limiter = new_rate_limiter 30 200\<rparr>
      \<lparr>sy_packet = PHold 1, sy_cleanup = cl, sy_table = t', sy_limiter = new_rate_limiter 30 200\<rparr>"
    "lookup_by_peer_tuple t' demo_peer = Some 1"
    and drops: "\<forall>e data w. w_table w = t' \<and> (\<forall>msg. classify data \<noteq> Stun msg)
      \<and> (\<forall>c payload. classify data \<noteq> TurnChannelData c payload) \<longrightarrow> handle_packet e data demo_peer w = (Inr (), w)"
    using stale_tuple_race [of demo_table 1 demo_alloc Expired 10000000 demo_peer "[]" "[]" "new_rate_limiter 30 200"]
    by auto
  have "classify [] = Unknown" by (simp add: classify_def)
  then have "handle_packet (demo_env open_config) [] demo_peer (demo_world\<lparr>w_table := t'\<rparr>)
      = (Inr (), demo_world\<lparr>w_table := t'\<rparr>)"
    using drops by simp
  with race show ?thesis by blast
qed

text \<open>
  The race on a concrete table: the permission of \<open>demo_client\<close> for \<open>demo_remote\<close>, granted at time 0, has
  lapsed at 300000 ms; the sweep drops it, a CreatePermission grants it again, the sweep unlists it.
\<close>

theorem permission_unlisted_race_witness:
  "1 \<in> set (lookup_by_peer_ip demo_lease (sa_ip demo_remote))
    \<and> (\<exists>t3 b. steps 3
      \<lparr>sy_packet = PHold 1, sy_cleanup = CPermissions [1], sy_table = demo_lease, sy_limiter = new_rate_limiter 30 200\<rparr>
      \<lparr>sy_packet = PHold 1, sy_cleanup = CUnlist 1 [] [], sy_table = t3, sy_limiter = new_rate_limiter 30 200\<rparr>
    \<and> table_get t3 1 = Some b \<and> is_permitted 300000 b (sa_ip demo_remote) \<and> 1 \<notin> set (lookup_by_peer_ip t3 (sa_ip demo_remote)))"
proof -
  obtain ips a' where swept: "cleanup_expired_permissions 300000 demo_leased = (ips, a')" by fastforce
  then have facts: "ips = [sa_ip demo_remote]" "permissions a' = []"
    by (auto simp: cleanup_expired_permissions_def demo_leased_def demo_alloc_def new_allocation_def alloc_add_permission_def
        dm_put_def dm_del_def add_u64_def PERMISSION_LIFETIME_MS_def Let_def)
  have "1 \<in> set (lookup_by_peer_ip demo_lease (sa_ip demo_remote))"
    using table_inv_permission [OF demo_lease_facts(1), of 1 "sa_ip demo_remote"] demo_lease_facts(2,4)
    by (auto simp: holds_permission_def table_get_def is_permitted_def split: option.splits)
  moreover have "permissions_count 300000 a' < 100" using facts(2) by (simp add: permissions_count_def dm_count_def)
  ultimately show ?thesis
    using permission_unlisted_race [OF demo_lease_facts(2) swept [unfolded facts(1)], of 100 "[]" "new_rate_limiter 30 200"]
    by (auto simp: PERMISSION_LIFETIME_MS_def)
qed

end
