(* ===== verification/Loops.thy ===== *)
theory Loops
  imports Engine "HOL-Library.While_Combinator" "HOL-Library.Monad_Syntax"
begin

text \<open>
  The \<open>while\<close> loops of the server as they are written: a mutable state, a test and a body that may
  break out of the loop or panic, with every index, slice and subtraction checked the way Rust checks
  it. The recursive functions of the other theories are the results of these loops; here the loops are
  shown to end, to do so without a panic, and to return just these results.
\<close>

section \<open>Definitions\<close>

subsection \<open>Loops\<close>

text \<open>What an execution of a loop body leads to: the next test, a \<open>break\<close> or \<open>return\<close>, or a panic.\<close>

datatype 's flow = Go 's | Break 's | Panic

datatype 's outcome = Returns 's | Panics

fun going :: "('s \<Rightarrow> bool) \<Rightarrow> 's flow \<Rightarrow> bool" where
  "going test (Go s) = test s"
| "going test _ = False"

fun advance :: "('s \<Rightarrow> 's flow) \<Rightarrow> 's flow \<Rightarrow> 's flow" where
  "advance body (Go s) = body s"
| "advance body f = f"

fun leave_loop :: "'s flow \<Rightarrow> 's outcome" where
  "leave_loop (Go s) = Returns s"
| "leave_loop (Break s) = Returns s"
| "leave_loop Panic = Panics"

text \<open>\<open>None\<close>: the loop never ends.\<close>

definition execute :: "('s \<Rightarrow> bool) \<Rightarrow> ('s \<Rightarrow> 's flow) \<Rightarrow> 's \<Rightarrow> 's outcome option" where
  "execute test body s = map_option leave_loop (while_option (going test) (advance body) (Go s))"

text \<open>Checked access: \<open>xs[i]\<close>, and \<open>&xs[a..b]\<close>.\<close>

definition index_at :: "'a list \<Rightarrow> nat \<Rightarrow> 'a option" where
  "index_at xs i = (if i < length xs then Some (xs ! i) else None)"

definition slice_at :: "'a list \<Rightarrow> nat \<Rightarrow> nat \<Rightarrow> 'a list option" where
  "slice_at xs a b = (if a \<le> b \<and> b \<le> length xs then Some (take (b - a) (drop a xs)) else None)"

text \<open>\<open>u16::from_be_bytes([xs[i], xs[i + 1]])\<close>, and \<open>u32::from_be_bytes\<close> of four bytes.\<close>

definition read_u16 :: "bytes \<Rightarrow> nat \<Rightarrow> u16 option" where
  "read_u16 xs i =
    (case (index_at xs i, index_at xs (i + 1)) of (Some hi, Some lo) \<Rightarrow> Some (u16_be hi lo) | _ \<Rightarrow> None)"

definition read_u32 :: "bytes \<Rightarrow> nat \<Rightarrow> u32 option" where
  "read_u32 xs i = do {
     a \<leftarrow> index_at xs i;
     b \<leftarrow> index_at xs (i + 1);
     c \<leftarrow> index_at xs (i + 2);
     d \<leftarrow> index_at xs (i + 3);
     Some (u32_be a b c d)
   }"

subsection \<open>The arms of the attribute match\<close>

text \<open>\<open>value[i] ^ key[j]\<close>, and the loop that fills a buffer with such bytes. \<open>None\<close>: a panic.\<close>

definition xor_at :: "bytes \<Rightarrow> nat \<Rightarrow> bytes \<Rightarrow> nat \<Rightarrow> u8 option" where
  "xor_at value i key j = do { a \<leftarrow> index_at value i; b \<leftarrow> index_at key j; Some (a XOR b) }"

fun xor_from :: "bytes \<Rightarrow> nat \<Rightarrow> bytes \<Rightarrow> nat \<Rightarrow> bytes option" where
  "xor_from value i key 0 = Some []"
| "xor_from value i key (Suc n) = do {
     front \<leftarrow> xor_from value i key n;
     b \<leftarrow> xor_at value (i + n) key n;
     Some (front @ [b])
   }"

definition decode_xor_address_checked :: "bytes \<Rightarrow> bytes \<Rightarrow> socket_addr option option" where
  "decode_xor_address_checked value transaction_id =
    (if length value < 8 then Some None
     else do {
       family \<leftarrow> index_at value 1;
       xor_port \<leftarrow> read_u16 value 2;
       let port = xor_port XOR 0x2112;
       if family = 0x01 then do {
         a \<leftarrow> xor_at value 4 MAGIC_BYTES 0;
         b \<leftarrow> xor_at value 5 MAGIC_BYTES 1;
         c \<leftarrow> xor_at value 6 MAGIC_BYTES 2;
         d \<leftarrow> xor_at value 7 MAGIC_BYTES 3;
         Some (Some (sa_new (V4 a b c d) port))
       }
       else if family = 0x02 then
         (if length value < 20 then Some None
          else do {
            front \<leftarrow> xor_from value 4 MAGIC_BYTES 4;
            back \<leftarrow> xor_from value 8 transaction_id 12;
            Some (Some (sa_new (V6 (front @ back)) port))
          })
       else Some None
     })"

definition match_attr_checked ::
  "u16 \<Rightarrow> bytes \<Rightarrow> bytes \<Rightarrow> nat \<Rightarrow> parsed_attrs \<Rightarrow> parsed_attrs option" where
  "match_attr_checked attr_type value transaction_id offset result =
    (if attr_type = ATTR_USERNAME \<and> length value \<le> MAX_USERNAME_LEN then
       Some (result\<lparr>pa_username := from_utf8 value\<rparr>)
     else if attr_type = ATTR_XOR_PEER_ADDRESS then do {
       decoded \<leftarrow> decode_xor_address_checked value transaction_id;
       Some (case decoded of
           Some addr \<Rightarrow> result\<lparr>pa_xor_peer_addresses := pa_xor_peer_addresses result @ [addr]\<rparr>
         | None \<Rightarrow> result)
     }
     else if attr_type = ATTR_CHANNEL_NUMBER \<and> length value \<ge> 2 then do {
       channel \<leftarrow> read_u16 value 0;
       Some (if 0x4000 \<le> channel \<and> channel \<le> 0x7FFF then result\<lparr>pa_channel_number := Some channel\<rparr> else result)
     }
     else if attr_type = ATTR_LIFETIME \<and> length value \<ge> 4 then do {
       secs \<leftarrow> read_u32 value 0;
       Some (result\<lparr>pa_lifetime := Some secs\<rparr>)
     }
     else if attr_type = ATTR_DATA then Some (result\<lparr>pa_data := Some value\<rparr>)
     else if attr_type = ATTR_REALM \<and> length value \<le> MAX_REALM_LEN then
       Some (result\<lparr>pa_realm := from_utf8 value\<rparr>)
     else if attr_type = ATTR_NONCE \<and> length value \<le> MAX_NONCE_LEN then
       Some (result\<lparr>pa_nonce := from_utf8 value\<rparr>)
     else if attr_type = ATTR_MESSAGE_INTEGRITY \<and> length value = 20 then
       Some (result\<lparr>pa_message_integrity := Some value, pa_message_integrity_offset := Some (20 + offset)\<rparr>)
     else if attr_type = ATTR_REQUESTED_TRANSPORT \<and> value \<noteq> [] then do {
       protocol \<leftarrow> index_at value 0;
       Some (result\<lparr>pa_requested_transport := Some protocol\<rparr>)
     }
     else Some result)"

subsection \<open>The attribute loop of the STUN parser\<close>

definition attribute_test :: "bytes \<Rightarrow> nat \<times> parsed_attrs \<Rightarrow> bool" where
  "attribute_test attrs = (\<lambda>(offset, result). offset + 4 \<le> length attrs)"

definition attribute_body :: "bytes \<Rightarrow> bytes \<Rightarrow> nat \<times> parsed_attrs \<Rightarrow> (nat \<times> parsed_attrs) flow" where
  "attribute_body attrs txn = (\<lambda>(offset, result).
    case (read_u16 attrs offset, read_u16 attrs (offset + 2)) of
      (Some attr_type, Some len) \<Rightarrow>
        let attr_len = unat len
        in if offset + 4 + attr_len > length attrs then Break (offset, result)
           else
             (case slice_at attrs (offset + 4) (offset + 4 + attr_len) of
                None \<Rightarrow> Panic
              | Some value \<Rightarrow>
                  (case match_attr_checked attr_type value txn offset result of
                     None \<Rightarrow> Panic
                   | Some result \<Rightarrow>
                       if stops_loop attr_type value then Break (offset, result)
                       else Go (offset + (4 + pad4 attr_len), result)))
    | _ \<Rightarrow> Panic)"

definition attributes_while :: "bytes \<Rightarrow> bytes \<Rightarrow> parsed_attrs outcome option" where
  "attributes_while attrs txn =
    map_option (map_outcome snd) (execute (attribute_test attrs) (attribute_body attrs txn) (0, empty_attrs))"

text \<open>\<open>StunInfo::parse\<close> around the loop: \<open>None\<close> inside the outcome is the \<open>None\<close> the function returns.\<close>

fun parsed_info :: "stun_class \<Rightarrow> u16 \<Rightarrow> bytes \<Rightarrow> bytes \<Rightarrow> parsed_attrs \<Rightarrow> stun_info" where
  "parsed_info class msg_type transaction_id data attrs =
    \<lparr>si_class = class, si_method = method_of msg_type, si_transaction_id = transaction_id,
     si_username = pa_username attrs, si_xor_peer_addresses = pa_xor_peer_addresses attrs,
     si_channel_number = pa_channel_number attrs, si_lifetime = pa_lifetime attrs,
     si_data = pa_data attrs, si_realm = pa_realm attrs, si_nonce = pa_nonce attrs,
     si_message_integrity = pa_message_integrity attrs,
     si_message_integrity_offset = pa_message_integrity_offset attrs,
     si_requested_transport = pa_requested_transport attrs, si_raw = data\<rparr>"

definition parse_while :: "bytes \<Rightarrow> stun_info option outcome option" where
  "parse_while data =
    (if length data < 20 then Some (Returns None)
     else
       (case (read_u32 data 4, read_u16 data 0, read_u16 data 2, slice_at data 8 20) of
          (Some magic, Some msg_type, Some len, Some transaction_id) \<Rightarrow>
            if magic \<noteq> STUN_MAGIC_COOKIE then Some (Returns None)
            else
              (case class_of msg_type of
                 None \<Rightarrow> Some (Returns None)
               | Some class \<Rightarrow>
                   if length data < 20 + unat len then Some (Returns None)
                   else
                     (case slice_at data 20 (20 + unat len) of
                        None \<Rightarrow> Some Panics
                      | Some attrs \<Rightarrow>
                          map_option (map_outcome (Some \<circ> parsed_info class msg_type transaction_id data))
                            (attributes_while attrs transaction_id)))
        | _ \<Rightarrow> Some Panics))"

subsection \<open>The search for the ICE user name\<close>

text \<open>The second component is the value returned, \<open>None\<close> when the loop is left at its end.\<close>

definition username_test :: "nat \<Rightarrow> nat \<times> (rstring \<times> rstring) option \<Rightarrow> bool" where
  "username_test stop = (\<lambda>(offset, found). offset + 4 \<le> stop)"

definition username_body ::
  "bytes \<Rightarrow> nat \<times> (rstring \<times> rstring) option \<Rightarrow> (nat \<times> (rstring \<times> rstring) option) flow" where
  "username_body data = (\<lambda>(offset, found).
    case (read_u16 data offset, read_u16 data (offset + 2)) of
      (Some attr_type, Some len) \<Rightarrow>
        let attr_len = unat len; next_attr = Go (offset + (4 + pad4 attr_len), found)
        in if offset + 4 + attr_len > length data then Break (offset, found)
           else if attr_type = 0x0006 then
             (case slice_at data (offset + 4) (offset + 4 + attr_len) of
                None \<Rightarrow> Panic
              | Some username_bytes \<Rightarrow>
                  (case from_utf8 username_bytes of
                     None \<Rightarrow> next_attr
                   | Some name \<Rightarrow>
                      (case split_once COLON name of
                         Some pair \<Rightarrow> Break (offset, Some pair)
                       | None \<Rightarrow> next_attr)))
           else next_attr
    | _ \<Rightarrow> Panic)"

definition username_while :: "bytes \<Rightarrow> (rstring \<times> rstring) option outcome option" where
  "username_while data =
    (if length data < 20 then Some (Returns None)
     else
       (case read_u16 data 2 of
          None \<Rightarrow> Some Panics
        | Some len \<Rightarrow>
            let msg_len = unat len
            in if length data < 20 + msg_len then Some (Returns None)
               else map_option (map_outcome snd)
                 (execute (username_test (20 + msg_len)) (username_body data) (20, None))))"

subsection \<open>The sliding window of the rate limiter\<close>

definition window_body :: "instant \<Rightarrow> instant list \<Rightarrow> instant list flow" where
  "window_body now ts =
    (case ts of
       [] \<Rightarrow> Break ts
     | oldest # rest \<Rightarrow> if now - oldest \<ge> WINDOW then Go rest else Break ts)"

definition window_while :: "instant \<Rightarrow> instant list \<Rightarrow> instant list outcome option" where
  "window_while now ts = execute (\<lambda>_. True) (window_body now) ts"

subsection \<open>The padding loops of the message builders\<close>

definition padding_while :: "nat \<Rightarrow> bytes \<Rightarrow> bytes outcome option" where
  "padding_while n response = execute (\<lambda>response. length response < n) (\<lambda>response. Go (response @ [0])) response"

text \<open>\<open>while (packet.len() - 20) % 4 != 0\<close>: the test underflows, and panics, on a packet shorter than 20 bytes.\<close>

definition align_body :: "bytes \<Rightarrow> bytes flow" where
  "align_body packet =
    (if length packet < 20 then Panic
     else if (length packet - 20) mod 4 \<noteq> 0 then Go (packet @ [0]) else Break packet)"

definition align_while :: "bytes \<Rightarrow> bytes outcome option" where
  "align_while packet = execute (\<lambda>_. True) align_body packet"

section \<open>Lemmas\<close>

text \<open>
  A loop with an invariant that rules out panics, a variant that every round lowers, and a function of
  the state that no round changes and that is the result when the loop is left.
\<close>

locale bounded_loop =
  fixes test :: "'s \<Rightarrow> bool" and body :: "'s \<Rightarrow> 's flow" and inv :: "'s \<Rightarrow> bool"
    and variant :: "'s \<Rightarrow> nat" and result :: "'s \<Rightarrow> 'r" and out :: "'s \<Rightarrow> 'r"
  assumes round: "inv s \<Longrightarrow> test s \<Longrightarrow> body s = Go s' \<Longrightarrow> inv s' \<and> variant s' < variant s \<and> result s' = result s"
    and broken: "inv s \<Longrightarrow> test s \<Longrightarrow> body s = Break s' \<Longrightarrow> out s' = result s"
    and safe: "inv s \<Longrightarrow> test s \<Longrightarrow> body s \<noteq> Panic"
    and left: "inv s \<Longrightarrow> \<not> test s \<Longrightarrow> out s = result s"
begin

lemma returns: "inv s \<Longrightarrow> \<exists>s'. execute test body s = Some (Returns s') \<and> out s' = result s"
proof (induction "variant s" arbitrary: s rule: less_induct)
  case less
  note unfold = execute_def while_option_unfold [of "going test" "advance body" "Go s"]
  show ?case
  proof (cases "test s")
    case True
    show ?thesis
    proof (cases "body s")
      case (Go s')
      then have "execute test body s = execute test body s'" using True by (simp add: unfold)
      then show ?thesis using round [OF less.prems True Go] less.hyps [of s'] by auto
    next
      case (Break s')
      then have "execute test body s = Some (Returns s')"
        using True while_option_unfold [of "going test" "advance body" "Break s'"] by (simp add: unfold)
      then show ?thesis using broken [OF less.prems True Break] by simp
    qed (use safe [OF less.prems True] in simp)
  next
    case False
    then show ?thesis using left [OF less.prems] by (simp add: unfold)
  qed
qed

end

lemma read_u16_in: "i + 2 \<le> length xs \<Longrightarrow> read_u16 xs i = Some (u16_be (xs ! i) (xs ! (i + 1)))"
  by (simp add: read_u16_def index_at_def)

lemma read_u32_in:
  "i + 4 \<le> length xs \<Longrightarrow> read_u32 xs i = Some (u32_be (xs ! i) (xs ! (i + 1)) (xs ! (i + 2)) (xs ! (i + 3)))"
  by (simp add: read_u32_def index_at_def)

lemma xor_at_in: "i < length value \<Longrightarrow> j < length key \<Longrightarrow> xor_at value i key j = Some (value ! i XOR key ! j)"
  by (simp add: xor_at_def index_at_def)

lemma xor_from_in:
  "i + n \<le> length value \<Longrightarrow> n \<le> length key \<Longrightarrow>
    xor_from value i key n = Some (map (\<lambda>k. value ! (i + k) XOR key ! k) [0..<n])"
  by (induction n) (simp_all add: xor_at_in)

text \<open>The guards of the arms are what every access in them needs.\<close>

lemma decode_xor_address_safe:
  assumes "length transaction_id = 12"
  shows "decode_xor_address_checked v transaction_id = Some (decode_xor_address v transaction_id)"
proof -
  have "index_at v 1 = Some (v ! 1)" "read_u16 v 2 = Some (u16_be (v ! 2) (v ! 3))"
    if "\<not> length v < 8" using that read_u16_in [of 2 v] by (simp_all add: index_at_def)
  moreover have "length MAGIC_BYTES = 4" by (simp add: MAGIC_BYTES_def)
  ultimately show ?thesis
    using assms by (simp add: decode_xor_address_checked_def decode_xor_address_def Let_def xor_at_in xor_from_in
        del: sa_new.simps)
qed

lemma match_attr_safe:
  assumes "length transaction_id = 12"
  shows "match_attr_checked attr_type v transaction_id offset result
    = Some (match_attr attr_type v transaction_id offset result)"
proof -
  have "2 \<le> length v \<Longrightarrow> read_u16 v 0 = Some (u16_be (v ! 0) (v ! 1))"
    "4 \<le> length v \<Longrightarrow> read_u32 v 0 = Some (u32_be (v ! 0) (v ! 1) (v ! 2) (v ! 3))"
    "v \<noteq> [] \<Longrightarrow> index_at v 0 = Some (v ! 0)"
    using read_u16_in [of 0 v] read_u32_in [of 0 v] by (simp_all add: index_at_def numeral_2_eq_2)
  then show ?thesis
    unfolding match_attr_checked_def match_attr_def decode_xor_address_safe [OF assms] Let_def if_distrib [of Some]
    by (intro if_cong refl) simp_all
qed

interpretation attributes: bounded_loop "attribute_test attrs" "attribute_body attrs txn" "\<lambda>_. length txn = 12"
  "\<lambda>(offset, result). length attrs - offset"
  "\<lambda>(offset, result). parse_attributes_loop attrs txn offset result" snd for attrs txn
proof unfold_locales
  fix s s' :: "nat \<times> parsed_attrs"
  obtain offset result where [simp]: "s = (offset, result)" by (cases s)
  assume txn: "length txn = 12"
  assume "attribute_test attrs s"
  then have t: "offset + 4 \<le> length attrs" by (simp add: attribute_test_def)
  then have r: "read_u16 attrs offset = Some (u16_be (attrs ! offset) (attrs ! (offset + 1)))"
    "read_u16 attrs (offset + 2) = Some (u16_be (attrs ! (offset + 2)) (attrs ! (offset + 3)))"
    using read_u16_in [of offset attrs] read_u16_in [of "offset + 2" attrs] by (simp_all add: numeral_eq_Suc)
  have s: "slice_at attrs (offset + 4) (offset + 4 + n) = Some (take n (drop (offset + 4) attrs))"
    if "\<not> offset + 4 + n > length attrs" for n using that by (simp add: slice_at_def)
  note step = attribute_body_def parse_attributes_loop.simps [of _ _ offset] t r s match_attr_safe [OF txn]
  show "attribute_body attrs txn s \<noteq> Panic" by (simp add: step Let_def del: add_2_eq_Suc')
  show "snd s' = (case s of (offset, result) \<Rightarrow> parse_attributes_loop attrs txn offset result)"
    if "attribute_body attrs txn s = Break s'" using that by (auto simp: step Let_def simp del: add_2_eq_Suc' split: if_splits)
  show "length txn = 12 \<and> (case s' of (offset, result) \<Rightarrow> length attrs - offset) < (case s of (offset, result) \<Rightarrow> length attrs - offset)
      \<and> (case s' of (offset, result) \<Rightarrow> parse_attributes_loop attrs txn offset result)
        = (case s of (offset, result) \<Rightarrow> parse_attributes_loop attrs txn offset result)"
    if "attribute_body attrs txn s = Go s'" using that txn by (auto simp: step Let_def simp del: add_2_eq_Suc' split: if_splits)
qed (auto simp: attribute_test_def loop_end)

interpretation username: bounded_loop "username_test stop" "username_body data" "\<lambda>(offset, found). stop \<le> length data \<and> found = None"
  "\<lambda>(offset, found). stop - offset" "\<lambda>(offset, found). extract_loop data stop offset" snd for data stop
proof unfold_locales
  fix s s' :: "nat \<times> (rstring \<times> rstring) option"
  obtain offset found where [simp]: "s = (offset, found)" by (cases s)
  assume "case s of (offset, found) \<Rightarrow> stop \<le> length data \<and> found = None"
  then have inv: "stop \<le> length data" "found = None" by simp_all
  show "snd s = (case s of (offset, found) \<Rightarrow> extract_loop data stop offset)" if "\<not> username_test stop s"
    using that inv by (simp add: username_test_def extract_loop.simps [of _ _ offset])
  assume "username_test stop s"
  then have t: "offset + 4 \<le> stop" "offset + 4 \<le> length data" using inv by (simp_all add: username_test_def)
  then have r: "read_u16 data offset = Some (u16_be (data ! offset) (data ! (offset + 1)))"
    "read_u16 data (offset + 2) = Some (u16_be (data ! (offset + 2)) (data ! (offset + 3)))"
    using read_u16_in [of offset data] read_u16_in [of "offset + 2" data] by (simp_all add: numeral_eq_Suc)
  have s: "slice_at data (offset + 4) (offset + 4 + n) = Some (take n (drop (offset + 4) data))"
    if "\<not> offset + 4 + n > length data" for n using that by (simp add: slice_at_def)
  have d: "stop - (offset + (4 + n)) < stop - offset" for n using t by simp
  note step = username_body_def extract_loop.simps [of _ _ offset] t r s d inv Let_def
  show "username_body data s \<noteq> Panic" by (simp add: step del: add_2_eq_Suc' split: option.split)
  show "snd s' = (case s of (offset, found) \<Rightarrow> extract_loop data stop offset)"
    if "username_body data s = Break s'" using that by (auto simp: step simp del: add_2_eq_Suc' split: if_splits option.splits)
  show "(case s' of (offset, found) \<Rightarrow> stop \<le> length data \<and> found = None)
      \<and> (case s' of (offset, found) \<Rightarrow> stop - offset) < (case s of (offset, found) \<Rightarrow> stop - offset)
      \<and> (case s' of (offset, found) \<Rightarrow> extract_loop data stop offset) = (case s of (offset, found) \<Rightarrow> extract_loop data stop offset)"
    if "username_body data s = Go s'" using that by (auto simp: step simp del: add_2_eq_Suc' split: if_splits option.splits)
qed

interpretation window: bounded_loop "\<lambda>_. True" "window_body now" "\<lambda>_. True" length "pop_expired now" "\<lambda>ts. ts" for now
  by unfold_locales (auto simp: window_body_def split: list.splits if_splits)

interpretation padding: bounded_loop "\<lambda>buf. length buf < n" "\<lambda>buf. Go (buf @ [0])" "\<lambda>_. True" "\<lambda>buf. n - length buf"
  "push_until n" "\<lambda>buf. buf" for n
  by unfold_locales (auto simp: push_until.simps)

interpretation align: bounded_loop "\<lambda>_. True" align_body "\<lambda>packet. 20 \<le> length packet"
  "\<lambda>packet. (4 - (length packet - 20) mod 4) mod 4" push_aligned "\<lambda>packet. packet"
proof unfold_locales
  fix s s' :: bytes
  assume inv: "20 \<le> length s"
  show "align_body s \<noteq> Panic" using inv by (simp add: align_body_def)
  show "s' = push_aligned s" if "align_body s = Break s'"
    using that inv by (simp add: align_body_def push_aligned.simps [of s] split: if_splits)
  assume "align_body s = Go s'"
  then have more: "(length s - 20) mod 4 \<noteq> 0" "s' = s @ [0]" using inv by (auto simp: align_body_def split: if_splits)
  then have "push_aligned s' = push_aligned s" by (simp add: push_aligned.simps [of s])
  moreover have "length s' - 20 = Suc (length s - 20)" using more(2) inv by simp
  then have "(4 - (length s' - 20) mod 4) mod 4 < (4 - (length s - 20) mod 4) mod 4"
    using align_step [OF more(1)] by (simp only: lessI)
  ultimately show "20 \<le> length s' \<and> (4 - (length s' - 20) mod 4) mod 4 < (4 - (length s - 20) mod 4) mod 4
      \<and> push_aligned s' = push_aligned s" using more(2) inv by simp
qed (simp add: align_body_def)

lemma attributes_return:
  assumes "length txn = 12"
  shows "attributes_while attrs txn = Some (Returns (parse_attributes attrs txn))"
  using attributes.returns [where s = "(0, empty_attrs)" and attrs = attrs and txn = txn] assms
  by (auto simp: attributes_while_def parse_attributes_def)

lemma parse_returns: "parse_while data = Some (Returns (parse_stun_info data))"
proof (cases "length data < 20")
  case False
  then have "read_u32 data 4 = Some (u32_be (data ! 4) (data ! 5) (data ! 6) (data ! 7))"
    "read_u16 data 0 = Some (u16_be (data ! 0) (data ! 1))" "read_u16 data 2 = Some (u16_be (data ! 2) (data ! 3))"
    "slice_at data 8 20 = Some (take 12 (drop 8 data))"
    using read_u32_in [of 4 data] read_u16_in [of 0 data] read_u16_in [of 2 data] by (simp_all add: slice_at_def)
  moreover have "slice_at data 20 (20 + n) = Some (take n (drop 20 data))" if "\<not> length data < 20 + n" for n
    using that by (simp add: slice_at_def)
  ultimately show ?thesis
    using False by (simp add: parse_while_def parse_stun_info_def attributes_return Let_def split: option.split)
qed (simp add: parse_while_def parse_stun_info_def)

section \<open>Properties\<close>

text \<open>
  C14. Every loop over received bytes, over the request window and over a message under construction
  ends, and ends without a panic, with every index and slice of its body checked, those in the arms
  of the attribute match and in the address decoder included: for any bytes at all the STUN parser
  returns exactly what its specification says; so does the attribute loop, given a transaction id of
  12 bytes, which its type says it has, and the search for the ICE user name; the request window is
  trimmed, and messages are padded, a Data indication from its 20-byte header on, which its builder
  writes first.
\<close>

theorem loops_return:
  assumes "length txn = 12" "20 \<le> length packet"
  shows "parse_while data = Some (Returns (parse_stun_info data))
    \<and> attributes_while attrs txn = Some (Returns (parse_attributes attrs txn))
    \<and> username_while data = Some (Returns (extract_stun_ufrags data))
    \<and> window_while now ts = Some (Returns (pop_expired now ts))
    \<and> padding_while n response = Some (Returns (push_until n response))
    \<and> align_while packet = Some (Returns (push_aligned packet))"
proof (intro conjI)
  show "parse_while data = Some (Returns (parse_stun_info data))" by (rule parse_returns)
  show "attributes_while attrs txn = Some (Returns (parse_attributes attrs txn))"
    by (rule attributes_return [OF assms(1)])
  show "username_while data = Some (Returns (extract_stun_ufrags data))"
  proof (cases "length data < 20")
    case False
    then show ?thesis
      using read_u16_in [of 2 data]
        username.returns [where s = "(20, None)" and stop = "20 + unat (u16_be (data ! 2) (data ! 3))" and data = data]
      by (auto simp: username_while_def extract_stun_ufrags_def Let_def)
  qed (simp add: username_while_def extract_stun_ufrags_def)
  show "window_while now ts = Some (Returns (pop_expired now ts))"
    using window.returns [where s = ts and now = now] by (simp add: window_while_def)
  show "padding_while n response = Some (Returns (push_until n response))"
    using padding.returns [where s = response and n = n] by (simp add: padding_while_def)
  show "align_while packet = Some (Returns (push_aligned packet))"
    using align.returns [of packet] assms(2) by (simp add: align_while_def)
qed

text \<open>A CHANNEL-NUMBER of one byte only, and an XOR-PEER-ADDRESS cut short, are skipped.\<close>

theorem loops_return_witness:
  "attributes_while [0x00, 0x0C, 0, 1, 0x40, 0, 0, 0, 0x00, 0x12, 0, 4, 0, 2, 0, 0] (replicate 12 0)
      = Some (Returns empty_attrs)
    \<and> align_while (replicate 21 7) = Some (Returns (replicate 21 7 @ [0, 0, 0]))"
proof -
  have "parse_attributes [0x00, 0x0C, 0, 1, 0x40, 0, 0, 0, 0x00, 0x12, 0, 4, 0, 2, 0, 0] (replicate 12 0) = empty_attrs"
    by (simp add: stun_eval decode_xor_address_def empty_attrs_def)
  moreover have "push_aligned (replicate 21 7) = replicate 21 7 @ [0, 0, 0]"
    by (simp add: push_aligned.simps)
  ultimately show ?thesis
    using loops_return [of "replicate 12 0" "replicate 21 7"
        _ "[0x00, 0x0C, 0, 1, 0x40, 0, 0, 0, 0x00, 0x12, 0, 4, 0, 2, 0, 0]"]
    by simp
qed

end
