(* ===== verification/Store.thy ===== *)
theory Store
  imports Table_Core
begin

text \<open>
  What the allocation table promises: a plain store of allocations by id, with nothing to look them up
  by. Lookups by client address and by ICE fragment, which the table answers from indices, are searches
  of the store. The tuple index is a plain map of its own. The permission index is a search of the
  store but for strays: \<open>add_permission\<close> lists an id even when its allocation is gone, and such an entry
  is never removed, so the store keeps the set of them. The locale states when a concrete machine
  refines an abstract one over whole histories; the table refines the store.
\<close>

section \<open>Simulation\<close>

locale simulation =
  fixes inv :: "'c \<Rightarrow> bool"
    and guard :: "'c \<Rightarrow> 'op \<Rightarrow> bool"
    and conc :: "'op \<Rightarrow> 'c \<Rightarrow> 'c"
    and spec :: "'op \<Rightarrow> 'a \<Rightarrow> 'a"
    and abs :: "'c \<Rightarrow> 'a"
  assumes sim_inv: "inv c \<Longrightarrow> guard c x \<Longrightarrow> inv (conc x c)"
    and sim_step: "inv c \<Longrightarrow> guard c x \<Longrightarrow> abs (conc x c) = spec x (abs c)"
begin

fun history :: "'op list \<Rightarrow> 'c \<Rightarrow> 'c option" where
  "history [] c = Some c"
| "history (x # xs) c = (if guard c x then history xs (conc x c) else None)"

lemma history_refines: "history xs c = Some c' \<Longrightarrow> inv c \<Longrightarrow> inv c' \<and> abs c' = fold spec xs (abs c)"
  by (induction xs arbitrary: c) (auto simp: sim_inv sim_step split: if_splits)

end

section \<open>The store\<close>

record store =
  st_allocs :: "allocation_id \<Rightarrow> allocation option"
  st_next :: nat
  st_tuples :: "socket_addr \<Rightarrow> allocation_id option"
  st_strays :: "(ip_addr \<times> allocation_id) set"

definition new_store :: store where
  "new_store = \<lparr>st_allocs = (\<lambda>_. None), st_next = 1, st_tuples = (\<lambda>_. None), st_strays = {}\<rparr>"

definition st_update :: "allocation_id \<Rightarrow> (allocation \<Rightarrow> allocation) \<Rightarrow> store \<Rightarrow> store" where
  "st_update i f s = s\<lparr>st_allocs := (st_allocs s)(i := map_option f (st_allocs s i))\<rparr>"

definition st_map :: "(allocation \<Rightarrow> allocation) \<Rightarrow> store \<Rightarrow> store" where
  "st_map f s = s\<lparr>st_allocs := (\<lambda>i. map_option f (st_allocs s i))\<rparr>"

text \<open>An allocation that goes away takes the tuples of all the peers it knows with it.\<close>

definition st_drop :: "(allocation_id \<Rightarrow> allocation \<Rightarrow> bool) \<Rightarrow> store \<Rightarrow> store" where
  "st_drop P s = s\<lparr>
     st_allocs := (\<lambda>i. case st_allocs s i of Some a \<Rightarrow> if P i a then None else Some a | None \<Rightarrow> None),
     st_tuples := (\<lambda>p. if \<exists>i a. st_allocs s i = Some a \<and> P i a \<and> dm_get (known_peers a) p \<noteq> None then None
       else st_tuples s p)\<rparr>"

definition meet_peer :: "u64 \<Rightarrow> socket_addr \<Rightarrow> allocation \<Rightarrow> allocation" where
  "meet_peer now p a = (case dm_get (known_peers a) p of Some _ \<Rightarrow> a
     | None \<Rightarrow> a\<lparr>known_peers := dm_put p \<lparr>last_seen_ms = now\<rparr> (known_peers a)\<rparr>)"

fun spec_op :: "table_op \<Rightarrow> store \<Rightarrow> store" where
  "spec_op (OpCreate now c u l x) s =
    (if \<exists>i a. st_allocs s i = Some a \<and> client_addr a = c then s
     else s\<lparr>st_allocs := (st_allocs s)(st_next s \<mapsto> new_allocation now (st_next s) c u l x), st_next := st_next s + 1\<rparr>)"
| "spec_op (OpRegisterUfrags i l r) s =
    (if \<exists>j a. j \<noteq> i \<and> st_allocs s j = Some a \<and> ice_ufrag a = Some l then s
     else st_update i (set_ufrags l r) s)"
| "spec_op (OpAddPermission now i ip) s =
    (case st_allocs s i of
       None \<Rightarrow> s\<lparr>st_strays := insert (ip, i) (st_strays s)\<rparr>
     | Some _ \<Rightarrow> st_update i (alloc_add_permission now ip) s)"
| "spec_op (OpTryAdd now i ips cap) s =
    st_update i (\<lambda>a. if permissions_count now a + length (new_ips now a ips) > cap then a
                     else fold (alloc_add_permission now) ips a) s"
| "spec_op (OpRegisterTuple now i p) s =
    (st_update i (meet_peer now p) s)\<lparr>st_tuples := (st_tuples s)(p \<mapsto> i)\<rparr>"
| "spec_op (OpBind now i ch p) s = st_update i (bind_channel now ch p) s"
| "spec_op (OpRefresh now i l) s = st_update i (alloc_refresh now l) s"
| "spec_op (OpTouch now i) s = st_update i (touch now) s"
| "spec_op (OpTouchReceived now i) s = st_update i (touch_received now) s"
| "spec_op (OpRelaySuccess now i) s = st_update i (touch_relay_success now) s"
| "spec_op (OpRelayAttempt now i) s = st_update i (touch_relay_attempt now) s"
| "spec_op (OpRemove i) s = st_drop (\<lambda>j _. j = i) s"
| "spec_op (OpSweepChannels now) s = st_map (cleanup_expired_channels now) s"
| "spec_op (OpSweepPermissions now) s = st_map (\<lambda>a. snd (cleanup_expired_permissions now a)) s"
| "spec_op (OpExpire now) s = st_drop (\<lambda>_. is_expired now) s"
| "spec_op (OpInactive now n) s = st_drop (\<lambda>_. is_inactive now n) s"
| "spec_op (OpOrphaned now n) s = st_drop (\<lambda>_. is_orphaned_sender now n) s"

text \<open>Who is found by a peer's address: the holders of a permission for it, and the strays.\<close>

definition listed :: "store \<Rightarrow> ip_addr \<Rightarrow> allocation_id \<Rightarrow> bool" where
  "listed s ip i =
    (case st_allocs s i of Some a \<Rightarrow> dm_get (permissions a) ip \<noteq> None | None \<Rightarrow> (ip, i) \<in> st_strays s)"

definition store_of :: "alloc_table \<Rightarrow> store" where
  "store_of t = \<lparr>st_allocs = dm_get (allocations t), st_next = id_counter t, st_tuples = lookup_by_peer_tuple t,
     st_strays = {(ip, i). i \<in> set (lookup_by_peer_ip t ip) \<and> dm_get (allocations t) i = None}\<rparr>"

definition listing_ok :: "alloc_table \<Rightarrow> bool" where
  "listing_ok t \<longleftrightarrow> (\<forall>ip i a. dm_get (allocations t) i = Some a \<longrightarrow>
      (i \<in> set (lookup_by_peer_ip t ip) \<longleftrightarrow> dm_get (permissions a) ip \<noteq> None))
    \<and> (\<forall>ip i. i \<in> set (lookup_by_peer_ip t ip) \<longrightarrow> i < id_counter t)"

definition indices_wf :: "alloc_table \<Rightarrow> bool" where
  "indices_wf t \<longleftrightarrow> dm_wf (by_permission t) \<and> dm_wf (by_peer_tuple t) \<and> perm_index_wf t"

definition store_inv :: "alloc_table \<Rightarrow> bool" where
  "store_inv t \<longleftrightarrow> core_inv t \<and> indices_wf t \<and> listing_ok t"

section \<open>The table refines the store\<close>

lemma store_of_sel [simp]: "st_allocs (store_of t) = dm_get (allocations t)" "st_next (store_of t) = id_counter t"
  "st_tuples (store_of t) = lookup_by_peer_tuple t"
  "(ip, i) \<in> st_strays (store_of t) \<longleftrightarrow> i \<in> set (lookup_by_peer_ip t ip) \<and> dm_get (allocations t) i = None"
  by (simp_all add: store_of_def)

lemma st_update_sel [simp]: "st_allocs (st_update i f s) = (st_allocs s)(i := map_option f (st_allocs s i))"
  "st_next (st_update i f s) = st_next s" "st_tuples (st_update i f s) = st_tuples s" "st_strays (st_update i f s) = st_strays s"
  by (simp_all add: st_update_def)

lemma st_map_sel [simp]: "st_allocs (st_map f s) = (\<lambda>i. map_option f (st_allocs s i))"
  "st_next (st_map f s) = st_next s" "st_tuples (st_map f s) = st_tuples s" "st_strays (st_map f s) = st_strays s"
  by (simp_all add: st_map_def)

subsection \<open>The allocations\<close>

definition agree :: "store \<Rightarrow> store \<Rightarrow> bool" where
  "agree s s' \<longleftrightarrow> st_allocs s = st_allocs s' \<and> st_next s = st_next s'"

lemma agree_with_alloc: "agree (store_of (with_alloc i f t)) (st_update i f (store_of t))"
  by (auto simp: agree_def fun_eq_iff)

lemma agree_reap: "table_inv t \<Longrightarrow> agree (store_of (reap P t)) (st_drop P (store_of t))"
  by (auto simp: agree_def st_drop_def reap_get reap_views table_inv_def fun_eq_iff)

lemma agree_map:
  assumes "\<And>i. dm_get (allocations t') i = map_option f (dm_get (allocations t) i)" "id_counter t' = id_counter t"
  shows "agree (store_of t') (st_map f (store_of t))"
  by (simp add: agree_def fun_eq_iff assms)

lemma agree_create:
  assumes "table_inv t" "id_counter t + 1 < 2 ^ 64"
  shows "agree (store_of (snd (create_or_get now c u l x t))) (spec_op (OpCreate now c u l x) (store_of t))"
proof (cases rule: create_or_get_cases [of t c now u l x])
  case (existing i)
  then show ?thesis using table_inv_client [OF assms(1), of c i] by (auto simp: agree_def)
next
  case created
  then have "\<not> (\<exists>i a. dm_get (allocations t) i = Some a \<and> client_addr a = c)"
    using table_inv_client [OF assms(1), of c] by fastforce
  then show ?thesis using created assms(2) by (auto simp: agree_def add_u64_exact fun_eq_iff)
qed

lemma agree_register:
  assumes "table_inv t"
  shows "agree (store_of (snd (register_ice_ufrags i l r t))) (spec_op (OpRegisterUfrags i l r) (store_of t))"
  using assms
proof (cases rule: register_ice_ufrags_cases [of t i l r])
  case refused
  then show ?thesis using table_inv_ufrag [OF assms, of l] by (auto simp: agree_def fun_eq_iff)
next
  case (installed a t')
  then have "\<not> (\<exists>j b. j \<noteq> i \<and> dm_get (allocations t) j = Some b \<and> ice_ufrag b = Some l)"
    using table_inv_ufrag [OF assms, of l] by blast
  then show ?thesis using installed(1,3,9) by (auto simp: agree_def fun_eq_iff)
qed

lemma agree_grant:
  "agree (store_of (fold (index_permission i) ips (with_alloc i f t))) (st_update i f (store_of t))"
  using agree_with_alloc [of i f t] by (simp add: agree_def fold_index)

lemma agree_try_add:
  "agree (store_of (snd (try_add_permissions_capped now i ips cap t))) (spec_op (OpTryAdd now i ips cap) (store_of t))"
  using agree_grant [of i ips "fold (alloc_add_permission now) ips" t]
  by (auto simp: try_add_permissions_capped_def Let_def permissions_count_def agree_def fun_eq_iff split: option.splits)

lemma cleanup_permissions_frame:
  "id_counter (cleanup_permissions now t) = id_counter t" "by_peer_tuple (cleanup_permissions now t) = by_peer_tuple t"
proof -
  have "id_counter (fold (reap_permissions now) xs t) = id_counter t
      \<and> by_peer_tuple (fold (reap_permissions now) xs t) = by_peer_tuple t" for xs
    by (induction xs arbitrary: t) (auto simp: reap_permissions_eq fold_rfpi)
  then show "id_counter (cleanup_permissions now t) = id_counter t" "by_peer_tuple (cleanup_permissions now t) = by_peer_tuple t"
    by (simp_all add: cleanup_permissions_def)
qed

lemma agree_step:
  assumes "table_inv t" "op_ok t x"
  shows "agree (store_of (run_table_op x t)) (spec_op x (store_of t))"
proof (cases x)
  case (OpRegisterTuple now i p)
  then show ?thesis by (auto simp: agree_def register_peer_tuple_def meet_peer_def [abs_def] fun_eq_iff)
next
  case (OpAddPermission now i ip)
  then show ?thesis
    by (auto simp: agree_def table_add_permission_def fun_eq_iff split: option.split)
next
  case (OpRemove i)
  then show ?thesis
    using agree_reap [OF assms(1), of "\<lambda>j _. j = i"] assms(1)
    by (auto simp: agree_def remove_is_reap table_inv_def st_drop_def fun_eq_iff split: option.splits)
next
  case (OpSweepChannels now)
  have "id_counter (cleanup_channel_bindings now t) = id_counter t" by (simp add: cleanup_channel_bindings_def)
  then show ?thesis by (simp add: OpSweepChannels agree_map [OF cleanup_channel_bindings_get])
next
  case (OpSweepPermissions now)
  then show ?thesis
    by (simp add: agree_map [OF cleanup_permissions_table(2) [OF assms(1)] cleanup_permissions_frame(1)])
qed (use assms in \<open>simp_all add: agree_create agree_register agree_try_add agree_with_alloc
    agree_reap cleanup_expired_def cleanup_inactive_def cleanup_orphaned_senders_def retain_is_reap
    del: spec_op.simps(1,2,4)\<close>)

text \<open>The allocations only depend on the core, so strays do not disturb them.\<close>

lemma spec_op_agree: "agree s s' \<Longrightarrow> agree (spec_op x s) (spec_op x s')"
  by (cases x) (auto simp: agree_def st_drop_def fun_eq_iff split: option.split)

lemma agree_core:
  assumes "core_inv t" "op_ok t x"
  shows "agree (store_of (run_table_op x t)) (spec_op x (store_of t))"
proof -
  obtain s where s: "table_inv s" "same_core t s" using assms(1) by (auto simp: core_inv_def)
  have "op_ok s x" using assms(2) s(2) by (cases x) (simp_all add: same_core_def)
  moreover have "agree (store_of t) (store_of s)"
    "agree (store_of (run_table_op x t)) (store_of (run_table_op x s))"
    using s(2) same_core_op [OF s(2), of x] by (simp_all add: agree_def same_core_def)
  ultimately show ?thesis
    using agree_step [OF s(1), of x] spec_op_agree [of "store_of t" "store_of s" x] by (simp add: agree_def)
qed

subsection \<open>The tuple index\<close>

lemma core_table_wf: "core_inv t \<Longrightarrow> indices_wf t \<Longrightarrow> table_wf t"
  by (auto simp: core_inv_def same_core_def indices_wf_def table_inv_def table_wf_def)

lemma register_frame: "by_permission (snd (register_ice_ufrags i l r t)) = by_permission t"
  "by_peer_tuple (snd (register_ice_ufrags i l r t)) = by_peer_tuple t"
  by (simp_all add: register_ice_ufrags_def Let_def split: option.split)

lemma create_frame: "by_permission (snd (create_or_get now c u l x t)) = by_permission t"
  "by_peer_tuple (snd (create_or_get now c u l x t)) = by_peer_tuple t"
  by (simp_all add: create_or_get_def Let_def split: option.split)

lemma try_add_frame: "by_peer_tuple (snd (try_add_permissions_capped now i ips cap t)) = by_peer_tuple t"
  by (simp add: try_add_permissions_capped_def Let_def fold_index split: option.split)

lemma tuples_reap:
  "table_wf t \<Longrightarrow> lookup_by_peer_tuple (reap P t) p = st_tuples (st_drop P (store_of t)) p"
  by (auto simp: lookup_by_peer_tuple_def st_drop_def reap_views)

lemma tuples_step:
  assumes "table_wf t"
  shows "lookup_by_peer_tuple (run_table_op x t) p = st_tuples (spec_op x (store_of t)) p"
proof (cases x)
  case (OpRemove i)
  then show ?thesis
    using tuples_reap [OF assms, of "\<lambda>j _. j = i" p]
    by (auto simp: remove_is_reap [OF assms] st_drop_def split: option.split)
qed (simp_all add: tuples_reap [OF assms, unfolded lookup_by_peer_tuple_def] lookup_by_peer_tuple_def create_frame register_frame try_add_frame
    table_add_permission_def register_peer_tuple_def cleanup_channel_bindings_def cleanup_permissions_frame
    cleanup_expired_def cleanup_inactive_def cleanup_orphaned_senders_def retain_is_reap split: option.split)

subsection \<open>The permission index\<close>

lemma lookup_of: "lookup_by_peer_ip t = lookup_by_peer_ip s" if "by_permission t = by_permission s"
  using that by (simp add: lookup_by_peer_ip_def fun_eq_iff)

lemma listed_update:
  assumes "\<And>a. dm_get (permissions (f a)) ip = None \<longleftrightarrow> dm_get (permissions a) ip = None"
  shows "listed (st_update i f s) ip j = listed s ip j"
  using assms by (auto simp: listed_def simp del: not_None_eq split: option.split)

lemma listed_store: "listing_ok t \<Longrightarrow> listed (store_of t) ip i \<longleftrightarrow> i \<in> set (lookup_by_peer_ip t ip)"
  by (simp add: listing_ok_def listed_def del: not_None_eq split: option.split)

lemma listed_neutral: "neutral f \<Longrightarrow> listed (st_update i f s) ip j = listed s ip j"
  by (rule listed_update) (simp add: neutral_def)

lemma listing_reap:
  assumes "table_wf t" "listing_ok t"
  shows "j \<in> set (lookup_by_peer_ip (reap P t) ip) \<longleftrightarrow> listed (st_drop P (store_of t)) ip j"
proof (cases "dm_get (allocations t) j")
  case (Some a)
  then have "j \<in> set (lookup_by_peer_ip t ip) \<longleftrightarrow> dm_get (permissions a) ip \<noteq> None"
    using assms(2) by (simp add: listing_ok_def del: not_None_eq)
  then show ?thesis using Some by (auto simp: reap_views [OF assms(1)] listed_def st_drop_def)
qed (simp add: reap_views [OF assms(1)] listed_def st_drop_def)

lemma listing_permissions:
  assumes "core_inv t" "indices_wf t" "listing_ok t"
  shows "j \<in> set (lookup_by_peer_ip (cleanup_permissions now t) ip) \<longleftrightarrow>
    listed (st_map (\<lambda>a. snd (cleanup_expired_permissions now a)) (store_of t)) ip j"
proof -
  have wf: "dm_wf (allocations t)" using core_table_wf [OF assms(1,2)] by (simp add: table_wf_def)
  have "j \<in> set (lookup_by_peer_ip (fold (reap_permissions now) xs u) ip) \<longleftrightarrow> j \<in> set (lookup_by_peer_ip u ip)
      \<and> \<not> (\<exists>a. (j, a) \<in> set xs \<and> ip \<in> set (fst (cleanup_expired_permissions now a)))" for xs u
    by (induction xs arbitrary: u) (auto simp: reap_permissions_eq fold_rfpi_lookup split: if_splits)
  then have "j \<in> set (lookup_by_peer_ip (cleanup_permissions now t) ip) \<longleftrightarrow> listed (store_of t) ip j
      \<and> \<not> (\<exists>a. dm_get (allocations t) j = Some a \<and> ip \<in> set (fst (cleanup_expired_permissions now a)))"
    using assms(3) by (simp add: cleanup_permissions_def dm_mem_iff [OF wf] listed_store)
  moreover have "dm_wf (permissions a)" if "dm_get (allocations t) j = Some a" for a
    using assms(1) that table_inv_alloc by (fastforce simp: core_inv_def same_core_def alloc_inv_def alloc_maps_wf_def)
  ultimately show ?thesis
    by (auto simp: listed_def cleanup_permissions_get expired_permissions_iff split: option.splits)
qed

lemma listing_step:
  assumes "store_inv t" "op_ok t x"
  shows "j \<in> set (lookup_by_peer_ip (run_table_op x t) ip) \<longleftrightarrow> listed (spec_op x (store_of t)) ip j"
proof -
  have inv: "core_inv t" "indices_wf t" "listing_ok t" using assms(1) by (simp_all add: store_inv_def)
  have wf: "table_wf t" by (rule core_table_wf [OF inv(1,2)])
  have live: "j \<in> set (lookup_by_peer_ip t ip) \<longleftrightarrow> dm_get (permissions a) ip \<noteq> None"
    if "dm_get (allocations t) j = Some a" for a using inv(3) that by (simp add: listing_ok_def del: not_None_eq)
  have minted: "j \<in> set (lookup_by_peer_ip t ip) \<Longrightarrow> j < id_counter t" using inv(3) by (simp add: listing_ok_def)
  note all = listed_store [OF inv(3), of ip j]
  show ?thesis
  proof (cases x)
    case (OpCreate now c u l y)
    have "lookup_by_peer_ip (run_table_op x t) = lookup_by_peer_ip t"
      by (rule lookup_of) (simp add: OpCreate create_frame)
    then show ?thesis
      using minted live
      by (cases "dm_get (allocations t) j"; cases "j = id_counter t") (auto simp: OpCreate listed_def new_allocation_def)
  next
    case (OpRegisterUfrags i l r)
    have "lookup_by_peer_ip (run_table_op x t) = lookup_by_peer_ip t"
      by (rule lookup_of) (simp add: OpRegisterUfrags register_frame)
    then show ?thesis by (simp add: OpRegisterUfrags listed_update all)
  next
    case (OpAddPermission now i q)
    then show ?thesis
      using live lookup_of [of "with_alloc i (alloc_add_permission now q) t" t]
      by (cases "dm_get (allocations t) j"; cases "dm_get (allocations t) i") (auto simp: table_add_permission_def index_permission_lookup listed_def alloc_add_permission_def)
  next
    case (OpTryAdd now i ips cap)
    then show ?thesis
      using live lookup_of [of "with_alloc i (fold (alloc_add_permission now) ips) t" t]
      by (cases "dm_get (allocations t) j"; cases "dm_get (allocations t) i") (auto simp: try_add_permissions_capped_def Let_def fold_index fold_add_permission listed_def
          permissions_count_def)
  next
    case (OpRegisterTuple now i p)
    have "lookup_by_peer_ip (run_table_op x t) = lookup_by_peer_ip t"
      by (rule lookup_of) (simp add: OpRegisterTuple register_peer_tuple_def)
    moreover have "listed ((st_update i (meet_peer now p) s)\<lparr>st_tuples := m\<rparr>) ip j = listed s ip j" for s m
      using listed_update [of "meet_peer now p" ip i s j] by (simp add: listed_def meet_peer_def split: option.split)
    ultimately show ?thesis by (simp add: OpRegisterTuple all)
  next
    case (OpRemove i)
    then show ?thesis
      using listing_reap [OF wf inv(3), of j "\<lambda>j _. j = i" ip] all
      by (cases "dm_get (allocations t) i") (auto simp: remove_is_reap [OF wf] listed_def st_drop_def split: option.split)
  next
    case (OpSweepChannels now)
    have "lookup_by_peer_ip (run_table_op x t) = lookup_by_peer_ip t"
      by (rule lookup_of) (simp add: OpSweepChannels cleanup_channel_bindings_def)
    then show ?thesis
      using live neutral_updates(7) [of now]
      by (cases "dm_get (allocations t) j") (simp_all add: OpSweepChannels listed_def neutral_def del: not_None_eq)
  next
    case (OpSweepPermissions now)
    then show ?thesis using listing_permissions [OF inv] by simp
  qed (use lookup_of [of "with_alloc _ _ t" t] in \<open>simp_all add: all listed_neutral neutral_updates listing_reap [OF wf inv(3)]
      retain_is_reap cleanup_expired_def cleanup_inactive_def cleanup_orphaned_senders_def\<close>)
qed

text \<open>A stray never comes to life: new allocations get new ids.\<close>

lemma strays_step:
  assumes "store_inv t" "op_ok t x" "(ip, i) \<in> st_strays (spec_op x (store_of t))"
  shows "st_allocs (spec_op x (store_of t)) i = None \<and> i < st_next (spec_op x (store_of t))"
proof -
  have "i < id_counter t" if "i \<in> set (lookup_by_peer_ip t ip)"
    using assms(1) that by (simp add: store_inv_def listing_ok_def)
  then show ?thesis
    using assms(2,3) by (cases x) (auto simp: st_drop_def split: if_splits option.splits)
qed

lemma table_refines_step:
  assumes "store_inv t" "op_ok t x"
  shows "store_of (run_table_op x t) = spec_op x (store_of t)"
proof -
  have inv: "core_inv t" "indices_wf t" using assms(1) by (simp_all add: store_inv_def)
  have core: "st_allocs (store_of (run_table_op x t)) = st_allocs (spec_op x (store_of t))"
    "st_next (store_of (run_table_op x t)) = st_next (spec_op x (store_of t))"
    using agree_core [OF inv(1) assms(2)] by (simp_all only: agree_def)
  have "(ip, i) \<in> st_strays (store_of (run_table_op x t)) \<longleftrightarrow> (ip, i) \<in> st_strays (spec_op x (store_of t))" for ip i
    using listing_step [OF assms, of i ip] strays_step [OF assms, of ip i] core(1)
    by (auto simp: listed_def split: option.splits)
  moreover have "st_tuples (store_of (run_table_op x t)) = st_tuples (spec_op x (store_of t))"
    using tuples_step [OF core_table_wf [OF inv]] by (simp add: fun_eq_iff)
  ultimately show ?thesis using core by (intro store.equality) auto
qed

subsection \<open>The invariant\<close>

lemma indices_permissions: "indices_wf t \<Longrightarrow> indices_wf (cleanup_permissions now t)"
proof -
  have "indices_wf u \<Longrightarrow> indices_wf (fold (reap_permissions now) xs u)" for xs u
  proof (induction xs arbitrary: u)
    case (Cons y xs)
    obtain i a where y: "y = (i, a)" by (cases y)
    have "indices_wf (reap_permissions now (i, a) u)"
      using Cons.prems fold_rfpi_wf [of "u\<lparr>allocations := dm_put i (snd (cleanup_expired_permissions now a)) (allocations u)\<rparr>" i
          "fst (cleanup_expired_permissions now a)"]
      by (simp add: indices_wf_def reap_permissions_eq fold_rfpi perm_index_wf_def)
    then show ?case using Cons.IH y by simp
  qed simp
  then show "indices_wf t \<Longrightarrow> indices_wf (cleanup_permissions now t)" by (simp add: cleanup_permissions_def)
qed

lemma indices_reap: "table_wf t \<Longrightarrow> perm_index_wf t \<Longrightarrow> indices_wf (reap P t)"
  using fold_unindex_wf [of t "filter (\<lambda>(i, a). P i a) (allocations t)"]
  by (simp add: indices_wf_def reap_def table_wf_def perm_index_wf_def)

lemma indices_step:
  assumes "core_inv t" "indices_wf t"
  shows "indices_wf (run_table_op x t)"
proof -
  have wf: "table_wf t" "perm_index_wf t" using core_table_wf [OF assms] assms(2) by (simp_all add: indices_wf_def)
  have same: "indices_wf u" if "by_permission u = by_permission t" "by_peer_tuple u = by_peer_tuple t" for u
    using assms(2) that by (simp add: indices_wf_def perm_index_wf_def)
  have granted: "indices_wf (fold (index_permission i) ips (with_alloc i f t))" for i ips f
    using fold_index_wf [of "with_alloc i f t" i ips] same [of "with_alloc i f t"]
    by (simp add: indices_wf_def fold_index)
  show ?thesis
  proof (cases x)
    case (OpAddPermission now i ip)
    then show ?thesis using granted [of i "[ip]"] by (simp add: table_add_permission_def)
  next
    case (OpTryAdd now i ips cap)
    then show ?thesis using granted assms(2) by (simp add: try_add_permissions_capped_def Let_def split: option.split)
  next
    case (OpRegisterTuple now i p)
    then show ?thesis using assms(2) by (simp add: register_peer_tuple_def indices_wf_def perm_index_wf_def dm_wf_put)
  next
    case (OpRemove i)
    then show ?thesis using indices_reap [OF wf] assms(2) by (simp add: remove_is_reap [OF wf(1)] split: option.split)
  next
    case (OpSweepPermissions now)
    then show ?thesis using indices_permissions [OF assms(2)] by simp
  qed (simp_all add: same create_frame register_frame cleanup_channel_bindings_def indices_reap [OF wf] retain_is_reap
      cleanup_expired_def cleanup_inactive_def cleanup_orphaned_senders_def)
qed

lemma store_inv_step:
  assumes "store_inv t" "op_ok t x"
  shows "store_inv (run_table_op x t)"
proof -
  let ?t = "run_table_op x t"
  have inv: "core_inv t" "indices_wf t" using assms(1) by (simp_all add: store_inv_def)
  have core: "core_inv ?t" using inv(1) core_op [OF _ _ assms(2)] by (auto simp: core_inv_def)
  have listed: "i \<in> set (lookup_by_peer_ip ?t ip) \<longleftrightarrow> listed (store_of ?t) ip i" for ip i
    using listing_step [OF assms] table_refines_step [OF assms] by simp
  have "i < id_counter ?t" if "i \<in> set (lookup_by_peer_ip ?t ip)" for ip i
  proof (cases "dm_get (allocations ?t) i")
    case None
    then have "(ip, i) \<in> st_strays (spec_op x (store_of t))" using that table_refines_step [OF assms, symmetric] by simp
    then show ?thesis using strays_step [OF assms] table_refines_step [OF assms, symmetric] by simp
  next
    case (Some a)
    then show ?thesis using core table_inv_alloc by (fastforce simp: core_inv_def same_core_def)
  qed
  moreover have "i \<in> set (lookup_by_peer_ip ?t ip) \<longleftrightarrow> dm_get (permissions a) ip \<noteq> None"
    if "dm_get (allocations ?t) i = Some a" for ip i a
    using listed [of i ip] that by (simp add: listed_def)
  ultimately show ?thesis
    using core indices_step [OF inv] unfolding store_inv_def listing_ok_def by blast
qed

interpretation tab: simulation store_inv op_ok run_table_op spec_op store_of
  by unfold_locales (rule store_inv_step table_refines_step, assumption+)+

lemma table_history: "tab.history xs t = run_table_ops xs t"
  by (induction xs arbitrary: t) simp_all

lemma new_table_store: "store_inv new_table" "store_of new_table = new_store"
  using table_inv_core [OF new_table_inv] new_table_inv
  by (simp_all add: store_inv_def indices_wf_def listing_ok_def table_inv_def table_wf_def perms_ok_def)
    (auto simp: store_of_def new_store_def new_table_def lookup_by_peer_tuple_def lookup_by_peer_ip_def fun_eq_iff)

text \<open>Strays come from \<open>add_permission\<close> alone.\<close>

lemma strays_from:
  "(ip, i) \<in> st_strays (fold spec_op ops s) \<Longrightarrow> (ip, i) \<in> st_strays s \<or> (\<exists>now. OpAddPermission now i ip \<in> set ops)"
proof (induction ops arbitrary: s)
  case (Cons x ops)
  have "(ip, i) \<in> st_strays s \<or> (\<exists>now. x = OpAddPermission now i ip)" if "(ip, i) \<in> st_strays (spec_op x s)"
    using that by (cases x) (auto simp: st_drop_def split: if_splits option.splits)
  then show ?case using Cons.IH [of "spec_op x s"] Cons.prems by auto
qed simp

section \<open>Properties\<close>

text \<open>
  C8. The table refines the store: after any history of operations on ids the table has handed out,
  those of allocations that are gone included, and as long as the id counter has not wrapped, the table holds the allocations the plain store holds, and every lookup that reads
  an index finds what the store says: by client address and by ICE fragment, exactly what a search of
  the store finds; by peer address and port, the map of recorded tuples; by peer IP, without
  duplicates, the allocations holding a permission for it and besides them only strays, ids that an
  \<open>add_permission\<close> listed after their allocation was gone. A history without such calls has no strays.
\<close>

theorem table_refines_store:
  assumes "run_table_ops ops new_table = Some t" "s = fold spec_op ops new_store"
  shows "store_of t = s
    \<and> (get_by_client t c = Some a \<longleftrightarrow> client_addr a = c \<and> (\<exists>i. st_allocs s i = Some a))
    \<and> (lookup_by_ice_ufrag t u = Some i \<longleftrightarrow> (\<exists>b. st_allocs s i = Some b \<and> ice_ufrag b = Some u))
    \<and> (i \<in> set (lookup_by_peer_ip t ip) \<longleftrightarrow>
         (\<exists>b. st_allocs s i = Some b \<and> dm_get (permissions b) ip \<noteq> None) \<or> (ip, i) \<in> st_strays s)
    \<and> distinct (lookup_by_peer_ip t ip)
    \<and> ((ip, i) \<in> st_strays s \<longrightarrow> st_allocs s i = None \<and> (\<exists>now. OpAddPermission now i ip \<in> set ops))
    \<and> lookup_by_peer_tuple t p = st_tuples s p"
proof -
  have inv: "store_inv t" and s: "store_of t = s"
    using tab.history_refines [of ops new_table t] assms new_table_store by (simp_all add: table_history)
  obtain t' where t': "table_inv t'" "same_core t t'" using inv by (auto simp: store_inv_def core_inv_def)
  have sel: "st_allocs s = dm_get (allocations t)" "st_tuples s = lookup_by_peer_tuple t"
    "(ip, i) \<in> st_strays s \<longleftrightarrow> i \<in> set (lookup_by_peer_ip t ip) \<and> dm_get (allocations t) i = None"
    using s by auto
  have same: "allocations t = allocations t'" "by_client t = by_client t'" "by_ice_ufrag t = by_ice_ufrag t'"
    using t'(2) by (simp_all add: same_core_def)
  have client: "get_by_client t c = get_by_client t' c" by (simp add: get_by_client_def same split: option.split)
  have "get_by_client t c = Some a \<longleftrightarrow> client_addr a = c \<and> (\<exists>i. dm_get (allocations t) i = Some a)"
    using get_by_client_iff [OF t'(1), of c a] table_inv_alloc [OF t'(1)] client same(1) by auto
  moreover have "lookup_by_ice_ufrag t u = Some i \<longleftrightarrow> (\<exists>b. dm_get (allocations t) i = Some b \<and> ice_ufrag b = Some u)"
    using table_inv_ufrag [OF t'(1), of u i] same by (simp add: lookup_by_ice_ufrag_def)
  moreover have "i \<in> set (lookup_by_peer_ip t ip) \<longleftrightarrow> listed s ip i"
    using listed_store [of t ip i] inv s by (auto simp: store_inv_def)
  then have "i \<in> set (lookup_by_peer_ip t ip) \<longleftrightarrow>
      (\<exists>b. dm_get (allocations t) i = Some b \<and> dm_get (permissions b) ip \<noteq> None) \<or> (ip, i) \<in> st_strays s"
    using sel(3) by (cases "dm_get (allocations t) i") (simp_all add: listed_def sel(1))
  moreover have "distinct (lookup_by_peer_ip t ip)"
    using inv by (simp add: store_inv_def indices_wf_def perm_index_wf_def lookup_by_peer_ip_def split: option.split)
  moreover have "\<exists>now. OpAddPermission now i ip \<in> set ops" if "(ip, i) \<in> st_strays s"
    using strays_from [of ip i ops new_store] that assms(2) by (simp add: new_store_def)
  ultimately show ?thesis using s sel by simp
qed

text \<open>A client permits a peer, its allocation is removed, and two calls with the stale id follow.\<close>

definition demo_stale_ops :: "table_op list" where
  "demo_stale_ops = demo_ops @ [OpRemove 1, OpAddPermission 4 1 (sa_ip demo_peer), OpRegisterTuple 5 1 demo_peer]"

theorem table_refines_store_witness:
  "\<exists>t s. run_table_ops demo_stale_ops new_table = Some t \<and> s = fold spec_op demo_stale_ops new_store
    \<and> lookup_by_peer_ip t (sa_ip demo_peer) = [1] \<and> st_allocs s 1 = None \<and> (sa_ip demo_peer, 1) \<in> st_strays s
    \<and> st_tuples s demo_peer = Some 1"
proof -
  have "map_option (\<lambda>t. lookup_by_peer_ip t (sa_ip demo_peer) = [1] \<and> dm_get (allocations t) 1 = None
      \<and> lookup_by_peer_tuple t demo_peer = Some 1) (run_table_ops demo_stale_ops new_table) = Some True"
    by (simp add: demo_stale_ops_def demo_ops_def demo_client_def demo_peer_def lookup_by_peer_ip_def lookup_by_peer_tuple_def
        table_eval table_remove_def unindex_def table_add_permission_def get_ice_ufrag_def remove_from_permission_index_def
        dm_del_def dm_del_if_def)
  then obtain t where t: "run_table_ops demo_stale_ops new_table = Some t" "lookup_by_peer_ip t (sa_ip demo_peer) = [1]"
      "dm_get (allocations t) 1 = None" "lookup_by_peer_tuple t demo_peer = Some 1"
    by auto
  moreover have "fold spec_op demo_stale_ops new_store = store_of t" using table_refines_store [OF t(1) refl] by simp
  ultimately show ?thesis by simp
qed

end
