(* ===== verification/Startup.thy ===== *)
theory Startup
  imports Auth
begin

text \<open>
  What \<open>src/main.rs\<close> decides before the server runs: the static credentials, the shared secrets and
  the refusal to start an unauthenticated relay by accident. The arguments are what the command-line
  parser delivers; strings are UTF-8 byte lists.
\<close>

section \<open>Definitions\<close>

record args =
  arg_port :: u16
  arg_external_ip :: ip_addr
  arg_realm :: rstring
  arg_user :: "rstring list"
  arg_static_auth_secret :: "rstring list"
  arg_max_allocations_per_ip :: nat
  arg_rate_limit_per_minute :: nat
  arg_nonce_lifetime_secs :: u64
  arg_allow_anonymous :: bool
  arg_max_permissions_per_alloc :: nat
  arg_max_channels_per_alloc :: nat

datatype startup_error = ShortSecret nat | MissingCredentials

definition MIN_AUTH_SECRET_LEN :: nat where "MIN_AUTH_SECRET_LEN = 16"

text \<open>
  \<open>str::split_whitespace\<close> separates at the characters with the Unicode property White_Space. In a
  valid UTF-8 string such a character starts where its encoding starts, so the scan goes byte by byte;
  \<open>ws_len\<close> is the length of the white-space character at the head, or 0.
\<close>

definition ws1 :: "u8 \<Rightarrow> bool" where
  "ws1 a \<longleftrightarrow> (9 \<le> a \<and> a \<le> 13) \<or> a = 32"

definition ws2 :: "u8 \<Rightarrow> u8 \<Rightarrow> bool" where
  "ws2 a b \<longleftrightarrow> a = 0xC2 \<and> (b = 0x85 \<or> b = 0xA0)"

definition ws3 :: "u8 \<Rightarrow> u8 \<Rightarrow> u8 \<Rightarrow> bool" where
  "ws3 a b c \<longleftrightarrow>
    (a = 0xE1 \<and> b = 0x9A \<and> c = 0x80)
    \<or> (a = 0xE2 \<and> b = 0x80 \<and> ((0x80 \<le> c \<and> c \<le> 0x8A) \<or> c = 0xA8 \<or> c = 0xA9 \<or> c = 0xAF))
    \<or> (a = 0xE2 \<and> b = 0x81 \<and> c = 0x9F)
    \<or> (a = 0xE3 \<and> b = 0x80 \<and> c = 0x80)"

fun ws_len :: "bytes \<Rightarrow> nat" where
  "ws_len [] = 0"
| "ws_len [a] = (if ws1 a then 1 else 0)"
| "ws_len [a, b] = (if ws1 a then 1 else if ws2 a b then 2 else 0)"
| "ws_len (a # b # c # s) = (if ws1 a then 1 else if ws2 a b then 2 else if ws3 a b c then 3 else 0)"

definition word_of :: "bytes \<Rightarrow> rstring list" where
  "word_of cur = (if cur = [] then [] else [cur])"

function split_words :: "bytes \<Rightarrow> bytes \<Rightarrow> rstring list" where
  "split_words cur [] = word_of cur"
| "split_words cur (b # s) =
    (if ws_len (b # s) = 0 then split_words (cur @ [b]) s
     else word_of cur @ split_words [] (drop (ws_len (b # s)) (b # s)))"
  by pat_completeness auto
termination
  by (relation "measure (\<lambda>(cur, s). length s)") auto

definition split_whitespace :: "rstring \<Rightarrow> rstring list" where
  "split_whitespace s = split_words [] s"

definition parse_auth_secrets :: "rstring list \<Rightarrow> startup_error + rstring list" where
  "parse_auth_secrets values =
    (let secrets = concat (map split_whitespace values)
     in case find (\<lambda>s. length s < MIN_AUTH_SECRET_LEN) secrets of
          Some short \<Rightarrow> Inl (ShortSecret (length short))
        | None \<Rightarrow> Inr secrets)"

text \<open>\<open>s.splitn(2, ':')\<close> has two parts exactly when there is a colon.\<close>

definition parse_credentials :: "rstring list \<Rightarrow> (rstring \<times> rstring) list" where
  "parse_credentials users = List.map_filter (split_once COLON) users"

text \<open>\<open>main\<close> up to the construction of the server; \<open>random_secret\<close> is the draw for the nonces.\<close>

definition configure :: "bytes \<Rightarrow> args \<Rightarrow> startup_error + config" where
  "configure random_secret a =
    (let credentials = parse_credentials (arg_user a)
     in case parse_auth_secrets (arg_static_auth_secret a) of
          Inl err \<Rightarrow> Inl err
        | Inr auth_secrets \<Rightarrow>
            if credentials = [] \<and> auth_secrets = [] \<and> \<not> arg_allow_anonymous a
            then Inl MissingCredentials
            else Inr \<lparr>cfg_port = arg_port a, cfg_external_ip = arg_external_ip a,
                   cfg_realm = arg_realm a, cfg_credentials = credentials,
                   cfg_auth_secrets = auth_secrets,
                   cfg_max_allocations_per_ip = arg_max_allocations_per_ip a,
                   cfg_rate_limit_per_minute = arg_rate_limit_per_minute a,
                   cfg_nonce_lifetime_secs = arg_nonce_lifetime_secs a,
                   cfg_nonce_secret = random_secret,
                   cfg_allow_anonymous = arg_allow_anonymous a,
                   cfg_max_permissions_per_alloc = arg_max_permissions_per_alloc a,
                   cfg_max_channels_per_alloc = arg_max_channels_per_alloc a\<rparr>)"

section \<open>Lemmas\<close>

text \<open>A word: white space starts nowhere in it.\<close>

definition no_ws :: "bytes \<Rightarrow> bool" where
  "no_ws w \<longleftrightarrow> (\<forall>k < length w. ws_len (drop k w) = 0)"

lemma no_ws_Nil [simp]: "no_ws []"
  by (simp add: no_ws_def)

lemma no_ws_Cons [simp]: "no_ws (b # w) \<longleftrightarrow> ws_len (b # w) = 0 \<and> no_ws w"
  by (simp add: no_ws_def All_less_Suc2)

text \<open>White space is recognised from its own bytes alone.\<close>

lemma ws_len_more: "\<not> ws1 a \<Longrightarrow> ws2 a b \<Longrightarrow> ws_len (a # b # s) = 2" "ws1 a \<Longrightarrow> ws_len (a # s) = 1"
  by (cases s; simp) (cases "a # s" rule: ws_len.cases; simp)

lemma ws_len_prefix: "ws_len x \<noteq> 0 \<Longrightarrow> ws_len (x @ y) = ws_len x"
  by (cases x rule: ws_len.cases) (auto simp: ws_len_more split: if_splits)

lemma space_ends: "\<not> ws2 a 32" "\<not> ws3 a 32 c" "\<not> ws3 a b 32"
  by (simp_all add: ws2_def ws3_def)

lemma ws_len_before_space: "x \<noteq> [] \<Longrightarrow> ws_len x = 0 \<Longrightarrow> ws_len (x @ 32 # y) = 0"
  by (cases x rule: ws_len.cases; cases y) (auto simp: space_ends split: if_splits)

lemma split_words_last: "no_ws w \<Longrightarrow> split_words cur w = word_of (cur @ w)"
  by (induction w arbitrary: cur) simp_all

lemma split_words_space:
  "no_ws w \<Longrightarrow> split_words cur (w @ 32 # r) = word_of (cur @ w) @ split_words [] r"
proof (induction w arbitrary: cur)
  case Nil
  then show ?case by (simp add: ws_len_more(2) ws1_def)
next
  case (Cons b w)
  then have "ws_len (b # w @ 32 # r) = 0" using ws_len_before_space [of "b # w" r] by simp
  then show ?case using Cons by simp
qed

lemma split_words_sound:
  assumes "\<forall>k < length cur. ws_len (drop k cur @ s) = 0" "x \<in> set (split_words cur s)"
  shows "x \<noteq> [] \<and> no_ws x"
  using assms
proof (induction cur s rule: split_words.induct)
  case (1 cur)
  then show ?case by (auto simp: word_of_def no_ws_def split: if_splits)
next
  case (2 cur b s)
  have cur: "no_ws cur"
    unfolding no_ws_def using 2(3) ws_len_prefix by (metis (no_types, lifting))
  show ?case
  proof (cases "ws_len (b # s) = 0")
    case True
    then have "\<forall>k < length (cur @ [b]). ws_len (drop k (cur @ [b]) @ s) = 0"
      using 2(3) by (simp add: less_Suc_eq)
    then show ?thesis using 2(1) [OF True] 2(4) True by simp
  next
    case False
    then have "x \<in> set (word_of cur) \<or> x \<in> set (split_words [] (drop (ws_len (b # s)) (b # s)))"
      using 2(4) by simp
    then show ?thesis using 2(2) [OF False] cur by (auto simp: word_of_def split: if_splits)
  qed
qed

lemma split_whitespace_words: "x \<in> set (split_whitespace s) \<Longrightarrow> x \<noteq> [] \<and> no_ws x"
  unfolding split_whitespace_def by (rule split_words_sound [of "[]" s]) simp_all

text \<open>Secrets written one after the other, each followed by a blank.\<close>

lemma split_whitespace_blanks:
  assumes "\<forall>w \<in> set ws. w \<noteq> [] \<and> no_ws w"
  shows "split_whitespace (concat (map (\<lambda>w. w @ [32]) ws)) = ws"
  using assms
proof (induction ws)
  case Nil
  then show ?case by (simp add: split_whitespace_def word_of_def)
next
  case (Cons w ws)
  then show ?case using split_words_space [of w "[]"] by (simp add: split_whitespace_def word_of_def)
qed

lemma parse_auth_secrets_iff:
  "parse_auth_secrets vs = Inr ss \<longleftrightarrow>
    ss = concat (map split_whitespace vs) \<and> (\<forall>s \<in> set ss. MIN_AUTH_SECRET_LEN \<le> length s)"
proof (cases "find (\<lambda>s. length s < MIN_AUTH_SECRET_LEN) (concat (map split_whitespace vs))")
  case None
  then have "\<forall>s \<in> set (concat (map split_whitespace vs)). MIN_AUTH_SECRET_LEN \<le> length s"
    by (auto simp: find_None_iff not_less simp del: set_concat)
  then show ?thesis using None by (auto simp: parse_auth_secrets_def Let_def simp del: set_concat)
next
  case (Some x)
  then have "x \<in> set (concat (map split_whitespace vs))" "length x < MIN_AUTH_SECRET_LEN"
    by (auto simp: find_Some_iff in_set_conv_nth simp del: set_concat)
  then have "\<not> (\<forall>s \<in> set (concat (map split_whitespace vs)). MIN_AUTH_SECRET_LEN \<le> length s)"
    using not_le by blast
  then show ?thesis using Some by (auto simp: parse_auth_secrets_def Let_def simp del: set_concat)
qed

section \<open>Properties\<close>

text \<open>
  C40. The start-up gate: the server gets a configuration exactly when no shared secret is shorter
  than 16 bytes and there is a credential, a secret or the explicit wish for an open relay. A
  configuration built this way asks for authentication unless anonymous mode was requested, and its
  secrets are non-empty, free of white space and at least 16 bytes long.
\<close>

theorem startup_gate:
  "((\<exists>cfg. configure r a = Inr cfg) \<longleftrightarrow>
      (\<forall>v \<in> set (arg_static_auth_secret a). \<forall>s \<in> set (split_whitespace v). 16 \<le> length s)
      \<and> (parse_credentials (arg_user a) \<noteq> []
         \<or> (\<exists>v \<in> set (arg_static_auth_secret a). split_whitespace v \<noteq> []) \<or> arg_allow_anonymous a))
   \<and> (\<forall>cfg. configure r a = Inr cfg \<longrightarrow>
      (auth_enabled cfg \<or> cfg_allow_anonymous cfg)
      \<and> (\<forall>s \<in> set (cfg_auth_secrets cfg). 16 \<le> length s \<and> no_ws s)
      \<and> (\<forall>(u, p) \<in> set (cfg_credentials cfg). COLON \<notin> set u \<and> u @ COLON # p \<in> set (arg_user a)))"
proof (intro conjI allI impI)
  let ?ss = "concat (map split_whitespace (arg_static_auth_secret a))"
  have secrets: "parse_auth_secrets (arg_static_auth_secret a) =
      (if \<forall>s \<in> set ?ss. 16 \<le> length s then Inr ?ss
       else Inl (ShortSecret (length (the (find (\<lambda>s. length s < 16) ?ss)))))"
  proof (cases "\<forall>s \<in> set ?ss. 16 \<le> length s")
    case True
    then show ?thesis using parse_auth_secrets_iff by (simp add: MIN_AUTH_SECRET_LEN_def)
  next
    case False
    then have "find (\<lambda>s. length s < 16) ?ss \<noteq> None" by (auto simp: find_None_iff not_le)
    then show ?thesis using False by (auto simp: parse_auth_secrets_def MIN_AUTH_SECRET_LEN_def Let_def)
  qed
  have empty: "?ss = [] \<longleftrightarrow> (\<forall>v \<in> set (arg_static_auth_secret a). split_whitespace v = [])" by auto
  show "(\<exists>cfg. configure r a = Inr cfg) \<longleftrightarrow>
      (\<forall>v \<in> set (arg_static_auth_secret a). \<forall>s \<in> set (split_whitespace v). 16 \<le> length s)
      \<and> (parse_credentials (arg_user a) \<noteq> []
         \<or> (\<exists>v \<in> set (arg_static_auth_secret a). split_whitespace v \<noteq> []) \<or> arg_allow_anonymous a)"
    using empty by (auto simp: configure_def Let_def secrets simp del: concat_eq_Nil_conv)
  fix cfg
  assume cfg: "configure r a = Inr cfg"
  then have ss: "\<forall>s \<in> set ?ss. 16 \<le> length s" "cfg_auth_secrets cfg = ?ss"
    "cfg_credentials cfg = parse_credentials (arg_user a)"
    "cfg_allow_anonymous cfg = arg_allow_anonymous a"
    by (auto simp: configure_def Let_def secrets split: if_splits)
  show "auth_enabled cfg \<or> cfg_allow_anonymous cfg"
    using cfg unfolding auth_enabled_def ss(2-4) by (auto simp: configure_def Let_def secrets split: if_splits)
  show "\<forall>s \<in> set (cfg_auth_secrets cfg). 16 \<le> length s \<and> no_ws s"
    using ss(1) split_whitespace_words by (fastforce simp: ss(2))
  show "\<forall>(u, p) \<in> set (cfg_credentials cfg). COLON \<notin> set u \<and> u @ COLON # p \<in> set (arg_user a)"
    unfolding ss(3) parse_credentials_def
    by (auto simp: List.map_filter_def split_once_Some_iff split_once_append)
qed

text \<open>
  Secret rotation: any list of sufficiently long secrets, commas and colons allowed, written
  into one value with a blank after each, is read back exactly.
\<close>

lemma secrets_round_trip:
  assumes "\<forall>s \<in> set ss. 16 \<le> length s \<and> no_ws s"
  shows "parse_auth_secrets [concat (map (\<lambda>s. s @ [32]) ss)] = Inr ss"
proof -
  have "\<forall>s \<in> set ss. s \<noteq> [] \<and> no_ws s" using assms by fastforce
  then show ?thesis
    using assms split_whitespace_blanks by (simp add: parse_auth_secrets_iff MIN_AUTH_SECRET_LEN_def)
qed

definition demo_secret :: rstring where
  "demo_secret = str ''0123456789,abcdef''"

lemma demo_secret_ok: "length demo_secret = 17" "no_ws demo_secret"
  by (simp_all add: demo_secret_def str_def ws1_def ws2_def ws3_def)

definition demo_args :: args where
  "demo_args = \<lparr>arg_port = 3478, arg_external_ip = V4 203 0 113 10, arg_realm = str ''uturn'',
     arg_user = [], arg_static_auth_secret = [demo_secret], arg_max_allocations_per_ip = 200,
     arg_rate_limit_per_minute = 30, arg_nonce_lifetime_secs = 3600, arg_allow_anonymous = False,
     arg_max_permissions_per_alloc = 64, arg_max_channels_per_alloc = 128\<rparr>"

lemma demo_split: "split_whitespace demo_secret = [demo_secret]"
  using split_words_last [OF demo_secret_ok(2), of "[]"]
  by (auto simp: split_whitespace_def word_of_def demo_secret_def str_def)

theorem startup_gate_witness:
  "\<exists>cfg. configure [] demo_args = Inr cfg \<and> auth_enabled cfg"
proof -
  have "\<exists>cfg. configure [] demo_args = Inr cfg"
    using startup_gate [of "[]" demo_args] by (simp add: demo_args_def demo_split demo_secret_ok)
  then obtain cfg where cfg: "configure [] demo_args = Inr cfg" ..
  then have "auth_enabled cfg \<or> cfg_allow_anonymous cfg" using startup_gate [of "[]" demo_args] by blast
  moreover have "\<not> cfg_allow_anonymous cfg"
    using cfg by (auto simp: configure_def demo_args_def Let_def split: sum.splits if_splits)
  ultimately show ?thesis using cfg by blast
qed

end
