(* ===== verification/Locking.thy ===== *)
theory Locking
  imports Prelude
begin

text \<open>
  Tasks that share readers-writer locks on a pool of worker threads, as the asynchronous runtime
  runs them: a task is a sequence of lock operations and suspension points, a worker that finds a
  lock taken blocks, and a task that is suspended gives its worker to another task. The theory
  defines the lock discipline (locks are taken upwards in a strict order, and a suspended task
  holds none) and shows, once for every program that keeps it, that no state the tasks can reach is
  a deadlock and that every task runs to its end. \<open>Lock_Order\<close> shows that the methods of the
  allocation table and of the rate limiter keep the discipline.
\<close>

section \<open>Definitions\<close>

subsection \<open>Lock scripts\<close>

datatype mode = Shared | Exclusive

datatype 'l action = Acquire mode 'l | Release 'l | Await

type_synonym 'l held = "('l \<times> mode) list"

text \<open>A guard that lives over \<open>body\<close>, and one that is dropped at once.\<close>

definition guarded :: "mode \<Rightarrow> 'l \<Rightarrow> 'l action list \<Rightarrow> 'l action list" where
  "guarded m l body = Acquire m l # body @ [Release l]"

abbreviation brief :: "mode \<Rightarrow> 'l \<Rightarrow> 'l action list" where
  "brief m l \<equiv> guarded m l []"

text \<open>
  The locks held after a script: \<open>None\<close> when it takes a lock that is not above every lock it
  holds, gives back one it does not hold, or is suspended while it holds one.
\<close>

fun track :: "('l \<Rightarrow> 'l \<Rightarrow> bool) \<Rightarrow> 'l held \<Rightarrow> 'l action list \<Rightarrow> 'l held option" where
  "track below held [] = Some held"
| "track below held (Acquire m l # acts) =
     (if list_all (\<lambda>(k, _). below k l) held then track below ((l, m) # held) acts else None)"
| "track below held (Release l # acts) =
     (if l \<in> fst ` set held then track below (filter (\<lambda>(k, _). k \<noteq> l) held) acts else None)"
| "track below held (Await # acts) = (if held = [] then track below [] acts else None)"

definition keeps :: "('l \<Rightarrow> 'l \<Rightarrow> bool) \<Rightarrow> 'l held \<Rightarrow> 'l action list \<Rightarrow> bool" where
  "keeps below held acts \<longleftrightarrow> track below held acts = Some held"

text \<open>A task: calls, each with the script of its method, and suspension points between them.\<close>

datatype 'c op = Call 'c | Yield

fun program :: "('c \<Rightarrow> 'l action list) \<Rightarrow> 'c op list \<Rightarrow> 'l action list" where
  "program script [] = []"
| "program script (Call c # ops) = script c @ program script ops"
| "program script (Yield # ops) = Await # program script ops"

subsection \<open>Tasks on a pool of workers\<close>

datatype phase = Ready | Running | Finished

record 'l task =
  todo :: "'l action list"
  holding :: "'l held"
  phase :: phase

record 'l machine =
  workers :: nat
  tasks :: "'l task list"

definition task_of :: "'l action list \<Rightarrow> 'l task" where
  "task_of acts = \<lparr>todo = acts, holding = [], phase = Ready\<rparr>"

definition start :: "nat \<Rightarrow> 'l action list list \<Rightarrow> 'l machine" where
  "start n progs = \<lparr>workers = n, tasks = map task_of progs\<rparr>"

definition running :: "'l task list \<Rightarrow> nat" where
  "running ts = length (filter (\<lambda>t. phase t = Running) ts)"

definition lock_held :: "'l task list \<Rightarrow> 'l \<Rightarrow> bool" where
  "lock_held ts l \<longleftrightarrow> list_ex (\<lambda>t. list_ex (\<lambda>(k, _). k = l) (holding t)) ts"

definition holds_exclusive :: "'l task list \<Rightarrow> 'l \<Rightarrow> bool" where
  "holds_exclusive ts l \<longleftrightarrow> list_ex (\<lambda>t. list_ex (\<lambda>(k, m). k = l \<and> m = Exclusive) (holding t)) ts"

definition waits :: "mode \<Rightarrow> 'l \<Rightarrow> 'l task \<Rightarrow> bool" where
  "waits m l t \<longleftrightarrow> phase t = Running \<and> (case todo t of a # _ \<Rightarrow> a = Acquire m l | [] \<Rightarrow> False)"

text \<open>
  Whether a lock is granted. A writer needs the lock to be free, a reader needs it to be free of
  writers; with \<open>fair\<close> a reader also stands behind every writer that waits for the lock. The
  locks of the program are between the two.
\<close>

definition granted :: "bool \<Rightarrow> 'l task list \<Rightarrow> mode \<Rightarrow> 'l \<Rightarrow> bool" where
  "granted fair ts m l \<longleftrightarrow>
    (case m of
       Exclusive \<Rightarrow> \<not> lock_held ts l
     | Shared \<Rightarrow> \<not> holds_exclusive ts l \<and> (fair \<longrightarrow> \<not> list_ex (waits Exclusive l) ts))"

text \<open>One step of a task beside the others; \<open>None\<close> when it has none.\<close>

definition task_advance :: "bool \<Rightarrow> nat \<Rightarrow> 'l task list \<Rightarrow> 'l task \<Rightarrow> 'l task option" where
  "task_advance fair n ts t =
    (case phase t of
       Ready \<Rightarrow> if running ts < n then Some (t\<lparr>phase := Running\<rparr>) else None
     | Running \<Rightarrow>
        (case todo t of
           [] \<Rightarrow> Some (t\<lparr>phase := Finished\<rparr>)
         | Acquire m l # rest \<Rightarrow>
             if granted fair ts m l
             then Some (t\<lparr>todo := rest, holding := (l, m) # holding t\<rparr>) else None
         | Release l # rest \<Rightarrow>
             Some (t\<lparr>todo := rest, holding := filter (\<lambda>(k, _). k \<noteq> l) (holding t)\<rparr>)
         | Await # rest \<Rightarrow> Some (t\<lparr>todo := rest, phase := Ready\<rparr>))
     | Finished \<Rightarrow> None)"

inductive lock_step :: "bool \<Rightarrow> 'l machine \<Rightarrow> 'l machine \<Rightarrow> bool" for fair where
  task_step: "\<lbrakk>i < length (tasks s); task_advance fair (workers s) (tasks s) (tasks s ! i) = Some t\<rbrakk>
    \<Longrightarrow> lock_step fair s (s\<lparr>tasks := (tasks s)[i := t]\<rparr>)"

inductive lock_moves :: "bool \<Rightarrow> nat \<Rightarrow> 'l machine \<Rightarrow> 'l machine \<Rightarrow> bool" for fair where
  no_move: "lock_moves fair 0 s s"
| more_moves: "\<lbrakk>lock_moves fair n s s'; lock_step fair s' s''\<rbrakk> \<Longrightarrow> lock_moves fair (Suc n) s s''"

text \<open>A run in which the tasks step in a given order, and the states in which none can step.\<close>

fun replay :: "bool \<Rightarrow> nat list \<Rightarrow> 'l machine \<Rightarrow> 'l machine option" where
  "replay fair [] s = Some s"
| "replay fair (i # order) s =
     (if i < length (tasks s)
      then case task_advance fair (workers s) (tasks s) (tasks s ! i) of
             Some t \<Rightarrow> replay fair order (s\<lparr>tasks := (tasks s)[i := t]\<rparr>)
           | None \<Rightarrow> None
      else None)"

definition stuck :: "bool \<Rightarrow> 'l machine \<Rightarrow> bool" where
  "stuck fair s \<longleftrightarrow> list_all (\<lambda>t. task_advance fair (workers s) (tasks s) t = None) (tasks s)"

definition all_finished :: "'l machine \<Rightarrow> bool" where
  "all_finished s \<longleftrightarrow> list_all (\<lambda>t. phase t = Finished \<and> holding t = []) (tasks s)"

text \<open>A task that keeps the discipline from where it stands to its end.\<close>

definition task_ok :: "('l \<Rightarrow> 'l \<Rightarrow> bool) \<Rightarrow> 'l task \<Rightarrow> bool" where
  "task_ok below t \<longleftrightarrow> track below (holding t) (todo t) = Some [] \<and>
     (phase t \<noteq> Running \<longrightarrow> holding t = []) \<and> (phase t = Finished \<longrightarrow> todo t = [])"

text \<open>Every step makes a task lighter, so the weight of the start bounds the steps of a run.\<close>

definition weight :: "'l task \<Rightarrow> nat" where
  "weight t = 3 * length (todo t) + (case phase t of Ready \<Rightarrow> 2 | Running \<Rightarrow> 1 | Finished \<Rightarrow> 0)"

definition machine_weight :: "'l machine \<Rightarrow> nat" where
  "machine_weight s = sum_list (map weight (tasks s))"

section \<open>Scripts\<close>

lemma track_append:
  "track below held (as @ bs) = Option.bind (track below held as) (\<lambda>h. track below h bs)"
  by (induction below held as rule: track.induct) auto

lemma keeps_Nil [simp]: "keeps below held []"
  by (simp add: keeps_def)

lemma keeps_append: "\<lbrakk>keeps below held as; keeps below held bs\<rbrakk> \<Longrightarrow> keeps below held (as @ bs)"
  by (simp add: keeps_def track_append)

lemma keeps_concat: "(\<And>as. as \<in> set ass \<Longrightarrow> keeps below held as) \<Longrightarrow> keeps below held (concat ass)"
  by (induction ass) (auto intro: keeps_append)

lemma keeps_program:
  "(\<And>c. keeps below [] (script c)) \<Longrightarrow> keeps below [] (program script ops)"
proof (induction script ops rule: program.induct)
  case (3 script ops)
  then show ?case by (simp add: keeps_def)
qed (auto intro: keeps_append)

lemma keeps_guarded:
  assumes "\<not> below l l" "list_all (\<lambda>(k, _). below k l) held" "keeps below ((l, m) # held) body"
  shows "keeps below held (guarded m l body)"
proof -
  have "filter (\<lambda>(k, _). k \<noteq> l) held = held"
    using assms(1,2) by (auto simp: filter_id_conv list_all_iff)
  with assms show ?thesis by (simp add: keeps_def guarded_def track_append)
qed

section \<open>Runs\<close>

inductive_cases lock_stepE: "lock_step fair s s'"
inductive_cases moves_SucE: "lock_moves fair (Suc n) s s'"

lemma workers_moves: "lock_moves fair n s s' \<Longrightarrow> workers s' = workers s"
  by (induction rule: lock_moves.induct) (auto elim: lock_stepE)

lemma task_advance_weight: "task_advance fair n ts t = Some t' \<Longrightarrow> weight t' < weight t"
  by (auto simp: task_advance_def weight_def split: phase.splits list.splits action.splits if_splits)

lemma lock_step_weight: "lock_step fair s s' \<Longrightarrow> machine_weight s' < machine_weight s"
proof (induction rule: lock_step.induct)
  case (task_step i s t)
  note lighter = task_advance_weight [OF task_step(2)]
  have "weight (tasks s ! i) \<le> sum_list (map weight (tasks s))"
    using task_step(1) by (simp add: member_le_sum_list)
  with task_step(1) lighter show ?case
    by (simp add: machine_weight_def map_update sum_list_update)
qed

lemma moves_weight: "lock_moves fair n s s' \<Longrightarrow> n + machine_weight s' \<le> machine_weight s"
proof (induction rule: lock_moves.induct)
  case (more_moves n s s' s'')
  with lock_step_weight [OF more_moves(2)] show ?case by simp
qed simp

lemma replay_moves_from:
  "\<lbrakk>replay fair order s = Some s'; lock_moves fair n s0 s\<rbrakk> \<Longrightarrow> lock_moves fair (n + length order) s0 s'"
proof (induction order arbitrary: s n)
  case (Cons i order)
  from Cons.prems(1) obtain t where t: "i < length (tasks s)"
      "task_advance fair (workers s) (tasks s) (tasks s ! i) = Some t"
      "replay fair order (s\<lparr>tasks := (tasks s)[i := t]\<rparr>) = Some s'"
    by (auto split: if_splits option.splits)
  from Cons.IH [OF t(3) more_moves [OF Cons.prems(2) task_step [OF t(1,2)]]] show ?case by simp
qed simp

lemma replay_moves: "replay fair order s = Some s' \<Longrightarrow> lock_moves fair (length order) s s'"
  using replay_moves_from [OF _ no_move] by fastforce

lemma replay_reaches:
  "\<lbrakk>case replay fair order s0 of Some s \<Rightarrow> P s | None \<Rightarrow> False; length order = n\<rbrakk>
    \<Longrightarrow> \<exists>s. lock_moves fair n s0 s \<and> P s"
  by (auto dest: replay_moves split: option.splits)

lemma stuck_iff: "stuck fair s \<longleftrightarrow> \<not> (\<exists>s'. lock_step fair s s')"
  unfolding lock_step.simps stuck_def list_all_length by (metis not_Some_eq)

section \<open>The lock order as an interface\<close>

text \<open>
  What the methods promise: a strict order of the locks which every method keeps. The client is
  the runtime: tasks built from such methods never deadlock.
\<close>

locale lock_order =
  fixes below :: "'l \<Rightarrow> 'l \<Rightarrow> bool" and script :: "'c \<Rightarrow> 'l action list"
  assumes below_irrefl: "\<not> below l l"
    and below_trans: "below l k \<Longrightarrow> below k j \<Longrightarrow> below l j"
    and script_keeps: "keeps below [] (script c)"
begin

lemma task_of_ok: "task_ok below (task_of (program script ops))"
  using keeps_program [of below script ops, OF script_keeps]
  by (simp add: task_ok_def task_of_def keeps_def)

lemma task_advance_ok: "\<lbrakk>task_ok below t; task_advance fair n ts t = Some t'\<rbrakk> \<Longrightarrow> task_ok below t'"
  by (auto simp: task_ok_def task_advance_def
      split: phase.splits list.splits action.splits if_splits)

lemma tasks_ok: "lock_moves fair n (start w (map (program script) jobs)) s \<Longrightarrow> list_all (task_ok below) (tasks s)"
proof (induction n "start w (map (program script) jobs)" s rule: lock_moves.induct)
  case no_move
  show ?case by (auto simp: start_def list_all_iff task_of_ok)
next
  case (more_moves n s' s'')
  from more_moves(3) more_moves(2) show ?case
  proof (cases rule: lock_step.cases)
    case (task_step i t)
    then have "task_ok below t"
      using task_advance_ok [OF _ task_step(3)] more_moves(2) by (simp add: list_all_length)
    with task_step(1) more_moves(2) show ?thesis
      using set_update_subset_insert [of "tasks s'" i t] by (auto simp: list_all_iff)
  qed
qed

text \<open>A state with no step has every worker waiting for a lock that a waiting task holds.\<close>

lemma stuck_waits:
  assumes "\<And>s'. \<not> lock_step True s s'" "t \<in> set (tasks s)" "phase t = Running"
  shows "\<exists>m l rest. todo t = Acquire m l # rest \<and> \<not> granted True (tasks s) m l"
proof -
  obtain i where "i < length (tasks s)" "tasks s ! i = t"
    using assms(2) by (auto simp: in_set_conv_nth)
  then have "task_advance True (workers s) (tasks s) t = None"
    using assms(1) task_step [of i s True] by (cases "task_advance True (workers s) (tasks s) t") auto
  with assms(3) show ?thesis
    by (auto simp: task_advance_def split: list.splits action.splits if_splits)
qed

lemma stuck_holder:
  assumes stuck: "\<And>s'. \<not> lock_step True s s'" and t: "t \<in> set (tasks s)" "waits m l t"
  shows "lock_held (tasks s) l"
proof -
  have held: "lock_held (tasks s) l" if "u \<in> set (tasks s)" "waits Exclusive l u" for u
    using stuck_waits [OF stuck that(1)] that(2)
    by (auto simp: waits_def granted_def split: list.splits)
  show ?thesis
  proof (cases m)
    case Exclusive
    with held t show ?thesis by simp
  next
    case Shared
    then have "\<not> granted True (tasks s) Shared l"
      using stuck_waits [OF stuck t(1)] t(2) by (auto simp: waits_def split: list.splits)
    then show ?thesis
      using held by (auto simp: granted_def lock_held_def holds_exclusive_def list_ex_iff)
  qed
qed

lemma stuck_waits_above:
  assumes stuck: "\<And>s'. \<not> lock_step True s s'" and ok: "list_all (task_ok below) (tasks s)"
    and t: "t \<in> set (tasks s)" "waits m l t"
  shows "\<exists>u \<in> set (tasks s). \<exists>m' l'. waits m' l' u \<and> below l l'"
proof -
  from stuck_holder [OF stuck t] obtain u m' where u: "u \<in> set (tasks s)" "(l, m') \<in> set (holding u)"
    by (auto simp: lock_held_def list_ex_iff)
  with ok have "task_ok below u" by (simp add: list_all_iff)
  with u have "phase u = Running" by (auto simp: task_ok_def)
  with stuck_waits [OF stuck u(1)] obtain m2 l2 rest where todo: "todo u = Acquire m2 l2 # rest"
    by blast
  with \<open>task_ok below u\<close> u(2) have "below l l2"
    by (auto simp: task_ok_def list_all_iff split: if_splits)
  with todo \<open>phase u = Running\<close> u(1) show ?thesis by (auto simp: waits_def)
qed

lemma no_waiting_cycle:
  assumes stuck: "\<And>s'. \<not> lock_step True s s'" and ok: "list_all (task_ok below) (tasks s)"
  shows "t \<in> set (tasks s) \<Longrightarrow> phase t \<noteq> Running"
proof
  assume t: "t \<in> set (tasks s)" "phase t = Running"
  define W where "W = {l. \<exists>t \<in> set (tasks s). \<exists>m. waits m l t}"
  have "W \<subseteq> (\<Union>t \<in> set (tasks s). {l. \<exists>m. waits m l t})" by (auto simp: W_def)
  moreover have "finite {l. \<exists>m. waits m l t}" for t :: "'l task"
  proof (rule finite_subset)
    show "{l. \<exists>m. waits m l t} \<subseteq> (case todo t of Acquire m l # _ \<Rightarrow> {l} | _ \<Rightarrow> {})"
      by (auto simp: waits_def split: list.splits action.splits)
  qed (auto split: list.splits action.splits)
  ultimately have "finite W" by (meson finite_UN finite_set finite_subset)
  moreover have "W \<noteq> {}"
    using stuck_waits [OF stuck t] t by (force simp: W_def waits_def)
  moreover have "asymp_on W below" "transp_on W below"
    using below_irrefl below_trans by (auto intro!: asymp_onI transp_onI)
  ultimately obtain l where "l \<in> W" "\<forall>k \<in> W. k \<noteq> l \<longrightarrow> \<not> below l k"
    using Finite_Set.bex_max_element by metis
  moreover from \<open>l \<in> W\<close> obtain k where "k \<in> W" "below l k"
    using stuck_waits_above [OF stuck ok] by (fastforce simp: W_def)
  ultimately show False using below_irrefl by metis
qed

lemma progress:
  assumes "0 < workers s" "list_all (task_ok below) (tasks s)"
  shows "all_finished s \<or> (\<exists>s'. lock_step True s s')"
proof (rule disjCI)
  assume "\<nexists>s'. lock_step True s s'"
  then have stuck: "\<And>s'. \<not> lock_step True s s'" by blast
  note idle = no_waiting_cycle [OF stuck assms(2)]
  then have none: "running (tasks s) = 0" by (auto simp: running_def filter_empty_conv)
  have "phase t = Finished" if "t \<in> set (tasks s)" for t
  proof (rule ccontr)
    assume "phase t \<noteq> Finished"
    with idle [OF that] have "phase t = Ready" by (cases "phase t") auto
    with none assms(1) have "task_advance True (workers s) (tasks s) t = Some (t\<lparr>phase := Running\<rparr>)"
      by (simp add: task_advance_def)
    with that stuck show False by (metis in_set_conv_nth task_step)
  qed
  with assms(2) show "all_finished s" by (auto simp: all_finished_def list_all_iff task_ok_def)
qed

lemma deadlock_free:
  assumes "0 < w" "lock_moves fair n (start w (map (program script) jobs)) s"
  shows "all_finished s \<or> (\<exists>s'. lock_step True s s')"
  using progress [of s] tasks_ok [OF assms(2)] workers_moves [OF assms(2)] assms(1)
  by (simp add: start_def)

lemma suspended_holds_nothing:
  assumes "lock_moves fair n (start w (map (program script) jobs)) s" "t \<in> set (tasks s)" "phase t \<noteq> Running"
  shows "holding t = []"
  using tasks_ok [OF assms(1)] assms(2,3) by (auto simp: list_all_iff task_ok_def)

end

end
