(* ===== verification/Lock_Order.thy ===== *)
theory Lock_Order
  imports Locking Alloc_Table Rate_Limit
begin

text \<open>
  The lock scripts of \<open>src/lookup/table.rs\<close> and \<open>src/lookup/rate_limit.rs\<close>: for each method of
  \<open>Allocation\<close>, \<open>AllocationTable\<close> and \<open>RateLimiter\<close>, the guards it takes and drops, in order,
  on every branch. What a branch depends on (a hit or a miss, the entries an iteration meets) is an
  argument, since other tasks change the maps between the guards. The comment on
  \<open>AllocationTable\<close> states the order the guards must keep: \<open>allocations\<close> before every secondary
  index. The theory gives the whole order and shows that every method keeps it.
\<close>

section \<open>Definitions\<close>

subsection \<open>The locks\<close>

text \<open>
  A \<open>DashMap\<close> has one readers-writer lock per shard, and an \<open>RwLock\<close> is one lock. The maps of an
  \<open>Allocation\<close> are named by its id. The shard of a key is the map's own (its hasher is random), so
  it is a parameter, one function per map.
\<close>

datatype lock =
    Allocations nat | By_Client nat | By_Permission nat | By_Peer_Tuple nat | By_Ice_Ufrag nat
  | Permissions allocation_id | Known_Peers allocation_id nat
  | Channels allocation_id nat | Channels_Reverse allocation_id nat
  | Ice_Ufrag allocation_id | Ice_Remote_Ufrag allocation_id
  | Limiter_Entries nat

record sharding =
  allocations_shard :: "allocation_id \<Rightarrow> nat"
  by_client_shard :: "socket_addr \<Rightarrow> nat"
  by_permission_shard :: "ip_addr \<Rightarrow> nat"
  by_peer_tuple_shard :: "socket_addr \<Rightarrow> nat"
  by_ice_ufrag_shard :: "rstring \<Rightarrow> nat"
  known_peers_shard :: "allocation_id \<Rightarrow> socket_addr \<Rightarrow> nat"
  channels_shard :: "allocation_id \<Rightarrow> channel \<Rightarrow> nat"
  channels_reverse_shard :: "allocation_id \<Rightarrow> socket_addr \<Rightarrow> nat"
  limiter_shard :: "ip_addr \<Rightarrow> nat"
  shard_amount :: nat
  overlap :: bool

text \<open>
  \<open>DashMap\<close>'s \<open>iter\<close> read-locks one shard after another; whether it takes the next shard before
  it gives back the last is the parameter \<open>overlap\<close>. \<open>retain\<close> write-locks one shard at a time.
  The bodies are what the caller does per shard while the shard's guard is alive.
\<close>

fun walk :: "mode \<Rightarrow> (nat \<Rightarrow> 'l) \<Rightarrow> nat \<Rightarrow> 'l action list \<Rightarrow> 'l action list list \<Rightarrow> 'l action list" where
  "walk m lk s body [] = body @ [Release (lk s)]"
| "walk m lk s body (b # bodies) =
     body @ Acquire m (lk (Suc s)) # Release (lk s) # walk m lk (Suc s) b bodies"

definition retain_locks :: "mode \<Rightarrow> (nat \<Rightarrow> 'l) \<Rightarrow> 'l action list list \<Rightarrow> 'l action list" where
  "retain_locks m lk bodies = concat (map (\<lambda>(s, b). guarded m (lk s) b) (enumerate 0 bodies))"

definition iter_locks :: "sharding \<Rightarrow> (nat \<Rightarrow> 'l) \<Rightarrow> 'l action list list \<Rightarrow> 'l action list" where
  "iter_locks sh lk bodies =
    (case bodies of
       b # bs \<Rightarrow> if overlap sh then Acquire Shared (lk 0) # walk Shared lk 0 b bs
                 else retain_locks Shared lk bodies
     | [] \<Rightarrow> [])"

subsection \<open>Methods of an allocation\<close>

definition set_ice_ufrag_locks :: "allocation_id \<Rightarrow> lock action list" where
  "set_ice_ufrag_locks i = brief Exclusive (Ice_Ufrag i)"

definition get_ice_ufrag_locks :: "allocation_id \<Rightarrow> lock action list" where
  "get_ice_ufrag_locks i = brief Shared (Ice_Ufrag i)"

definition set_ice_remote_ufrag_locks :: "allocation_id \<Rightarrow> lock action list" where
  "set_ice_remote_ufrag_locks i = brief Exclusive (Ice_Remote_Ufrag i)"

definition get_ice_remote_ufrag_locks :: "allocation_id \<Rightarrow> lock action list" where
  "get_ice_remote_ufrag_locks i = brief Shared (Ice_Remote_Ufrag i)"

definition is_permitted_locks :: "allocation_id \<Rightarrow> lock action list" where
  "is_permitted_locks i = brief Shared (Permissions i)"

definition alloc_add_permission_locks :: "allocation_id \<Rightarrow> lock action list" where
  "alloc_add_permission_locks i = brief Exclusive (Permissions i)"

definition permissions_count_locks :: "allocation_id \<Rightarrow> lock action list" where
  "permissions_count_locks i = brief Shared (Permissions i)"

definition cleanup_expired_permissions_locks :: "allocation_id \<Rightarrow> lock action list" where
  "cleanup_expired_permissions_locks i = brief Exclusive (Permissions i)"

text \<open>
  \<open>bind_channel\<close>: the entry guard is consumed by \<open>replace_entry\<close> or \<open>insert\<close>, or dropped at the
  end of its arm, before the reverse map is touched. \<open>old_peer\<close> is the other peer the channel was
  bound to and \<open>old_channel\<close> the other channel of the peer, when there is one.
\<close>

definition bind_channel_locks ::
  "sharding \<Rightarrow> allocation_id \<Rightarrow> channel \<Rightarrow> socket_addr \<Rightarrow> socket_addr option \<Rightarrow> channel option
     \<Rightarrow> lock action list" where
  "bind_channel_locks sh i channel peer old_peer old_channel =
    brief Exclusive (Channels i (channels_shard sh i channel)) @
    (case old_peer of
       Some p \<Rightarrow> brief Exclusive (Channels_Reverse i (channels_reverse_shard sh i p)) | None \<Rightarrow> []) @
    brief Exclusive (Channels_Reverse i (channels_reverse_shard sh i peer)) @
    (case old_channel of
       Some c \<Rightarrow> brief Exclusive (Channels i (channels_shard sh i c)) | None \<Rightarrow> [])"

definition channels_count_locks :: "sharding \<Rightarrow> allocation_id \<Rightarrow> lock action list" where
  "channels_count_locks sh i = iter_locks sh (Channels i) (replicate (shard_amount sh) [])"

definition channel_for_peer_locks ::
  "sharding \<Rightarrow> allocation_id \<Rightarrow> socket_addr \<Rightarrow> channel option \<Rightarrow> lock action list" where
  "channel_for_peer_locks sh i peer found =
    brief Shared (Channels_Reverse i (channels_reverse_shard sh i peer)) @
    (case found of
       Some c \<Rightarrow> brief Shared (Channels i (channels_shard sh i c)) | None \<Rightarrow> [])"

definition peer_for_channel_locks :: "sharding \<Rightarrow> allocation_id \<Rightarrow> channel \<Rightarrow> lock action list" where
  "peer_for_channel_locks sh i channel = brief Shared (Channels i (channels_shard sh i channel))"

definition cleanup_expired_channels_locks ::
  "sharding \<Rightarrow> allocation_id \<Rightarrow> (channel \<times> socket_addr) list \<Rightarrow> lock action list" where
  "cleanup_expired_channels_locks sh i lapsed =
    iter_locks sh (Channels i) (replicate (shard_amount sh) []) @
    concat (map (\<lambda>(c, peer).
      brief Exclusive (Channels i (channels_shard sh i c)) @
      brief Exclusive (Channels_Reverse i (channels_reverse_shard sh i peer))) lapsed)"

text \<open>
  The methods the handler and the engine call on the allocation behind a guard. The methods on the
  atomic fields (\<open>touch\<close>, \<open>refresh\<close>, \<open>is_expired\<close>, \<open>remaining_lifetime\<close>) take no lock.
\<close>

datatype alloc_call =
    Get_Ice_Ufrag | Get_Ice_Remote_Ufrag | Is_Permitted | Alloc_Add_Permission | Permissions_Count
  | Bind_Channel channel socket_addr "socket_addr option" "channel option"
  | Channels_Count
  | Channel_For_Peer socket_addr "channel option"
  | Peer_For_Channel channel
  | Knows_Peer socket_addr

fun alloc_call_locks :: "sharding \<Rightarrow> allocation_id \<Rightarrow> alloc_call \<Rightarrow> lock action list" where
  "alloc_call_locks sh i Get_Ice_Ufrag = get_ice_ufrag_locks i"
| "alloc_call_locks sh i Get_Ice_Remote_Ufrag = get_ice_remote_ufrag_locks i"
| "alloc_call_locks sh i Is_Permitted = is_permitted_locks i"
| "alloc_call_locks sh i Alloc_Add_Permission = alloc_add_permission_locks i"
| "alloc_call_locks sh i Permissions_Count = permissions_count_locks i"
| "alloc_call_locks sh i (Bind_Channel c p op oc) = bind_channel_locks sh i c p op oc"
| "alloc_call_locks sh i Channels_Count = channels_count_locks sh i"
| "alloc_call_locks sh i (Channel_For_Peer p found) = channel_for_peer_locks sh i p found"
| "alloc_call_locks sh i (Peer_For_Channel c) = peer_for_channel_locks sh i c"
| "alloc_call_locks sh i (Knows_Peer p) = brief Shared (Known_Peers i (known_peers_shard sh i p))"

subsection \<open>Methods of the table\<close>

text \<open>\<open>outcome\<close> is \<open>None\<close> on the fast path, else the new id and whether the claim of the client
  slot was lost.\<close>

definition create_or_get_locks ::
  "sharding \<Rightarrow> socket_addr \<Rightarrow> (allocation_id \<times> bool) option \<Rightarrow> lock action list" where
  "create_or_get_locks sh client outcome =
    brief Shared (By_Client (by_client_shard sh client)) @
    (case outcome of
       None \<Rightarrow> []
     | Some (i, lost) \<Rightarrow>
         brief Exclusive (Allocations (allocations_shard sh i)) @
         brief Exclusive (By_Client (by_client_shard sh client)) @
         (if lost then brief Exclusive (Allocations (allocations_shard sh i)) else []))"

text \<open>
  \<open>get\<close> hands its guard to the caller, who calls \<open>calls\<close> on the allocation and drops it; on a miss
  there are none.
\<close>

definition get_locks :: "sharding \<Rightarrow> allocation_id \<Rightarrow> alloc_call list \<Rightarrow> lock action list" where
  "get_locks sh i calls =
    guarded Shared (Allocations (allocations_shard sh i))
      (concat (map (alloc_call_locks sh i) calls))"

definition get_by_client_locks ::
  "sharding \<Rightarrow> socket_addr \<Rightarrow> allocation_id option \<Rightarrow> alloc_call list \<Rightarrow> lock action list" where
  "get_by_client_locks sh addr found calls =
    brief Shared (By_Client (by_client_shard sh addr)) @
    (case found of Some i \<Rightarrow> get_locks sh i calls | None \<Rightarrow> [])"

definition is_client_locks :: "sharding \<Rightarrow> socket_addr \<Rightarrow> lock action list" where
  "is_client_locks sh addr = brief Shared (By_Client (by_client_shard sh addr))"

definition lookup_by_peer_tuple_locks :: "sharding \<Rightarrow> socket_addr \<Rightarrow> lock action list" where
  "lookup_by_peer_tuple_locks sh addr = brief Shared (By_Peer_Tuple (by_peer_tuple_shard sh addr))"

definition lookup_by_source_locks :: "sharding \<Rightarrow> socket_addr \<Rightarrow> bool \<Rightarrow> lock action list" where
  "lookup_by_source_locks sh addr hit =
    brief Shared (By_Client (by_client_shard sh addr)) @
    (if hit then [] else brief Shared (By_Peer_Tuple (by_peer_tuple_shard sh addr)))"

text \<open>The ways through \<open>register_ice_ufrags\<close>: the allocation is gone, the fragment belongs to
  another allocation, the allocation refreshes its pair, or it claims a new fragment (giving up
  \<open>old\<close>, and perhaps losing the claim).\<close>

datatype ufrag_path = Ufrag_Gone | Ufrag_Refused | Ufrag_Refreshed | Ufrag_Claim "rstring option" bool

definition set_ufrags_locks :: "allocation_id \<Rightarrow> lock action list" where
  "set_ufrags_locks i = set_ice_ufrag_locks i @ set_ice_remote_ufrag_locks i"

definition register_ice_ufrags_locks ::
  "sharding \<Rightarrow> allocation_id \<Rightarrow> rstring \<Rightarrow> ufrag_path \<Rightarrow> lock action list" where
  "register_ice_ufrags_locks sh i ufrag path =
    (let owner = By_Ice_Ufrag (by_ice_ufrag_shard sh ufrag) in
     guarded Shared (Allocations (allocations_shard sh i))
      (case path of
         Ufrag_Gone \<Rightarrow> []
       | Ufrag_Refused \<Rightarrow> brief Shared owner
       | Ufrag_Refreshed \<Rightarrow> brief Shared owner @ set_ufrags_locks i
       | Ufrag_Claim old lost \<Rightarrow>
           brief Shared owner @ get_ice_ufrag_locks i @
           (case old of
              Some u \<Rightarrow> brief Exclusive (By_Ice_Ufrag (by_ice_ufrag_shard sh u)) | None \<Rightarrow> []) @
           guarded Exclusive owner (if lost then [] else set_ufrags_locks i)))"

definition lookup_by_ice_ufrag_locks :: "sharding \<Rightarrow> rstring \<Rightarrow> lock action list" where
  "lookup_by_ice_ufrag_locks sh ufrag = brief Shared (By_Ice_Ufrag (by_ice_ufrag_shard sh ufrag))"

text \<open>\<open>found\<close> is the owner of the fragment and whether its allocation is still there.\<close>

definition find_ice_peer_locks ::
  "sharding \<Rightarrow> rstring \<Rightarrow> (allocation_id \<times> bool) option \<Rightarrow> lock action list" where
  "find_ice_peer_locks sh ufrag found =
    brief Shared (By_Ice_Ufrag (by_ice_ufrag_shard sh ufrag)) @
    (case found of
       Some (i, there) \<Rightarrow>
         guarded Shared (Allocations (allocations_shard sh i))
           (if there then brief Shared (Ice_Remote_Ufrag i) else [])
     | None \<Rightarrow> [])"

definition lookup_by_peer_ip_locks :: "sharding \<Rightarrow> ip_addr \<Rightarrow> lock action list" where
  "lookup_by_peer_ip_locks sh ip = brief Shared (By_Permission (by_permission_shard sh ip))"

definition lookup_by_peer_addr_locks :: "sharding \<Rightarrow> socket_addr \<Rightarrow> bool \<Rightarrow> lock action list" where
  "lookup_by_peer_addr_locks sh addr hit =
    brief Shared (By_Peer_Tuple (by_peer_tuple_shard sh addr)) @
    (if hit then [] else lookup_by_peer_ip_locks sh (sa_ip addr))"

definition remove_from_permission_index_locks ::
  "sharding \<Rightarrow> ip_addr \<Rightarrow> bool \<Rightarrow> lock action list" where
  "remove_from_permission_index_locks sh ip emptied =
    brief Exclusive (By_Permission (by_permission_shard sh ip)) @
    (if emptied then brief Exclusive (By_Permission (by_permission_shard sh ip)) else [])"

definition index_permission_locks :: "sharding \<Rightarrow> ip_addr \<Rightarrow> lock action list" where
  "index_permission_locks sh ip = brief Exclusive (By_Permission (by_permission_shard sh ip))"

definition add_permission_locks ::
  "sharding \<Rightarrow> allocation_id \<Rightarrow> ip_addr \<Rightarrow> bool \<Rightarrow> lock action list" where
  "add_permission_locks sh i ip there =
    guarded Shared (Allocations (allocations_shard sh i))
      (if there then alloc_add_permission_locks i else []) @
    index_permission_locks sh ip"

text \<open>\<open>outcome\<close>: \<open>None\<close> when the allocation is gone, else whether the cap allows the addresses.\<close>

definition try_add_permissions_capped_locks ::
  "sharding \<Rightarrow> allocation_id \<Rightarrow> ip_addr list \<Rightarrow> bool option \<Rightarrow> lock action list" where
  "try_add_permissions_capped_locks sh i ips outcome =
    guarded Shared (Allocations (allocations_shard sh i))
      (case outcome of
         None \<Rightarrow> []
       | Some fits \<Rightarrow>
           brief Exclusive (Permissions i) @
           (if fits then concat (map (index_permission_locks sh) ips) else []))"

definition register_peer_tuple_locks ::
  "sharding \<Rightarrow> allocation_id \<Rightarrow> socket_addr \<Rightarrow> bool \<Rightarrow> lock action list" where
  "register_peer_tuple_locks sh i peer there =
    brief Exclusive (By_Peer_Tuple (by_peer_tuple_shard sh peer)) @
    guarded Shared (Allocations (allocations_shard sh i))
      (if there then brief Exclusive (Known_Peers i (known_peers_shard sh i peer)) else [])"

text \<open>
  Taking an allocation out of the indices, the statements \<open>remove\<close> and the three sweeps share:
  the permissions read guard lives over the loop on \<open>by_permission\<close>, the iterator over
  \<open>known_peers\<close> over the loop on \<open>by_peer_tuple\<close>.
\<close>

record departing =
  d_id :: allocation_id
  d_client :: socket_addr
  d_ufrag :: "rstring option"
  d_permissions :: "(ip_addr \<times> bool) list"
  d_known_peers :: "socket_addr list list"

definition unlink_locks :: "sharding \<Rightarrow> departing \<Rightarrow> lock action list" where
  "unlink_locks sh d =
    brief Exclusive (By_Client (by_client_shard sh (d_client d))) @
    get_ice_ufrag_locks (d_id d) @
    (case d_ufrag d of
       Some u \<Rightarrow> brief Exclusive (By_Ice_Ufrag (by_ice_ufrag_shard sh u)) | None \<Rightarrow> []) @
    guarded Shared (Permissions (d_id d))
      (concat (map (\<lambda>(ip, emptied). remove_from_permission_index_locks sh ip emptied) (d_permissions d))) @
    iter_locks sh (Known_Peers (d_id d))
      (map (\<lambda>peers. concat (map (\<lambda>p. brief Exclusive (By_Peer_Tuple (by_peer_tuple_shard sh p))) peers))
         (d_known_peers d))"

definition remove_locks :: "sharding \<Rightarrow> allocation_id \<Rightarrow> departing option \<Rightarrow> lock action list" where
  "remove_locks sh i gone =
    brief Exclusive (Allocations (allocations_shard sh i)) @
    (case gone of Some d \<Rightarrow> unlink_locks sh d | None \<Rightarrow> [])"

definition cleanup_channel_bindings_locks ::
  "sharding \<Rightarrow> (allocation_id \<times> (channel \<times> socket_addr) list) list list \<Rightarrow> lock action list" where
  "cleanup_channel_bindings_locks sh shards =
    iter_locks sh Allocations
      (map (\<lambda>es. concat (map (\<lambda>(i, lapsed). cleanup_expired_channels_locks sh i lapsed) es)) shards)"

definition cleanup_permissions_locks ::
  "sharding \<Rightarrow> (allocation_id \<times> (ip_addr \<times> bool) list) list list \<Rightarrow> lock action list" where
  "cleanup_permissions_locks sh shards =
    iter_locks sh Allocations
      (map (\<lambda>es. concat (map (\<lambda>(i, expired).
          cleanup_expired_permissions_locks i @
          concat (map (\<lambda>(ip, emptied). remove_from_permission_index_locks sh ip emptied) expired)) es))
        shards)"

text \<open>The sweeps unlink the departing allocations of a shard inside \<open>retain\<close>.\<close>

definition sweep_locks :: "sharding \<Rightarrow> departing list list \<Rightarrow> lock action list" where
  "sweep_locks sh shards =
    retain_locks Exclusive Allocations (map (\<lambda>ds. concat (map (unlink_locks sh) ds)) shards)"

definition cleanup_expired_locks :: "sharding \<Rightarrow> departing list list \<Rightarrow> lock action list" where
  "cleanup_expired_locks sh shards = sweep_locks sh shards"

definition cleanup_inactive_locks :: "sharding \<Rightarrow> departing list list \<Rightarrow> lock action list" where
  "cleanup_inactive_locks sh shards = sweep_locks sh shards"

definition cleanup_orphaned_senders_locks :: "sharding \<Rightarrow> departing list list \<Rightarrow> lock action list" where
  "cleanup_orphaned_senders_locks sh shards = sweep_locks sh shards"

subsection \<open>Methods of the rate limiter\<close>

definition check_allocation_request_locks :: "sharding \<Rightarrow> ip_addr \<Rightarrow> lock action list" where
  "check_allocation_request_locks sh ip = brief Exclusive (Limiter_Entries (limiter_shard sh ip))"

definition cancel_reservation_locks :: "sharding \<Rightarrow> ip_addr \<Rightarrow> lock action list" where
  "cancel_reservation_locks sh ip = brief Exclusive (Limiter_Entries (limiter_shard sh ip))"

definition record_deallocation_locks :: "sharding \<Rightarrow> ip_addr \<Rightarrow> lock action list" where
  "record_deallocation_locks sh ip = brief Exclusive (Limiter_Entries (limiter_shard sh ip))"

definition allocation_count_locks :: "sharding \<Rightarrow> ip_addr \<Rightarrow> lock action list" where
  "allocation_count_locks sh ip = brief Shared (Limiter_Entries (limiter_shard sh ip))"

definition limiter_cleanup_locks :: "sharding \<Rightarrow> lock action list" where
  "limiter_cleanup_locks sh =
    retain_locks Exclusive Limiter_Entries (replicate (shard_amount sh) [])"

subsection \<open>Calls and tasks\<close>

text \<open>
  What a task does between two awaits. The handler, the engine and the server call methods of an
  allocation while they hold its guard, never a method of the table or the limiter, so a packet
  handler is a list of these calls with awaits between them.
\<close>

datatype call =
    Create_Or_Get socket_addr "(allocation_id \<times> bool) option"
  | Get allocation_id "alloc_call list"
  | Get_By_Client socket_addr "allocation_id option" "alloc_call list"
  | Is_Client socket_addr
  | Lookup_By_Peer_Tuple socket_addr
  | Lookup_By_Source socket_addr bool
  | Register_Ice_Ufrags allocation_id rstring ufrag_path
  | Lookup_By_Ice_Ufrag rstring
  | Find_Ice_Peer rstring "(allocation_id \<times> bool) option"
  | Lookup_By_Peer_Ip ip_addr
  | Lookup_By_Peer_Addr socket_addr bool
  | Add_Permission allocation_id ip_addr bool
  | Try_Add_Permissions_Capped allocation_id "ip_addr list" "bool option"
  | Register_Peer_Tuple allocation_id socket_addr bool
  | Remove allocation_id "departing option"
  | Cleanup_Channel_Bindings "(allocation_id \<times> (channel \<times> socket_addr) list) list list"
  | Cleanup_Permissions "(allocation_id \<times> (ip_addr \<times> bool) list) list list"
  | Cleanup_Expired "departing list list"
  | Cleanup_Inactive "departing list list"
  | Cleanup_Orphaned_Senders "departing list list"
  | Check_Allocation_Request ip_addr
  | Cancel_Reservation ip_addr
  | Record_Deallocation ip_addr
  | Allocation_Count ip_addr
  | Limiter_Cleanup

fun call_locks :: "sharding \<Rightarrow> call \<Rightarrow> lock action list" where
  "call_locks sh (Create_Or_Get a r) = create_or_get_locks sh a r"
| "call_locks sh (Get i cs) = get_locks sh i cs"
| "call_locks sh (Get_By_Client a r cs) = get_by_client_locks sh a r cs"
| "call_locks sh (Is_Client a) = is_client_locks sh a"
| "call_locks sh (Lookup_By_Peer_Tuple a) = lookup_by_peer_tuple_locks sh a"
| "call_locks sh (Lookup_By_Source a hit) = lookup_by_source_locks sh a hit"
| "call_locks sh (Register_Ice_Ufrags i u p) = register_ice_ufrags_locks sh i u p"
| "call_locks sh (Lookup_By_Ice_Ufrag u) = lookup_by_ice_ufrag_locks sh u"
| "call_locks sh (Find_Ice_Peer u r) = find_ice_peer_locks sh u r"
| "call_locks sh (Lookup_By_Peer_Ip ip) = lookup_by_peer_ip_locks sh ip"
| "call_locks sh (Lookup_By_Peer_Addr a hit) = lookup_by_peer_addr_locks sh a hit"
| "call_locks sh (Add_Permission i ip b) = add_permission_locks sh i ip b"
| "call_locks sh (Try_Add_Permissions_Capped i ips r) = try_add_permissions_capped_locks sh i ips r"
| "call_locks sh (Register_Peer_Tuple i a b) = register_peer_tuple_locks sh i a b"
| "call_locks sh (Remove i d) = remove_locks sh i d"
| "call_locks sh (Cleanup_Channel_Bindings es) = cleanup_channel_bindings_locks sh es"
| "call_locks sh (Cleanup_Permissions es) = cleanup_permissions_locks sh es"
| "call_locks sh (Cleanup_Expired ds) = cleanup_expired_locks sh ds"
| "call_locks sh (Cleanup_Inactive ds) = cleanup_inactive_locks sh ds"
| "call_locks sh (Cleanup_Orphaned_Senders ds) = cleanup_orphaned_senders_locks sh ds"
| "call_locks sh (Check_Allocation_Request ip) = check_allocation_request_locks sh ip"
| "call_locks sh (Cancel_Reservation ip) = cancel_reservation_locks sh ip"
| "call_locks sh (Record_Deallocation ip) = record_deallocation_locks sh ip"
| "call_locks sh (Allocation_Count ip) = allocation_count_locks sh ip"
| "call_locks sh Limiter_Cleanup = limiter_cleanup_locks sh"

text \<open>One round of the cleanup task: the tick it awaits, the three sweeps, each followed by the
  release of the quota slots of the addresses it returned, and the three passes after them.\<close>

definition cleanup_round ::
  "departing list list \<Rightarrow> departing list list \<Rightarrow> departing list list
     \<Rightarrow> (allocation_id \<times> (channel \<times> socket_addr) list) list list
     \<Rightarrow> (allocation_id \<times> (ip_addr \<times> bool) list) list list \<Rightarrow> call op list" where
  "cleanup_round expired inactive orphaned bindings perms =
    (let release = (\<lambda>shards. map (\<lambda>d. Call (Record_Deallocation (sa_ip (d_client d)))) (concat shards))
     in Yield # Call (Cleanup_Expired expired) # release expired @
        Call (Cleanup_Inactive inactive) # release inactive @
        Call (Cleanup_Orphaned_Senders orphaned) # release orphaned @
        [Call (Cleanup_Channel_Bindings bindings), Call (Cleanup_Permissions perms),
         Call Limiter_Cleanup])"

subsection \<open>The order\<close>

text \<open>
  The order the code keeps: the primary map, then the locks inside an allocation over whose guards
  an index is changed, then the secondary indices, then the fragment locks set inside an entry of
  \<open>by_ice_ufrag\<close>; within a map, shards upwards.
\<close>

fun lock_class :: "lock \<Rightarrow> nat" where
  "lock_class (Allocations _) = 0"
| "lock_class (Limiter_Entries _) = 0"
| "lock_class (Permissions _) = 1"
| "lock_class (Known_Peers _ _) = 1"
| "lock_class (Channels _ _) = 1"
| "lock_class (Channels_Reverse _ _) = 1"
| "lock_class (By_Client _) = 2"
| "lock_class (By_Permission _) = 2"
| "lock_class (By_Peer_Tuple _) = 2"
| "lock_class (By_Ice_Ufrag _) = 2"
| "lock_class (Ice_Ufrag _) = 3"
| "lock_class (Ice_Remote_Ufrag _) = 3"

fun lock_shard :: "lock \<Rightarrow> nat" where
  "lock_shard (Allocations s) = s"
| "lock_shard (Limiter_Entries s) = s"
| "lock_shard (Known_Peers _ s) = s"
| "lock_shard (Channels _ s) = s"
| "lock_shard (Channels_Reverse _ s) = s"
| "lock_shard (By_Client s) = s"
| "lock_shard (By_Permission s) = s"
| "lock_shard (By_Peer_Tuple s) = s"
| "lock_shard (By_Ice_Ufrag s) = s"
| "lock_shard _ = 0"

definition before :: "lock \<Rightarrow> lock \<Rightarrow> bool" where
  "before l k \<longleftrightarrow> lock_class l < lock_class k \<or>
     lock_class l = lock_class k \<and> lock_shard l < lock_shard k"

text \<open>What is held is below class \<open>c\<close>.\<close>

definition under :: "nat \<Rightarrow> lock held \<Rightarrow> bool" where
  "under c held \<longleftrightarrow> list_all (\<lambda>(k, _). lock_class k < c) held"

section \<open>Every method keeps the order\<close>

lemma under_Nil [simp]: "under c []"
  and under_Cons [simp]: "under c ((l, m) # held) \<longleftrightarrow> lock_class l < c \<and> under c held"
  by (auto simp: under_def)

lemma under_mono: "under c held \<Longrightarrow> c \<le> d \<Longrightarrow> under d held"
  by (auto simp: under_def list_all_iff)

lemma keeps_under:
  assumes "under (lock_class l) held" "keeps before ((l, m) # held) body"
  shows "keeps before held (guarded m l body)"
  using assms by (intro keeps_guarded) (auto simp: before_def under_def list_all_iff)

lemma keeps_brief: "under (lock_class l) held \<Longrightarrow> keeps before held (brief m l)"
  by (simp add: keeps_under)

lemma keeps_retain:
  assumes "\<And>s. under (lock_class (lk s)) held"
    "\<And>s b. b \<in> set bodies \<Longrightarrow> keeps before ((lk s, m) # held) b"
  shows "keeps before held (retain_locks m lk bodies)"
  unfolding retain_locks_def
  using assms by (auto intro!: keeps_concat keeps_under simp: in_set_enumerate_eq)

lemma track_walk:
  assumes "\<And>s. lock_class (lk s) = c" "\<And>s. lock_shard (lk s) = s" "under c held"
    "\<And>s b. b \<in> set (body # bodies) \<Longrightarrow> keeps before ((lk s, m) # held) b"
  shows "track before ((lk s, m) # held) (walk m lk s body bodies) = Some held"
  using assms(4)
proof (induction bodies arbitrary: s body)
  case Nil
  have "filter (\<lambda>(k, _). k \<noteq> lk s) held = held"
    using assms(1,3) by (auto simp: filter_id_conv under_def list_all_iff)
  with Nil [of body s] show ?case by (simp add: keeps_def track_append)
next
  case (Cons b bodies)
  have apart: "filter (\<lambda>(k, _). k \<noteq> lk s) held = held"
    using assms(1,3) by (auto simp: filter_id_conv under_def list_all_iff)
  have "lk (Suc s) \<noteq> lk s" using assms(2) by (metis n_not_Suc_n)
  moreover have "list_all (\<lambda>(k, _). before k (lk (Suc s))) ((lk s, m) # held)"
    using assms(1-3) by (auto simp: before_def under_def list_all_iff)
  moreover have "track before ((lk s, m) # held) body = Some ((lk s, m) # held)"
    using Cons.prems [of body s] by (simp add: keeps_def)
  moreover have "track before ((lk (Suc s), m) # held) (walk m lk (Suc s) b bodies) = Some held"
    by (rule Cons.IH) (use Cons.prems in auto)
  ultimately show ?case using apart by (simp add: track_append)
qed

lemma keeps_iter:
  assumes "\<And>s. lock_class (lk s) = c" "\<And>s. lock_shard (lk s) = s" "under c held"
    "\<And>s b. b \<in> set bodies \<Longrightarrow> keeps before ((lk s, Shared) # held) b"
  shows "keeps before held (iter_locks sh lk bodies)"
proof (cases bodies)
  case (Cons b bs)
  have "list_all (\<lambda>(k, _). before k (lk 0)) held"
    using assms(1,3) by (auto simp: before_def under_def list_all_iff)
  moreover have "track before ((lk 0, Shared) # held) (walk Shared lk 0 b bs) = Some held"
    by (rule track_walk [where c = c]) (use assms Cons in auto)
  moreover have "keeps before held (retain_locks Shared lk bodies)"
    using assms by (intro keeps_retain) auto
  ultimately show ?thesis by (auto simp: iter_locks_def Cons keeps_def)
qed (simp add: iter_locks_def)

lemmas alloc_locks_defs = set_ice_ufrag_locks_def get_ice_ufrag_locks_def
  set_ice_remote_ufrag_locks_def get_ice_remote_ufrag_locks_def is_permitted_locks_def
  alloc_add_permission_locks_def permissions_count_locks_def cleanup_expired_permissions_locks_def
  bind_channel_locks_def channel_for_peer_locks_def peer_for_channel_locks_def set_ufrags_locks_def

lemmas index_locks_defs = remove_from_permission_index_locks_def index_permission_locks_def
  lookup_by_peer_ip_locks_def

lemmas keeps_intros = keeps_append keeps_concat keeps_under keeps_brief

lemma channels_iter_keeps:
  "under 1 held \<Longrightarrow> keeps before held (iter_locks sh (Channels i) (replicate n []))"
  by (rule keeps_iter [where c = 1]) auto

lemma alloc_call_keeps: "under 1 held \<Longrightarrow> keeps before held (alloc_call_locks sh i c)"
  using under_mono [of 1 held 3]
  by (cases c) (auto simp: alloc_locks_defs channels_count_locks_def channels_iter_keeps
      intro!: keeps_intros split: option.splits)

lemma cleanup_expired_channels_keeps:
  "under 1 held \<Longrightarrow> keeps before held (cleanup_expired_channels_locks sh i lapsed)"
  by (auto simp: cleanup_expired_channels_locks_def channels_iter_keeps intro!: keeps_intros)

lemma unlink_keeps: "under 1 held \<Longrightarrow> keeps before held (unlink_locks sh d)"
  using under_mono [of 1 held 2] under_mono [of 1 held 3] unfolding unlink_locks_def
  by (auto simp: alloc_locks_defs index_locks_defs
      intro!: keeps_intros keeps_iter [where c = 1] split: option.splits)

lemma sweep_keeps: "keeps before [] (sweep_locks sh shards)"
  unfolding sweep_locks_def by (rule keeps_retain) (auto intro!: keeps_concat unlink_keeps)

lemmas table_locks_defs = create_or_get_locks_def get_locks_def get_by_client_locks_def
  is_client_locks_def lookup_by_peer_tuple_locks_def lookup_by_source_locks_def
  register_ice_ufrags_locks_def lookup_by_ice_ufrag_locks_def find_ice_peer_locks_def
  lookup_by_peer_addr_locks_def add_permission_locks_def try_add_permissions_capped_locks_def
  register_peer_tuple_locks_def remove_locks_def cleanup_channel_bindings_locks_def
  cleanup_permissions_locks_def cleanup_expired_locks_def cleanup_inactive_locks_def
  cleanup_orphaned_senders_locks_def check_allocation_request_locks_def cancel_reservation_locks_def
  record_deallocation_locks_def allocation_count_locks_def limiter_cleanup_locks_def

lemma call_keeps: "keeps before [] (call_locks sh c)"
  by (cases c) (auto simp: table_locks_defs alloc_locks_defs index_locks_defs Let_def
      intro!: keeps_intros alloc_call_keeps unlink_keeps sweep_keeps cleanup_expired_channels_keeps
        keeps_iter [where c = 0] keeps_retain split: option.splits ufrag_path.splits)

interpretation table_locks: lock_order before "call_locks sh" for sh
  by unfold_locales (auto simp: before_def call_keeps)

section \<open>Tasks\<close>

definition demo_sharding :: sharding where
  "demo_sharding = \<lparr>allocations_shard = (\<lambda>i. i mod 2), by_client_shard = (\<lambda>_. 0),
     by_permission_shard = (\<lambda>_. 0), by_peer_tuple_shard = (\<lambda>_. 1), by_ice_ufrag_shard = (\<lambda>_. 0),
     known_peers_shard = (\<lambda>_ _. 1), channels_shard = (\<lambda>_ _. 0), channels_reverse_shard = (\<lambda>_ _. 0),
     limiter_shard = (\<lambda>_. 0), shard_amount = 2, overlap = True\<rparr>"

definition demo_departing :: departing where
  "demo_departing = \<lparr>d_id = 1, d_client = demo_client, d_ufrag = Some [7],
     d_permissions = [(sa_ip demo_peer, True)], d_known_peers = [[], [demo_peer]]\<rparr>"

text \<open>A round of the cleanup task that reaps an allocation, beside the ChannelBind of its client.\<close>

definition demo_jobs :: "call op list list" where
  "demo_jobs =
    [cleanup_round [[], [demo_departing]] [[], []] [[], []] [[], []] [[], []],
     [Call (Get_By_Client demo_client (Some 1) []),
      Call (Get 1 [Peer_For_Channel 0x4000, Channel_For_Peer demo_peer None, Channels_Count]),
      Call (Try_Add_Permissions_Capped 1 [sa_ip demo_peer] (Some True)),
      Call (Get 1 [Bind_Channel 0x4000 demo_peer None None]), Yield]]"

abbreviation demo_start :: "lock machine" where
  "demo_start \<equiv> start 2 (map (program (call_locks demo_sharding)) demo_jobs)"

text \<open>The ChannelBind holds its guard while the sweep waits for the shard.\<close>

definition demo_contended :: "lock machine" where
  "demo_contended = the (replay False [0, 0, 0, 0, 0, 1, 1, 1, 1] demo_start)"

lemma demo_contended_moves: "lock_moves False 9 demo_start demo_contended"
proof -
  let ?order = "[0, 0, 0, 0, 0, 1, 1, 1, 1]"
  have "replay False ?order demo_start \<noteq> None" by code_simp
  moreover have "length ?order = 9" by simp
  ultimately show ?thesis unfolding demo_contended_def by (metis option.collapse replay_moves)
qed

text \<open>
  The order matters. A \<open>get_by_client\<close> that kept the \<open>by_client\<close> guard while it took the
  \<open>allocations\<close> guard would deadlock against a sweep, and a handler that awaited a send with a
  guard alive would, on one worker, deadlock against it as well: the two faults the comments in
  \<open>table.rs\<close> and \<open>engine.rs\<close> warn of.
\<close>

lemma inverted_order_deadlocks:
  "\<exists>s. lock_moves False 6 (start 2 [guarded Shared (By_Client 0) (brief Shared (Allocations 1)),
      program (call_locks demo_sharding) [Call (Cleanup_Expired [[], [demo_departing]])]]) s \<and>
    stuck True s \<and> stuck False s \<and> \<not> all_finished s"
  by (rule replay_reaches [where order = "[0, 0, 1, 1, 1, 1]"]) code_simp+

lemma guard_across_await_deadlocks:
  "\<exists>s. lock_moves False 6 (start 1 [guarded Shared (Allocations 1) [Await],
      program (call_locks demo_sharding) [Call (Cleanup_Expired [[], [demo_departing]])]]) s \<and>
    stuck True s \<and> stuck False s \<and> \<not> all_finished s"
  by (rule replay_reaches [where order = "[0, 0, 0, 1, 1, 1]"]) code_simp+

text \<open>
  C3. The lock order of the allocation table rules out deadlock. Take any number of worker threads
  (at least one) and any tasks that call methods of the table, of an allocation behind its guard and
  of the rate limiter, on any branch, with awaits between the calls. After any run of them, whatever
  policy the locks follow, a task that is suspended or done holds no lock, and either every task
  has finished or some task can take a step, even when readers queue behind waiting writers. A run
  has at most as many steps as the tasks weigh, so every run that goes on as long as it can ends
  with every task finished. A task that never ends, such as the receive loop, is covered by the
  calls it has made so far and the one it is in.
\<close>

theorem no_deadlock:
  assumes "0 < w" "lock_moves fair n (start w (map (program (call_locks sh)) jobs)) s"
  shows "n \<le> machine_weight (start w (map (program (call_locks sh)) jobs)) \<and>
    list_all (\<lambda>t. phase t = Running \<or> holding t = []) (tasks s) \<and>
    (all_finished s \<or> (\<exists>s'. lock_step True s s'))"
  using moves_weight [OF assms(2)] table_locks.deadlock_free [OF assms]
    table_locks.suspended_holds_nothing [OF assms(2)]
  by (auto simp: list_all_iff)

theorem no_deadlock_witness:
  "9 \<le> machine_weight demo_start \<and>
    list_all (\<lambda>t. phase t = Running \<or> holding t = []) (tasks demo_contended) \<and>
    (all_finished demo_contended \<or> (\<exists>s'. lock_step True demo_contended s'))"
  using no_deadlock [OF _ demo_contended_moves] by simp

end
