(* ===== verification/Create_Race.thy ===== *)
theory Create_Race
  imports Alloc_Table
begin

text \<open>
  Concurrent calls of \<open>create_or_get\<close>. The method holds no guard over its whole body: it looks
  for the client, builds an allocation with an id drawn from the process-wide counter, inserts it,
  claims the client's slot through the entry API, and takes its allocation out again when another
  call has claimed the slot first. Here each of these is a step of its own, and the steps of any
  number of calls interleave in any order.
\<close>

section \<open>Definitions\<close>

record create_request =
  cr_now :: u64
  cr_client :: socket_addr
  cr_user :: rstring
  cr_lifetime :: u32
  cr_txn :: bytes

text \<open>Where a call stands: at the fast path, before \<open>Allocation::new\<close>, before the insertion, before
  the claim, before the rollback, or back with its result.\<close>

datatype create_pc =
    CEnter
  | CDraw
  | CInsert allocation_id
  | CClaim allocation_id
  | CDiscard allocation_id allocation_id
  | CReturn allocation_id bool

definition allocation_for :: "create_request \<Rightarrow> allocation_id \<Rightarrow> allocation" where
  "allocation_for r i =
    new_allocation (cr_now r) i (cr_client r) (cr_user r) (cr_lifetime r) (cr_txn r)"

fun create_step :: "create_request \<Rightarrow> create_pc \<Rightarrow> alloc_table \<Rightarrow> (create_pc \<times> alloc_table) option" where
  "create_step r CEnter t =
    (case dm_get (by_client t) (cr_client r) of
       Some i \<Rightarrow> Some (CReturn i False, t)
     | None \<Rightarrow> Some (CDraw, t))"
| "create_step r CDraw t =
    Some (CInsert (id_counter t), t\<lparr>id_counter := add_u64 (id_counter t) 1\<rparr>)"
| "create_step r (CInsert i) t =
    Some (CClaim i, t\<lparr>allocations := dm_put i (allocation_for r i) (allocations t)\<rparr>)"
| "create_step r (CClaim i) t =
    (case dm_get (by_client t) (cr_client r) of
       Some existing \<Rightarrow> Some (CDiscard i existing, t)
     | None \<Rightarrow> Some (CReturn i True, t\<lparr>by_client := dm_put (cr_client r) i (by_client t)\<rparr>))"
| "create_step r (CDiscard i existing) t =
    Some (CReturn existing False, t\<lparr>allocations := dm_del i (allocations t)\<rparr>)"
| "create_step r (CReturn i created) t = None"

text \<open>A call on its own.\<close>

fun create_alone :: "nat \<Rightarrow> create_request \<Rightarrow> create_pc \<Rightarrow> alloc_table \<Rightarrow> create_pc \<times> alloc_table" where
  "create_alone 0 r pc t = (pc, t)"
| "create_alone (Suc n) r pc t =
    (case create_step r pc t of Some (pc', t') \<Rightarrow> create_alone n r pc' t' | None \<Rightarrow> (pc, t))"

record race =
  rc_table :: alloc_table
  rc_calls :: "(create_request \<times> create_pc) list"

definition race_start :: "alloc_table \<Rightarrow> create_request list \<Rightarrow> race" where
  "race_start t rs = \<lparr>rc_table = t, rc_calls = map (\<lambda>r. (r, CEnter)) rs\<rparr>"

inductive race_step :: "race \<Rightarrow> race \<Rightarrow> bool" where
  call_step: "\<lbrakk>j < length (rc_calls s); rc_calls s ! j = (r, pc);
      create_step r pc (rc_table s) = Some (pc', t')\<rbrakk>
    \<Longrightarrow> race_step s \<lparr>rc_table = t', rc_calls = (rc_calls s)[j := (r, pc')]\<rparr>"

inductive races :: "race \<Rightarrow> race \<Rightarrow> bool" where
  races_refl: "races s s"
| races_step: "\<lbrakk>races s s'; race_step s' s''\<rbrakk> \<Longrightarrow> races s s''"

fun returned :: "create_pc \<Rightarrow> bool" where
  "returned (CReturn _ _) = True"
| "returned _ = False"

definition race_over :: "race \<Rightarrow> bool" where
  "race_over s \<longleftrightarrow> list_all (\<lambda>(_, pc). returned pc) (rc_calls s)"

text \<open>How many calls for a client created its allocation.\<close>

definition creations :: "socket_addr \<Rightarrow> race \<Rightarrow> nat" where
  "creations c s =
    length (filter (\<lambda>(r, pc). cr_client r = c \<and> (case pc of CReturn _ True \<Rightarrow> True | _ \<Rightarrow> False)) (rc_calls s))"

text \<open>The calls in a given order of steps.\<close>

fun race_replay :: "nat list \<Rightarrow> race \<Rightarrow> race option" where
  "race_replay [] s = Some s"
| "race_replay (j # order) s =
    (if j < length (rc_calls s)
     then case rc_calls s ! j of (r, pc) \<Rightarrow>
       (case create_step r pc (rc_table s) of
          Some (pc', t') \<Rightarrow> race_replay order \<lparr>rc_table = t', rc_calls = (rc_calls s)[j := (r, pc')]\<rparr>
        | None \<Rightarrow> None)
     else None)"

section \<open>A call on its own is the atomic operation\<close>

lemma create_alone_exact:
  "create_alone 5 r CEnter t =
    (let ((i, created), t') = create_or_get (cr_now r) (cr_client r) (cr_user r) (cr_lifetime r) (cr_txn r) t
     in (CReturn i created, t'))"
  by (auto simp: create_or_get_def allocation_for_def Let_def eval_nat_numeral split: option.splits)

section \<open>The invariant\<close>

text \<open>The id a call has drawn and not given up, and the allocation it has inserted and not indexed.\<close>

fun drawn :: "create_pc \<Rightarrow> allocation_id option" where
  "drawn (CInsert i) = Some i"
| "drawn (CClaim i) = Some i"
| "drawn (CDiscard i _) = Some i"
| "drawn (CReturn i created) = (if created then Some i else None)"
| "drawn _ = None"

fun pending :: "create_pc \<Rightarrow> allocation_id option" where
  "pending (CClaim i) = Some i"
| "pending (CDiscard i _) = Some i"
| "pending _ = None"

fun undrawn :: "create_pc \<Rightarrow> nat" where
  "undrawn CEnter = 1"
| "undrawn CDraw = 1"
| "undrawn _ = 0"

text \<open>The table without the allocations that are not indexed yet.\<close>

definition settled :: "allocation_id set \<Rightarrow> alloc_table \<Rightarrow> alloc_table" where
  "settled P t = t\<lparr>allocations := filter (\<lambda>(i, _). i \<notin> P) (allocations t)\<rparr>"

definition pending_ids :: "(create_request \<times> create_pc) list \<Rightarrow> allocation_id set" where
  "pending_ids calls = {i. \<exists>j < length calls. pending (snd (calls ! j)) = Some i}"

fun pc_ok :: "alloc_table \<Rightarrow> alloc_table \<Rightarrow> create_request \<Rightarrow> create_pc \<Rightarrow> bool" where
  "pc_ok t0 t r (CInsert i) \<longleftrightarrow> dm_get (allocations t) i = None"
| "pc_ok t0 t r (CClaim i) \<longleftrightarrow> dm_get (allocations t) i = Some (allocation_for r i)"
| "pc_ok t0 t r (CDiscard i existing) \<longleftrightarrow> dm_get (allocations t) i = Some (allocation_for r i) \<and>
     dm_get (by_client t) (cr_client r) = Some existing"
| "pc_ok t0 t r (CReturn i created) \<longleftrightarrow> dm_get (by_client t) (cr_client r) = Some i \<and>
     (created \<longrightarrow> dm_get (allocations t) i = Some (allocation_for r i) \<and>
        dm_get (by_client t0) (cr_client r) = None)"
| "pc_ok t0 t r _ \<longleftrightarrow> True"

definition calls_ok :: "alloc_table \<Rightarrow> race \<Rightarrow> bool" where
  "calls_ok t0 s \<longleftrightarrow>
    (\<forall>j < length (rc_calls s). pc_ok t0 (rc_table s) (fst (rc_calls s ! j)) (snd (rc_calls s ! j)))"

definition ids_ok :: "alloc_table \<Rightarrow> race \<Rightarrow> bool" where
  "ids_ok t0 s \<longleftrightarrow>
    id_counter t0 \<le> id_counter (rc_table s) \<and>
    id_counter (rc_table s) + sum_list (map (undrawn \<circ> snd) (rc_calls s)) < 2 ^ 64 \<and>
    (\<forall>j < length (rc_calls s). \<forall>i. drawn (snd (rc_calls s ! j)) = Some i \<longrightarrow>
       id_counter t0 \<le> i \<and> i < id_counter (rc_table s) \<and>
       (\<forall>k < length (rc_calls s). drawn (snd (rc_calls s ! k)) = Some i \<longrightarrow> k = j))"

definition clients_grow :: "alloc_table \<Rightarrow> race \<Rightarrow> bool" where
  "clients_grow t0 s \<longleftrightarrow>
    (\<forall>c i. dm_get (by_client t0) c = Some i \<longrightarrow> dm_get (by_client (rc_table s)) c = Some i) \<and>
    (\<forall>c i. dm_get (by_client (rc_table s)) c = Some i \<longrightarrow> dm_get (by_client t0) c = None \<longrightarrow>
       (\<exists>r. (r, CReturn i True) \<in> set (rc_calls s) \<and> cr_client r = c)) \<and>
    (\<forall>i < id_counter t0. dm_get (allocations (rc_table s)) i = dm_get (allocations t0) i)"

definition race_inv :: "alloc_table \<Rightarrow> race \<Rightarrow> bool" where
  "race_inv t0 s \<longleftrightarrow> table_inv (settled (pending_ids (rc_calls s)) (rc_table s)) \<and>
     dm_wf (allocations (rc_table s)) \<and> calls_ok t0 s \<and> ids_ok t0 s \<and> clients_grow t0 s"

section \<open>One step\<close>

lemma step_allocations:
  "\<lbrakk>create_step r pc t = Some (pc', t'); drawn pc \<noteq> Some i\<rbrakk>
    \<Longrightarrow> dm_get (allocations t') i = dm_get (allocations t) i"
  by (cases pc) (auto split: option.splits)

lemma step_clients:
  "\<lbrakk>create_step r pc t = Some (pc', t'); dm_get (by_client t) c = Some i\<rbrakk>
    \<Longrightarrow> dm_get (by_client t') c = Some i"
  by (cases pc) (auto split: option.splits)

lemma step_wf: "\<lbrakk>create_step r pc t = Some (pc', t'); dm_wf (allocations t)\<rbrakk> \<Longrightarrow> dm_wf (allocations t')"
  by (cases pc) (auto split: option.splits)

lemma step_drawn:
  "\<lbrakk>create_step r pc t = Some (pc', t'); drawn pc' = Some i\<rbrakk>
    \<Longrightarrow> drawn pc = Some i \<or> pc = CDraw \<and> i = id_counter t"
  by (cases pc) (auto split: option.splits)

lemma step_counter:
  "\<lbrakk>create_step r pc t = Some (pc', t'); id_counter t + undrawn pc < 2 ^ 64\<rbrakk>
    \<Longrightarrow> id_counter t \<le> id_counter t' \<and> id_counter t' + undrawn pc' \<le> id_counter t + undrawn pc \<and>
        (pc = CDraw \<longrightarrow> id_counter t < id_counter t')"
  by (cases pc) (auto simp: add_u64_exact split: option.splits)

lemma pc_ok_stable:
  assumes "pc_ok t0 t r pc" "\<And>c i. dm_get (by_client t) c = Some i \<Longrightarrow> dm_get (by_client t') c = Some i"
    "\<And>i. drawn pc = Some i \<Longrightarrow> dm_get (allocations t') i = dm_get (allocations t) i"
  shows "pc_ok t0 t' r pc"
  using assms by (cases pc) (auto split: if_splits)

lemma settled_get:
  "dm_wf (allocations t) \<Longrightarrow>
    dm_get (allocations (settled P t)) i = (if i \<in> P then None else dm_get (allocations t) i)"
  by (simp add: settled_def dm_get_filter [of _ "\<lambda>i _. i \<notin> P"] split: option.splits)

lemma settled_frame [simp]:
  "by_client (settled P t) = by_client t" "by_permission (settled P t) = by_permission t"
  "by_peer_tuple (settled P t) = by_peer_tuple t" "by_ice_ufrag (settled P t) = by_ice_ufrag t"
  "id_counter (settled P t) = id_counter t"
  "dm_wf (allocations t) \<Longrightarrow> dm_wf (allocations (settled P t))"
  by (simp_all add: settled_def dm_wf_filter)

text \<open>Only the counter grows, and the primary map holds the same.\<close>

lemma table_inv_same:
  assumes "table_inv t" "\<And>i. dm_get (allocations t') i = dm_get (allocations t) i"
    "dm_wf (allocations t')" "by_client t' = by_client t" "by_permission t' = by_permission t"
    "by_peer_tuple t' = by_peer_tuple t" "by_ice_ufrag t' = by_ice_ufrag t" "id_counter t \<le> id_counter t'"
  shows "table_inv t'"
proof -
  have "table_inv (t\<lparr>id_counter := id_counter t'\<rparr>)"
    using assms(1,8)
    by (force simp: table_inv_def table_wf_def allocs_ok_def clients_ok_def ufrags_ok_def perms_ok_def
        perm_index_wf_def lookup_by_peer_ip_def holds_permission_def tuples_ok_def knows_peer_def)
  then show ?thesis
    by (rule neutral_step_inv [where f = "\<lambda>_ a. a"]) (use assms in \<open>auto simp: neutral_id option.map_ident\<close>)
qed

lemma settled_step:
  assumes inv: "table_inv (settled (others \<union> set_option (pending pc)) t)" and wf: "dm_wf (allocations t)"
    and step: "create_step r pc t = Some (pc', t')" and ok: "pc_ok t0 t r pc"
    and ids: "\<And>i. drawn pc = Some i \<Longrightarrow> i \<notin> others \<and> i < id_counter t"
    and room: "id_counter t + undrawn pc < 2 ^ 64"
  shows "table_inv (settled (others \<union> set_option (pending pc')) t')"
proof -
  note wf' = step_wf [OF step wf]
  consider (claimed) i where "pc = CClaim i" "dm_get (by_client t) (cr_client r) = None"
    | (quiet) "by_client t' = by_client t"
      "\<forall>i. dm_get (allocations (settled (others \<union> set_option (pending pc')) t')) i =
        dm_get (allocations (settled (others \<union> set_option (pending pc)) t)) i"
      "by_permission t' = by_permission t" "by_peer_tuple t' = by_peer_tuple t"
      "by_ice_ufrag t' = by_ice_ufrag t"
    using step ok ids by (cases pc) (auto simp: settled_get wf wf' split: option.splits)
  then show ?thesis
  proof cases
    case claimed
    with step have t': "pc' = CReturn i True" "t' = t\<lparr>by_client := dm_put (cr_client r) i (by_client t)\<rparr>"
      by simp_all
    show ?thesis
      by (rule enter_inv [OF inv, where client = "cr_client r" and i = i and now = "cr_now r"
            and user = "cr_user r" and lifetime = "cr_lifetime r" and txn = "cr_txn r"])
        (use claimed ids [of i] ok wf in \<open>auto simp: t' settled_get allocation_for_def\<close>)
  next
    case quiet
    with step_counter [OF step room] wf' show ?thesis
      by (intro table_inv_same [OF inv]) simp_all
  qed
qed

section \<open>Every interleaving\<close>

definition others_pending :: "nat \<Rightarrow> (create_request \<times> create_pc) list \<Rightarrow> allocation_id set" where
  "others_pending j calls = {i. \<exists>k < length calls. k \<noteq> j \<and> pending (snd (calls ! k)) = Some i}"

lemma pending_ids_update:
  "j < length calls \<Longrightarrow>
    pending_ids (calls[j := x]) = others_pending j calls \<union> set_option (pending (snd x))"
  by (auto simp: pending_ids_def others_pending_def nth_list_update split: if_splits)

lemma pending_ids_split:
  "j < length calls \<Longrightarrow> pending_ids calls = others_pending j calls \<union> set_option (pending (snd (calls ! j)))"
  using pending_ids_update [of j calls "calls ! j"] by simp

lemma pending_drawn: "pending pc = Some i \<Longrightarrow> drawn pc = Some i"
  by (cases pc) auto

lemma undrawn_le: "j < length calls \<Longrightarrow> undrawn (snd (calls ! j)) \<le> sum_list (map (undrawn \<circ> snd) calls)"
  by (rule member_le_sum_list) auto

lemma ids_ok_drawn:
  "\<lbrakk>ids_ok t0 s; j < length (rc_calls s); drawn (snd (rc_calls s ! j)) = Some i\<rbrakk>
    \<Longrightarrow> id_counter t0 \<le> i \<and> i < id_counter (rc_table s) \<and>
        (\<forall>k < length (rc_calls s). drawn (snd (rc_calls s ! k)) = Some i \<longrightarrow> k = j)"
  unfolding ids_ok_def by blast

lemma step_new_client:
  "\<lbrakk>create_step r pc t = Some (pc', t'); dm_get (by_client t') c = Some i; dm_get (by_client t) c \<noteq> Some i\<rbrakk>
    \<Longrightarrow> pc' = CReturn i True \<and> cr_client r = c"
  by (cases pc) (auto split: option.splits if_splits)

text \<open>A call that can step has not returned, so those that have are still there after its step.\<close>

lemma returned_stay:
  "\<lbrakk>create_step r pc t = Some (pc', t'); calls ! j = (r, pc); (q, CReturn i b) \<in> set calls\<rbrakk>
    \<Longrightarrow> (q, CReturn i b) \<in> set (calls[j := (r, pc')])"
  unfolding in_set_conv_nth length_list_update nth_list_update
  by (metis create_step.simps(6) nth_list_update_neq option.distinct(1) prod.inject)

lemma pc_ok_step:
  assumes "create_step r pc t = Some (pc', t')" "pc_ok t0 t r pc"
    "dm_get (by_client t) (cr_client r) = None \<Longrightarrow> dm_get (by_client t0) (cr_client r) = None"
    "dm_get (allocations t) (id_counter t) = None"
  shows "pc_ok t0 t' r pc'"
  using assms by (cases pc) (auto split: option.splits)

lemma counter_free:
  assumes "race_inv t0 s"
  shows "dm_get (allocations (rc_table s)) (id_counter (rc_table s)) = None"
proof -
  have wf: "dm_wf (allocations (rc_table s))" and ids: "ids_ok t0 s"
    and inv: "table_inv (settled (pending_ids (rc_calls s)) (rc_table s))"
    using assms by (simp_all add: race_inv_def)
  have "id_counter (rc_table s) \<notin> pending_ids (rc_calls s)"
    using ids_ok_drawn [OF ids] by (fastforce simp: pending_ids_def dest: pending_drawn)
  with fresh_id [OF inv] show ?thesis by (simp add: settled_get wf)
qed

lemma clients_grow_step:
  assumes grow: "clients_grow t0 s" and j: "j < length (rc_calls s)" "rc_calls s ! j = (r, pc)"
    and step: "create_step r pc (rc_table s) = Some (pc', t')"
    and new: "\<And>i. drawn pc = Some i \<Longrightarrow> id_counter t0 \<le> i"
  shows "clients_grow t0 \<lparr>rc_table = t', rc_calls = (rc_calls s)[j := (r, pc')]\<rparr>"
proof -
  have "\<exists>q. (q, CReturn i True) \<in> set ((rc_calls s)[j := (r, pc')]) \<and> cr_client q = c"
    if get: "dm_get (by_client t') c = Some i" "dm_get (by_client t0) c = None" for c i
  proof (cases "dm_get (by_client (rc_table s)) c = Some i")
    case True
    with grow get(2) obtain q where "(q, CReturn i True) \<in> set (rc_calls s)" "cr_client q = c"
      unfolding clients_grow_def by blast
    with returned_stay [OF step j(2)] show ?thesis by blast
  next
    case False
    with step_new_client [OF step get(1)] set_update_memI [OF j(1)] show ?thesis by blast
  qed
  moreover have "dm_get (allocations t') i = dm_get (allocations t0) i" if "i < id_counter t0" for i
    using grow that new [of i] step_allocations [OF step, of i] by (force simp: clients_grow_def)
  ultimately show ?thesis
    using grow step_clients [OF step] by (simp add: clients_grow_def)
qed

lemma race_room:
  "\<lbrakk>ids_ok t0 s; j < length (rc_calls s); rc_calls s ! j = (r, pc)\<rbrakk>
    \<Longrightarrow> id_counter (rc_table s) + undrawn pc < 2 ^ 64"
  using undrawn_le [of j "rc_calls s"] by (simp add: ids_ok_def)

lemma drawn_step:
  assumes ids: "ids_ok t0 s" and j: "j < length (rc_calls s)" "rc_calls s ! j = (r, pc)"
    and step: "create_step r pc (rc_table s) = Some (pc', t')" and i: "drawn pc' = Some i"
  shows "id_counter t0 \<le> i \<and> i < id_counter t' \<and>
    (\<forall>k < length (rc_calls s). k \<noteq> j \<longrightarrow> drawn (snd (rc_calls s ! k)) \<noteq> Some i)"
proof (cases "drawn pc = Some i")
  case True
  with ids_ok_drawn [OF ids j(1), of i] j(2) step_counter [OF step race_room [OF ids j]]
  show ?thesis by auto
next
  case False
  with step_drawn [OF step i] have "pc = CDraw" "i = id_counter (rc_table s)" by auto
  moreover have "id_counter t0 \<le> id_counter (rc_table s)" using ids by (simp add: ids_ok_def)
  moreover have "\<forall>k < length (rc_calls s). drawn (snd (rc_calls s ! k)) \<noteq> Some (id_counter (rc_table s))"
    using ids_ok_drawn [OF ids, of _ "id_counter (rc_table s)"] by blast
  ultimately show ?thesis using step_counter [OF step race_room [OF ids j]] by auto
qed

lemma ids_ok_step:
  assumes ids: "ids_ok t0 s" and j: "j < length (rc_calls s)" "rc_calls s ! j = (r, pc)"
    and step: "create_step r pc (rc_table s) = Some (pc', t')"
  shows "ids_ok t0 \<lparr>rc_table = t', rc_calls = (rc_calls s)[j := (r, pc')]\<rparr>"
proof -
  let ?t = "rc_table s" and ?calls = "rc_calls s" and ?calls' = "(rc_calls s)[j := (r, pc')]"
  note counter = step_counter [OF step race_room [OF ids j]] and old = ids_ok_drawn [OF ids]
  have sum: "sum_list (map (undrawn \<circ> snd) ?calls') + undrawn pc =
      sum_list (map (undrawn \<circ> snd) ?calls) + undrawn pc'"
    using j undrawn_le [OF j(1)] by (simp add: map_update sum_list_update)
  note mine = drawn_step [OF ids j step]
  have "id_counter t0 \<le> i \<and> i < id_counter t' \<and>
      (\<forall>l < length ?calls'. drawn (snd (?calls' ! l)) = Some i \<longrightarrow> l = k)"
    if k: "k < length ?calls'" "drawn (snd (?calls' ! k)) = Some i" for k i
  proof (cases "k = j")
    case True
    with k j mine [of i] show ?thesis by (auto simp: nth_list_update)
  next
    case False
    with k have kc: "k < length ?calls" "drawn (snd (?calls ! k)) = Some i" by simp_all
    with mine [of i] False have apart: "drawn pc' \<noteq> Some i" by blast
    have "l = k" if l: "l < length ?calls'" "drawn (snd (?calls' ! l)) = Some i" for l
    proof -
      from l apart j(1) have "l < length ?calls" "drawn (snd (?calls ! l)) = Some i"
        by (simp_all add: nth_list_update split: if_splits)
      with old [OF kc] show ?thesis by blast
    qed
    moreover have "id_counter t0 \<le> i" "i < id_counter t'"
      using old [OF kc] counter by linarith+
    ultimately show ?thesis by blast
  qed
  moreover have "id_counter t0 \<le> id_counter t'"
    "id_counter t' + sum_list (map (undrawn \<circ> snd) ?calls') < 2 ^ 64"
    using ids counter sum unfolding ids_ok_def by linarith+
  ultimately show ?thesis unfolding ids_ok_def race.select_convs by blast
qed

text \<open>The step of one call, in the state the invariant describes.\<close>

lemma race_inv_step:
  assumes inv: "race_inv t0 s" and j: "j < length (rc_calls s)" "rc_calls s ! j = (r, pc)"
    and step: "create_step r pc (rc_table s) = Some (pc', t')"
  shows "race_inv t0 \<lparr>rc_table = t', rc_calls = (rc_calls s)[j := (r, pc')]\<rparr>" (is "race_inv t0 ?s")
proof -
  let ?t = "rc_table s" and ?calls = "rc_calls s"
  have ok: "calls_ok t0 s" and ids: "ids_ok t0 s" and grow: "clients_grow t0 s"
    and wf: "dm_wf (allocations ?t)" and settled: "table_inv (settled (pending_ids ?calls) ?t)"
    using inv by (simp_all add: race_inv_def)
  have okj: "pc_ok t0 ?t r pc" using ok j by (auto simp: calls_ok_def)
  note room = race_room [OF ids j]
  have mine: "id_counter t0 \<le> i \<and> i < id_counter ?t \<and>
      (\<forall>k < length ?calls. k \<noteq> j \<longrightarrow> drawn (snd (?calls ! k)) \<noteq> Some i)" if "drawn pc = Some i" for i
    using ids_ok_drawn [OF ids j(1), of i] that j(2) by auto
  have "table_inv (settled (pending_ids (rc_calls ?s)) t')"
  proof -
    have "i \<notin> others_pending j ?calls \<and> i < id_counter ?t" if "drawn pc = Some i" for i
      using mine [OF that] by (auto simp: others_pending_def dest: pending_drawn)
    moreover have "table_inv (settled (others_pending j ?calls \<union> set_option (pending pc)) ?t)"
      using settled pending_ids_split [OF j(1)] j(2) by simp
    ultimately show ?thesis
      using settled_step [OF _ wf step okj _ room] pending_ids_update [OF j(1), of "(r, pc')"] by simp
  qed
  moreover have "calls_ok t0 ?s"
    unfolding calls_ok_def
  proof (intro allI impI)
    fix k assume k: "k < length (rc_calls ?s)"
    show "pc_ok t0 (rc_table ?s) (fst (rc_calls ?s ! k)) (snd (rc_calls ?s ! k))"
    proof (cases "k = j")
      case True
      have "dm_get (by_client ?t) (cr_client r) = None \<Longrightarrow> dm_get (by_client t0) (cr_client r) = None"
        using grow by (cases "dm_get (by_client t0) (cr_client r)") (auto simp: clients_grow_def)
      with True j pc_ok_step [OF step okj _ counter_free [OF inv]] show ?thesis by simp
    next
      case False
      with k ok have "pc_ok t0 ?t (fst (?calls ! k)) (snd (?calls ! k))" by (simp add: calls_ok_def)
      then have "pc_ok t0 t' (fst (?calls ! k)) (snd (?calls ! k))"
        by (rule pc_ok_stable) (use False k mine step_clients [OF step] step_allocations [OF step] in force)+
      with False show ?thesis by simp
    qed
  qed
  moreover have "ids_ok t0 ?s" by (rule ids_ok_step [OF ids j step])
  moreover have "clients_grow t0 ?s" using clients_grow_step [OF grow j step] mine by simp
  ultimately show ?thesis using step_wf [OF step wf] by (simp add: race_inv_def)
qed

lemma race_start_inv:
  assumes "table_inv t0" "id_counter t0 + length rs < 2 ^ 64"
  shows "race_inv t0 (race_start t0 rs)"
proof -
  have none: "pending_ids (rc_calls (race_start t0 rs)) = {}"
    by (auto simp: pending_ids_def race_start_def)
  have "settled {} t0 = t0" by (simp add: settled_def)
  moreover have "sum_list (map (undrawn \<circ> snd) (map (\<lambda>r. (r, CEnter)) rs)) = length rs"
    by (induction rs) auto
  ultimately show ?thesis
    using assms none
    by (auto simp: race_inv_def race_start_def calls_ok_def ids_ok_def clients_grow_def
        table_inv_def table_wf_def)
qed

lemma races_inv:
  "\<lbrakk>races s s'; race_inv t0 s\<rbrakk> \<Longrightarrow> race_inv t0 s' \<and> map fst (rc_calls s') = map fst (rc_calls s)"
proof (induction rule: races.induct)
  case (races_step s s' s'')
  then have inv: "race_inv t0 s'" by simp
  from races_step.hyps(2) show ?case
  proof cases
    case (call_step j r pc pc' t')
    from call_step(3) have "map fst ((rc_calls s')[j := (r, pc')]) = map fst (rc_calls s')"
      by (metis fst_conv list_update_id map_update)
    with call_step race_inv_step [OF inv call_step(2-4)] races_step show ?thesis by simp
  qed
qed simp

lemma race_over_iff: "race_over s \<longleftrightarrow> (\<forall>j < length (rc_calls s). returned (snd (rc_calls s ! j)))"
  by (simp add: race_over_def list_all_length case_prod_beta)

text \<open>A call that has not returned can always step, so a race that stops is over.\<close>

lemma race_progress: "race_over s \<or> (\<exists>s'. race_step s s')"
proof (cases "race_over s")
  case False
  then obtain j r pc where j: "j < length (rc_calls s)" "rc_calls s ! j = (r, pc)" "\<not> returned pc"
    unfolding race_over_iff by (metis prod.collapse)
  moreover from j(3) have "create_step r pc (rc_table s) \<noteq> None"
    by (cases pc) (auto split: option.splits)
  ultimately show ?thesis by (metis call_step not_None_eq surj_pair)
qed simp

text \<open>A call makes at most five steps, so every race ends.\<close>

fun steps_left :: "create_pc \<Rightarrow> nat" where
  "steps_left CEnter = 5"
| "steps_left CDraw = 4"
| "steps_left (CInsert _) = 3"
| "steps_left (CClaim _) = 2"
| "steps_left (CDiscard _ _) = 1"
| "steps_left (CReturn _ _) = 0"

lemma step_nearer: "create_step r pc t = Some (pc', t') \<Longrightarrow> steps_left pc' < steps_left pc"
  by (cases pc) (auto split: option.splits)

lemma race_step_nearer:
  "race_step s s' \<Longrightarrow>
    sum_list (map (steps_left \<circ> snd) (rc_calls s')) < sum_list (map (steps_left \<circ> snd) (rc_calls s))"
proof (induction rule: race_step.induct)
  case (call_step j s r pc pc' t')
  have "steps_left (snd (rc_calls s ! j)) \<le> sum_list (map (steps_left \<circ> snd) (rc_calls s))"
    by (rule member_le_sum_list) (use call_step(1) in auto)
  with call_step(1,2) step_nearer [OF call_step(3)] show ?case
    by (simp add: map_update sum_list_update o_def)
qed

lemma returned_pending: "returned pc \<Longrightarrow> pending pc = None"
  by (cases pc) auto

lemma race_over_pending: "race_over s \<Longrightarrow> pending_ids (rc_calls s) = {}"
  by (simp add: race_over_iff pending_ids_def returned_pending)

lemma race_over_call:
  assumes "race_inv t0 s" "race_over s" "j < length (rc_calls s)"
  shows "\<exists>r i created. rc_calls s ! j = (r, CReturn i created) \<and> pc_ok t0 (rc_table s) r (CReturn i created)"
proof -
  obtain r pc where j: "rc_calls s ! j = (r, pc)" by fastforce
  with assms have "returned pc" "pc_ok t0 (rc_table s) r pc"
    by (force simp: race_over_iff race_inv_def calls_ok_def)+
  with j show ?thesis by (cases pc) auto
qed

lemma race_over_table:
  assumes "race_inv t0 s" "race_over s"
  shows "table_inv (rc_table s)"
proof -
  have "settled {} (rc_table s) = rc_table s" by (simp add: settled_def)
  with assms race_over_pending [OF assms(2)] show ?thesis by (simp add: race_inv_def)
qed

text \<open>Two calls that created an allocation for one client are one call.\<close>

lemma creator_unique:
  assumes "race_inv t0 s" "j < length (rc_calls s)" "k < length (rc_calls s)"
    "rc_calls s ! j = (r, CReturn i True)" "rc_calls s ! k = (q, CReturn l True)" "cr_client r = cr_client q"
  shows "j = k"
proof -
  from assms have "pc_ok t0 (rc_table s) r (CReturn i True)" "pc_ok t0 (rc_table s) q (CReturn l True)"
    unfolding race_inv_def calls_ok_def by (metis fst_conv snd_conv)+
  with assms(6) have "i = l" by simp
  with ids_ok_drawn [of t0 s k l] assms show ?thesis by (auto simp: race_inv_def)
qed

definition creates :: "socket_addr \<Rightarrow> create_request \<times> create_pc \<Rightarrow> bool" where
  "creates c call \<longleftrightarrow> cr_client (fst call) = c \<and> (\<exists>i. snd call = CReturn i True)"

lemma creations_card: "creations c s = card {j. j < length (rc_calls s) \<and> creates c (rc_calls s ! j)}"
proof -
  have "(\<lambda>(r, pc). cr_client r = c \<and> (case pc of CReturn _ True \<Rightarrow> True | _ \<Rightarrow> False)) = creates c"
    by (auto simp: creates_def fun_eq_iff split: create_pc.splits bool.splits)
  then show ?thesis by (simp add: creations_def length_filter_conv_card)
qed

lemma creations_one:
  assumes inv: "race_inv t0 s" and j: "j < length (rc_calls s)" "creates c (rc_calls s ! j)"
  shows "creations c s = 1"
proof -
  have "k = j" if "k < length (rc_calls s)" "creates c (rc_calls s ! k)" for k
    using creator_unique [OF inv that(1) j(1)] that(2) j(2) unfolding creates_def
    by (metis prod.collapse)
  with j have "{k. k < length (rc_calls s) \<and> creates c (rc_calls s ! k)} = {j}" by blast
  then show ?thesis by (simp add: creations_card)
qed

lemma creations_exact:
  assumes inv: "race_inv t0 s" and over: "race_over s"
  shows "creations c s =
    (if c \<in> cr_client ` set (map fst (rc_calls s)) \<and> dm_get (by_client t0) c = None then 1 else 0)"
proof (cases "\<exists>j < length (rc_calls s). creates c (rc_calls s ! j)")
  case True
  then obtain j r i where j: "j < length (rc_calls s)" "rc_calls s ! j = (r, CReturn i True)" "cr_client r = c"
    unfolding creates_def by (metis prod.collapse)
  with race_over_call [OF inv over j(1)] have "dm_get (by_client t0) c = None" by auto
  moreover have "c \<in> cr_client ` set (map fst (rc_calls s))"
    using j by (metis fst_conv image_eqI image_set nth_mem)
  ultimately show ?thesis using creations_one [OF inv] True by auto
next
  case False
  then have "creations c s = 0" by (simp add: creations_card)
  moreover have "dm_get (by_client t0) c \<noteq> None" if "(r, pc) \<in> set (rc_calls s)" "cr_client r = c" for r pc
  proof
    assume new: "dm_get (by_client t0) c = None"
    from that(1) obtain j where "j < length (rc_calls s)" "rc_calls s ! j = (r, pc)"
      by (auto simp: in_set_conv_nth)
    with race_over_call [OF inv over] that(2) obtain i where "dm_get (by_client (rc_table s)) c = Some i"
      by force
    with inv new obtain q where "(q, CReturn i True) \<in> set (rc_calls s)" "cr_client q = c"
      unfolding race_inv_def clients_grow_def by blast
    then obtain k where "k < length (rc_calls s)" "creates c (rc_calls s ! k)"
      unfolding in_set_conv_nth creates_def by (metis fst_conv snd_conv)
    with False show False by blast
  qed
  ultimately show ?thesis by auto
qed

section \<open>The property\<close>

lemma race_replay_races: "race_replay order s = Some s' \<Longrightarrow> races s0 s \<Longrightarrow> races s0 s'"
proof (induction order s rule: race_replay.induct)
  case (2 j order s)
  from 2(2) obtain r pc pc' t' where step: "j < length (rc_calls s)" "rc_calls s ! j = (r, pc)"
      "create_step r pc (rc_table s) = Some (pc', t')"
      "race_replay order \<lparr>rc_table = t', rc_calls = (rc_calls s)[j := (r, pc')]\<rparr> = Some s'"
    by (auto split: if_splits prod.splits option.splits)
  from "2.IH" [OF step(1) step(2) [symmetric] step(3) refl step(4)
      races_step [OF "2.prems"(2) call_step [OF step(1-3)]]] show ?case .
qed simp

text \<open>Two calls for a new client that both miss the fast path, and one for a client that has an
  allocation; the second call claims the slot first and the first one discards its allocation.\<close>

definition demo_requests :: "create_request list" where
  "demo_requests =
    [\<lparr>cr_now = 5, cr_client = demo_peer, cr_user = str ''u'', cr_lifetime = 600, cr_txn = replicate 12 1\<rparr>,
     \<lparr>cr_now = 6, cr_client = demo_peer, cr_user = str ''u'', cr_lifetime = 600, cr_txn = replicate 12 2\<rparr>,
     \<lparr>cr_now = 7, cr_client = demo_client, cr_user = str ''u'', cr_lifetime = 600, cr_txn = replicate 12 3\<rparr>]"

definition demo_raced :: race where
  "demo_raced = the (race_replay [0, 1, 0, 0, 1, 1, 1, 0, 0, 2] (race_start demo_table demo_requests))"

lemma demo_known: "dm_get (by_client demo_table) demo_peer = None"
  "dm_get (by_client demo_table) demo_client \<noteq> None" "id_counter demo_table = 2"
  by (simp_all add: demo_table_def table_eval demo_client_def demo_peer_def)

lemma demo_replay: "\<exists>s. race_replay [0, 1, 0, 0, 1, 1, 1, 0, 0, 2] (race_start demo_table demo_requests) = Some s \<and>
    race_over s"
  using demo_known
  by (auto simp: race_start_def demo_requests_def race_over_def add_u64_exact)

lemma demo_raced_races: "races (race_start demo_table demo_requests) demo_raced" "race_over demo_raced"
  using demo_replay race_replay_races [OF _ races_refl] unfolding demo_raced_def by fastforce+

text \<open>
  C4. Concurrent Allocate requests cannot create two allocations for one client. Let any number of
  \<open>create_or_get\<close> calls run, their steps interleaved in any order, on a consistent table whose id
  counter has room for them. When all have returned the table is consistent again, with every index
  exact, so that no allocation of a call that lost the race is left behind; every call has returned
  the id under which the table now knows its client, and one that reports a creation has stored
  the allocation its own arguments describe; for each client exactly one call reports a creation if
  the client had no allocation before, and none otherwise; and the allocations that were there
  before are untouched.
\<close>

theorem concurrent_create_exact:
  assumes "table_inv t0" "id_counter t0 + length rs < 2 ^ 64" "races (race_start t0 rs) s" "race_over s"
  shows "table_inv (rc_table s) \<and>
    (\<forall>j < length rs. \<exists>i created. rc_calls s ! j = (rs ! j, CReturn i created) \<and>
       dm_get (by_client (rc_table s)) (cr_client (rs ! j)) = Some i \<and>
       (created \<longrightarrow> dm_get (allocations (rc_table s)) i = Some (allocation_for (rs ! j) i))) \<and>
    (\<forall>c. creations c s = (if c \<in> cr_client ` set rs \<and> dm_get (by_client t0) c = None then 1 else 0)) \<and>
    (\<forall>i < id_counter t0. dm_get (allocations (rc_table s)) i = dm_get (allocations t0) i)"
proof -
  from races_inv [OF assms(3) race_start_inv [OF assms(1,2)]]
  have inv: "race_inv t0 s" and rs: "map fst (rc_calls s) = rs" by (simp_all add: race_start_def o_def)
  have "\<exists>i created. rc_calls s ! j = (rs ! j, CReturn i created) \<and>
       dm_get (by_client (rc_table s)) (cr_client (rs ! j)) = Some i \<and>
       (created \<longrightarrow> dm_get (allocations (rc_table s)) i = Some (allocation_for (rs ! j) i))"
    if "j < length rs" for j
  proof -
    from that rs have j: "j < length (rc_calls s)" "fst (rc_calls s ! j) = rs ! j" by auto
    from race_over_call [OF inv assms(4) j(1)] j(2) show ?thesis by auto
  qed
  then show ?thesis
    using race_over_table [OF inv assms(4)] creations_exact [OF inv assms(4)] rs inv
    by (simp add: race_inv_def clients_grow_def)
qed

theorem concurrent_create_exact_witness:
  "table_inv (rc_table demo_raced) \<and> creations demo_peer demo_raced = 1 \<and> creations demo_client demo_raced = 0"
proof -
  have "id_counter demo_table + length demo_requests < 2 ^ 64"
    "demo_peer \<in> cr_client ` set demo_requests"
    by (simp_all add: demo_known demo_requests_def)
  with concurrent_create_exact [OF demo_table_inv _ demo_raced_races] demo_known show ?thesis by simp
qed

end
