(* ===== verification/Lease_Caps.thy ===== *)
theory Lease_Caps
  imports Runs
begin

text \<open>
  The caps on leases over whole runs: \<open>max_permissions_per_alloc\<close> and \<open>max_channels_per_alloc\<close> of
  the configuration. CreatePermission and ChannelBind check them; the permission for the relay
  address that a connectivity check installs (\<open>handle_binding_request\<close> in \<open>turn/handler.rs\<close>) does
  not, so an allocation may hold one permission more, and no other.
\<close>

section \<open>Definitions\<close>

definition live_permits :: "ip_addr \<Rightarrow> u64 \<Rightarrow> allocation \<Rightarrow> ip_addr set" where
  "live_permits ext now a = dm.hits (\<lambda>ip expires. ip \<noteq> ext \<and> now < expires) (permissions a)"

definition live_bindings :: "u64 \<Rightarrow> allocation \<Rightarrow> channel set" where
  "live_bindings now a = dm.hits (\<lambda>_ b. binding_is_live now b) (channels a)"

definition within_caps :: "config \<Rightarrow> u64 \<Rightarrow> allocation \<Rightarrow> bool" where
  "within_caps cfg now a \<longleftrightarrow>
    card (live_permits (cfg_external_ip cfg) now a) \<le> cfg_max_permissions_per_alloc cfg \<and>
    card (live_bindings now a) \<le> cfg_max_channels_per_alloc cfg"

definition caps_ok :: "config \<Rightarrow> u64 \<Rightarrow> alloc_table \<Rightarrow> rate_limiter \<Rightarrow> bool" where
  "caps_ok cfg now t rl \<longleftrightarrow> table_inv t \<and>
    (\<forall>i a. dm_get (allocations t) i = Some a \<longrightarrow> within_caps cfg now a)"

text \<open>\<open>b\<close> has no lease that \<open>a\<close> does not have, the relay address apart.\<close>

definition fewer :: "ip_addr \<Rightarrow> allocation \<Rightarrow> allocation \<Rightarrow> bool" where
  "fewer ext a b \<longleftrightarrow>
    (\<forall>ip x. ip \<noteq> ext \<longrightarrow> dm_get (permissions b) ip = Some x \<longrightarrow> dm_get (permissions a) ip = Some x) \<and>
    (\<forall>ch x. dm_get (channels b) ch = Some x \<longrightarrow> dm_get (channels a) ch = Some x)"

section \<open>Leases of one allocation\<close>

lemma finite_leases:
  assumes "alloc_inv a"
  shows "finite (live_permits ext now a)" "finite (live_bindings now a)"
  using assms by (simp_all add: live_permits_def live_bindings_def dm.finite_hits alloc_inv_def alloc_maps_wf_def)

lemma within_caps_subset:
  assumes "within_caps cfg now a" "alloc_inv a"
    "live_permits (cfg_external_ip cfg) now' b \<subseteq> live_permits (cfg_external_ip cfg) now a"
    "live_bindings now' b \<subseteq> live_bindings now a"
  shows "within_caps cfg now' b"
  using assms card_mono [OF finite_leases(1) [OF assms(2)] assms(3)]
    card_mono [OF finite_leases(2) [OF assms(2)] assms(4)]
  by (simp add: within_caps_def)

lemma within_caps_fewer:
  assumes "within_caps cfg now a" "alloc_inv a" "fewer (cfg_external_ip cfg) a b"
  shows "within_caps cfg now b"
  by (rule within_caps_subset [OF assms(1,2)])
    (use assms(3) in \<open>auto simp: live_permits_def live_bindings_def dm.hits_def fewer_def\<close>)

text \<open>Leases only lapse as time goes by.\<close>

lemma within_caps_later:
  assumes "within_caps cfg now a" "alloc_inv a" "now \<le> now'"
  shows "within_caps cfg now' a"
  by (rule within_caps_subset [OF assms(1,2)])
    (use assms(3) in \<open>fastforce simp: live_permits_def live_bindings_def dm.hits_def binding_is_live_def\<close>)+

lemma permissions_count_bound:
  assumes "within_caps cfg now a" "alloc_inv a"
  shows "permissions_count now a \<le> Suc (cfg_max_permissions_per_alloc cfg)"
proof -
  let ?all = "dm.hits (\<lambda>_ expires. now < expires) (permissions a)"
  have "permissions_count now a = card ?all"
    using assms(2)
    by (simp add: permissions_count_def dm_count_eq dm.count_if_card alloc_inv_def alloc_maps_wf_def)
  also have "\<dots> \<le> card (insert (cfg_external_ip cfg) (live_permits (cfg_external_ip cfg) now a))"
    by (rule card_mono) (use finite_leases(1) [OF assms(2)] in \<open>auto simp: live_permits_def dm.hits_def\<close>)
  also have "\<dots> \<le> Suc (card (live_permits (cfg_external_ip cfg) now a))"
    using finite_leases(1) [OF assms(2)] by (simp add: card_insert_if)
  finally show ?thesis using assms(1) by (simp add: within_caps_def)
qed

lemma permissions_count_without_relay:
  assumes "within_caps cfg now a" "alloc_inv a" "\<not> is_permitted now a (cfg_external_ip cfg)"
  shows "permissions_count now a \<le> cfg_max_permissions_per_alloc cfg"
proof -
  have "dm.hits (\<lambda>_ expires. now < expires) (permissions a) = live_permits (cfg_external_ip cfg) now a"
    using assms(3) by (auto simp: live_permits_def dm.hits_def is_permitted_def)
  with assms(1,2) show ?thesis
    by (simp add: within_caps_def permissions_count_def dm_count_eq dm.count_if_card alloc_inv_def alloc_maps_wf_def)
qed

text \<open>The grant for the relay address does take an allocation one above a cap it has reached.\<close>

lemma relay_grant_over_cap:
  assumes "alloc_inv a" "\<not> is_permitted now a ext" "now + PERMISSION_LIFETIME_MS < 2 ^ 64"
  shows "permissions_count now (alloc_add_permission now ext a) = Suc (permissions_count now a)"
proof -
  let ?P = "\<lambda>_ expires. now < expires" and ?b = "alloc_add_permission now ext a"
  have wf: "dm_wf (permissions a)" "dm_wf (permissions ?b)"
    using assms(1) by (auto simp: alloc_inv_def alloc_maps_wf_def alloc_add_permission_def)
  have "dm.hits ?P (permissions ?b) = insert ext (dm.hits ?P (permissions a))"
    using assms(3)
    by (auto simp: dm.hits_def alloc_add_permission_def add_u64_exact PERMISSION_LIFETIME_MS_def split: if_splits)
  moreover have "ext \<notin> dm.hits ?P (permissions a)"
    using assms(2) by (auto simp: dm.hits_def is_permitted_def)
  ultimately show ?thesis
    by (simp add: permissions_count_def dm_count_eq dm.count_if_card wf dm.finite_hits)
qed

lemma channels_count_card: "alloc_inv a \<Longrightarrow> channels_count now a = card (live_bindings now a)"
  by (simp add: channels_count_def live_bindings_def dm_count_eq dm.count_if_card alloc_inv_def
      alloc_maps_wf_def)

text \<open>A binding adds at most its own channel, and none when the channel is bound already.\<close>

lemma bind_channel_leases:
  assumes "alloc_inv a"
  shows "live_bindings now (bind_channel now ch p a) \<subseteq> insert ch (live_bindings now a)"
    and "permissions (bind_channel now ch p a) = permissions a"
    and "peer_for_channel now a ch = Some p \<Longrightarrow> ch \<in> live_bindings now a"
proof -
  have "chan_inv a" using assms by (simp add: alloc_inv_def)
  then show "live_bindings now (bind_channel now ch p a) \<subseteq> insert ch (live_bindings now a)"
    by (auto simp: live_bindings_def dm.hits_def bind_channel_get(1) split: if_splits)
  show "permissions (bind_channel now ch p a) = permissions a"
    by (simp add: bind_channel_def Let_def split: option.split)
  show "peer_for_channel now a ch = Some p \<Longrightarrow> ch \<in> live_bindings now a"
    by (auto simp: peer_for_channel_def live_bindings_def dm.hits_def split: option.splits if_splits)
qed

lemma within_caps_bind:
  assumes "within_caps cfg now a" "alloc_inv a"
    "peer_for_channel now a ch = Some p \<or> channels_count now a < cfg_max_channels_per_alloc cfg"
  shows "within_caps cfg now (touch_received now (bind_channel now ch p a))"
proof -
  let ?b = "touch_received now (bind_channel now ch p a)"
  have leases: "permissions ?b = permissions a" "channels ?b = channels (bind_channel now ch p a)"
    by (simp_all add: touch_received_def bind_channel_leases(2) [OF assms(2)])
  have sub: "live_bindings now ?b \<subseteq> insert ch (live_bindings now a)"
    using bind_channel_leases(1) [OF assms(2)] by (simp add: live_bindings_def leases)
  have "card (live_bindings now ?b) \<le> cfg_max_channels_per_alloc cfg"
  proof (cases "ch \<in> live_bindings now a")
    case True
    with sub card_mono [OF finite_leases(2) [OF assms(2)]] assms(1) show ?thesis
      by (metis insert_absorb order_trans within_caps_def)
  next
    case False
    then have "channels_count now a < cfg_max_channels_per_alloc cfg"
      using assms(3) bind_channel_leases(3) [OF assms(2)] by blast
    moreover have "card (live_bindings now ?b) \<le> card (insert ch (live_bindings now a))"
      by (rule card_mono) (use sub finite_leases(2) [OF assms(2)] in auto)
    moreover have "card (insert ch (live_bindings now a)) = Suc (channels_count now a)"
      using False finite_leases(2) [OF assms(2)] by (simp add: channels_count_card [OF assms(2)])
    ultimately show ?thesis by linarith
  qed
  then show ?thesis using assms(1) by (simp add: within_caps_def live_permits_def leases)
qed

lemma within_caps_grant:
  assumes "within_caps cfg now a" "alloc_inv a"
    "permissions_count now a + length (new_ips now a ips) \<le> cfg_max_permissions_per_alloc cfg"
  shows "within_caps cfg now (fold (alloc_add_permission now) ips a)"
proof -
  let ?b = "fold (alloc_add_permission now) ips a"
  have inv: "alloc_inv ?b" by (rule fold_add_permission_inv [OF assms(2)])
  have wf: "dm_wf (permissions a)" "dm_wf (permissions ?b)"
    using assms(2) inv by (simp_all add: alloc_inv_def alloc_maps_wf_def)
  have "card (live_permits (cfg_external_ip cfg) now ?b)
      \<le> card (dm.hits (\<lambda>_ expires. now < expires) (permissions ?b))"
    by (rule card_mono [OF dm.finite_hits [OF wf(2)]]) (auto simp: live_permits_def dm.hits_def)
  also have "\<dots> = permissions_count now ?b"
    by (simp add: permissions_count_def dm_count_eq dm.count_if_card wf)
  also have "\<dots> \<le> cfg_max_permissions_per_alloc cfg"
    by (rule capped_count [OF wf(1) assms(3) inv])
  finally have "card (live_permits (cfg_external_ip cfg) now ?b) \<le> cfg_max_permissions_per_alloc cfg" .
  then show ?thesis using assms(1) by (simp add: within_caps_def live_bindings_def fold_permission_channels)
qed

section \<open>Operations that grant nothing\<close>

lemma caps_fewer:
  assumes "caps_ok cfg now t rl" "table_inv t'"
    "\<And>i b. dm_get (allocations t') i = Some b \<Longrightarrow>
      \<exists>a. dm_get (allocations t) i = Some a \<and> fewer (cfg_external_ip cfg) a b"
  shows "caps_ok cfg now t' rl'"
  unfolding caps_ok_def
proof (intro conjI allI impI)
  fix i b
  assume "dm_get (allocations t') i = Some b"
  with assms(3) obtain a where "dm_get (allocations t) i = Some a" "fewer (cfg_external_ip cfg) a b"
    by blast
  with assms(1) show "within_caps cfg now b"
    by (auto simp: caps_ok_def dest: table_inv_alloc intro: within_caps_fewer)
qed (rule assms(2))

lemma caps_map:
  assumes "caps_ok cfg now t rl" "table_inv t'"
    "\<And>i. \<exists>f. dm_get (allocations t') i = map_option f (dm_get (allocations t) i) \<and>
      (\<forall>a. fewer (cfg_external_ip cfg) a (f a))"
  shows "caps_ok cfg now t' rl'"
proof (rule caps_fewer [OF assms(1,2)])
  fix i b
  assume "dm_get (allocations t') i = Some b"
  with assms(3) [of i] show "\<exists>a. dm_get (allocations t) i = Some a \<and> fewer (cfg_external_ip cfg) a b"
    by (cases "dm_get (allocations t) i") auto
qed

lemma fewer_refl [simp]: "fewer ext a a"
  by (simp add: fewer_def)

lemma fewer_trans: "fewer ext a b \<Longrightarrow> fewer ext b c \<Longrightarrow> fewer ext a c"
  by (simp add: fewer_def)

lemma caps_with_alloc:
  assumes "caps_ok cfg now t rl" "table_inv t'" "allocations t' = allocations (with_alloc i f t)"
    "\<And>a. fewer (cfg_external_ip cfg) a (f a)"
  shows "caps_ok cfg now t' rl'"
  by (rule caps_map [OF assms(1,2)])
    (auto simp: assms(3,4) option.map_ident intro: exI [of _ "if _ then f else (\<lambda>a. a)"])

lemma fewer_updates:
  "light f \<Longrightarrow> fewer ext a (f a)"
  "fewer ext a (set_ufrags l r a)"
  "fewer ext a (alloc_add_permission now ext a)"
  by (simp_all add: fewer_def light_def set_ufrags_def set_ice_ufrag_def set_ice_remote_ufrag_def
      alloc_add_permission_def Let_def)

lemma fewer_sweeps:
  "fewer ext a (snd (cleanup_expired_permissions now a))" "fewer ext a (cleanup_expired_channels now a)"
proof -
  show "fewer ext a (snd (cleanup_expired_permissions now a))"
    by (simp add: fewer_def cleanup_expired_permissions_def Let_def fold_dm_del_get)
  have "fewer ext a (drop_lapsed l a)" for l a
    by (cases l) (simp add: fewer_def)
  then have "fewer ext a (fold drop_lapsed ls a)" for ls
  proof (induction ls arbitrary: a)
    case (Cons l ls)
    from fewer_trans [OF Cons.prems Cons.IH [OF Cons.prems]] show ?case by simp
  qed simp
  then show "fewer ext a (cleanup_expired_channels now a)"
    by (simp add: cleanup_expired_channels_def Let_def)
qed

lemma caps_reap: "caps_ok cfg now t rl \<Longrightarrow> caps_ok cfg now (reap Q t) rl'"
proof (rule caps_fewer)
  assume ok: "caps_ok cfg now t rl"
  then show "caps_ok cfg now t rl" .
  from ok have inv: "table_inv t" by (simp add: caps_ok_def)
  then show "table_inv (reap Q t)" by (rule reap_inv)
  from inv have wf: "table_wf t" by (simp add: table_inv_def)
  show "\<exists>a. dm_get (allocations t) i = Some a \<and> fewer (cfg_external_ip cfg) a b"
    if "dm_get (allocations (reap Q t)) i = Some b" for i b
    using that by (auto simp: reap_get [OF wf] split: option.splits if_splits)
qed

lemma caps_tuple:
  assumes "caps_ok cfg now t rl" "dm_get (allocations t) i \<noteq> None"
  shows "caps_ok cfg now (register_peer_tuple now' i p t) rl"
proof (rule caps_map [OF assms(1)])
  show "table_inv (register_peer_tuple now' i p t)"
    using assms consistency.inv_tuple by (simp add: caps_ok_def)
  fix j
  let ?f = "\<lambda>a. if j = i then case dm_get (known_peers a) p of Some _ \<Rightarrow> a
      | None \<Rightarrow> a\<lparr>known_peers := dm_put p \<lparr>last_seen_ms = now'\<rparr> (known_peers a)\<rparr> else a"
  show "\<exists>f. dm_get (allocations (register_peer_tuple now' i p t)) j = map_option f (dm_get (allocations t) j) \<and>
      (\<forall>a. fewer (cfg_external_ip cfg) a (f a))"
    by (rule exI [of _ ?f])
      (auto simp: register_peer_tuple_def fewer_def option.map_ident split: option.splits)
qed

lemma caps_create:
  assumes "caps_ok cfg now t rl" "id_counter t + 1 < 2 ^ 64"
  shows "caps_ok cfg now (snd (create_or_get now' c u l x t)) rl'"
proof -
  have inv: "table_inv t" using assms(1) by (simp add: caps_ok_def)
  have "within_caps cfg now (new_allocation now' i c u l x)" for i
    by (simp add: within_caps_def live_permits_def live_bindings_def dm.hits_def new_allocation_def)
  then show ?thesis
    using create_or_get_inv [OF inv assms(2), of now' c u l x] assms(1)
    by (cases rule: create_or_get_cases [of t c now' u l x]) (simp_all add: caps_ok_def)
qed

interpretation caps: lease_relay "caps_ok cfg now" "\<lambda>ip. ip = cfg_external_ip cfg" for cfg now
proof unfold_locales
  fix t :: alloc_table and rl rl' :: rate_limiter
  assume ok: "caps_ok cfg now t rl"
  then show inv: "table_inv t" by (simp add: caps_ok_def)
  have wf: "table_wf t" using inv by (simp add: table_inv_def)
  show "caps_ok cfg now (with_alloc i f t) rl" if "light f" for i f
    using caps_with_alloc [OF ok with_alloc_inv [OF inv light_neutral [OF that]] refl] fewer_updates(1) [OF that]
    by blast
  show "caps_ok cfg now (snd (register_ice_ufrags i l r t)) rl" for i l r
    using inv
  proof (cases rule: register_ice_ufrags_cases [of t i l r])
    case (installed a t')
    with caps_with_alloc [OF ok _ installed(3) fewer_updates(2)] register_ice_ufrags_inv [OF inv, of i l r]
    show ?thesis by simp
  qed (simp add: ok)
  show "caps_ok cfg now (table_add_permission now' i ip t) rl"
    if "dm_get (allocations t) i \<noteq> None" "ip = cfg_external_ip cfg" for now' i ip
    using caps_with_alloc [OF ok consistency.inv_permission [OF inv that(1)] _ fewer_updates(3)] that(2)
    by (simp add: table_add_permission_def)
  show "caps_ok cfg now (register_peer_tuple now' i p t) rl"
    if "dm_get (allocations t) i \<noteq> None" for now' i p
    by (rule caps_tuple [OF ok that])
  show "caps_ok cfg now (snd (table_remove i t)) rl'" for i rl'
    using caps_reap [OF ok] ok by (simp add: remove_is_reap [OF wf] caps_ok_def split: option.split)
  show "caps_ok cfg now (snd (create_or_get now' c u l x t)) rl'"
    if "id_counter t + 1 < 2 ^ 64" for now' c u l x rl'
    by (rule caps_create [OF ok that])
  show "caps_ok cfg now (cleanup_channel_bindings now' t) rl" for now'
    by (rule caps_map [OF ok cleanup_channel_bindings_inv [OF inv]])
      (auto simp: cleanup_channel_bindings_get intro: fewer_sweeps)
  show "caps_ok cfg now (cleanup_permissions now' t) rl" for now'
    by (rule caps_map [OF ok cleanup_permissions_table(1) [OF inv]])
      (auto simp: cleanup_permissions_table(2) [OF inv] intro: fewer_sweeps)
  show "caps_ok cfg now (snd (retain_unless Q t)) (foldl record_deallocation rl (fst (retain_unless Q t)))" for Q
    unfolding retain_is_reap by (rule caps_reap [OF ok])
qed (simp_all add: caps_ok_def)

section \<open>The requests that grant leases\<close>

lemma caps_at_alloc:
  assumes "caps_ok cfg now t rl" "table_inv t'" "allocations t' = allocations (with_alloc i f t)"
    "\<And>a. dm_get (allocations t) i = Some a \<Longrightarrow> within_caps cfg now (f a)"
  shows "caps_ok cfg now t' rl'"
  using assms by (auto simp: caps_ok_def split: if_splits)

lemma caps_try_add:
  assumes "caps_ok cfg now t rl"
  shows "caps_ok cfg now (snd (try_add_permissions_capped now i ips (cfg_max_permissions_per_alloc cfg) t)) rl'"
proof -
  have inv: "table_inv t" using assms by (simp add: caps_ok_def)
  have "within_caps cfg now (fold (alloc_add_permission now) ips a)"
    if "dm_get (allocations t) i = Some a"
      "\<not> permissions_count now a + length (new_ips now a ips) > cfg_max_permissions_per_alloc cfg" for a
    using that assms table_inv_alloc [OF inv that(1)] by (intro within_caps_grant) (auto simp: caps_ok_def)
  moreover note try_add_permissions_inv [OF inv, of now i ips "cfg_max_permissions_per_alloc cfg"]
  ultimately show ?thesis
    using assms caps_at_alloc [OF assms, of "fold (index_permission i) ips
        (with_alloc i (fold (alloc_add_permission now) ips) t)" i "fold (alloc_add_permission now) ips"]
    by (auto simp: try_add_permissions_capped_def Let_def permissions_count_def fold_index caps_ok_def
        split: option.splits if_splits)
qed

lemma caps_create_permission:
  assumes "caps.holds (en_cfg e) (en_now e) w"
  shows "caps.holds (en_cfg e) (en_now e) (snd (handle_create_permission e msg src w))"
proof -
  have "caps.holds (en_cfg e) (en_now e) (upd_table (with_alloc i (touch_received (en_now e))) w)" for i
    by (rule caps.holds_update [OF assms light_updates(2)])
  then show ?thesis
    using assms caps_try_add [of "en_cfg e" "en_now e" _ "w_limiter w" _ _ "w_limiter w"]
    by (auto simp: handle_create_permission_def Let_def case_prod_unfold caps.holds_def split: sum.splits)
qed

text \<open>Granting permissions leaves the channels alone.\<close>

lemma try_add_channels:
  assumes "dm_get (allocations t) i = Some a"
  shows "\<exists>a'. dm_get (allocations (snd (try_add_permissions_capped now i ips cap t))) i = Some a' \<and>
    channels a' = channels a"
  using assms by (simp add: try_add_permissions_capped_def Let_def fold_index fold_permission_channels)

lemma caps_commit:
  assumes ok: "caps.holds (en_cfg e) (en_now e) w"
    and bind: "bind_outcome_of e (w_table w) i chan peer = BindOk b"
  shows "caps.holds (en_cfg e) (en_now e) (snd (commit_bind e msg src i key chan peer b w))"
proof -
  let ?cfg = "en_cfg e" and ?now = "en_now e"
  define t1 where "t1 = snd (try_add_permissions_capped ?now i [sa_ip peer]
      (cfg_max_permissions_per_alloc ?cfg) (w_table w))"
  define f where "f = (\<lambda>a. touch_received ?now (if b then bind_channel ?now chan peer a else a))"
  have t1: "caps_ok ?cfg ?now t1 (w_limiter w)"
    unfolding t1_def by (rule caps_try_add) (use ok in \<open>simp add: caps.holds_def\<close>)
  then have inv: "table_inv (w_table w)" "table_inv t1" using ok by (simp_all add: caps.holds_def caps_ok_def)
  obtain a where a: "table_get (w_table w) i = Some a" using bind
    by (cases "table_get (w_table w) i") (simp_all add: bind_outcome_of_def)
  then have "alloc_inv a" using table_inv_alloc [OF inv(1)] by (simp add: table_get_def)
  note outcome = bind_outcome_cases [OF a this, of e chan peer]
  with bind have "b" by (cases b) simp_all
  have room: "peer_for_channel ?now a chan = Some peer \<or> channels_count ?now a < cfg_max_channels_per_alloc ?cfg"
    using outcome(1) bind \<open>b\<close> by auto
  obtain a1 where a1: "dm_get (allocations t1) i = Some a1" "channels a1 = channels a"
    using try_add_channels a unfolding t1_def table_get_def by blast
  have "neutral f"
    unfolding f_def using \<open>b\<close> neutral_compose [OF neutral_updates(2,6)] by simp
  have "caps_ok ?cfg ?now (with_alloc i f t1) (w_limiter w)"
  proof (rule caps_at_alloc [OF t1 with_alloc_inv [OF inv(2) \<open>neutral f\<close>] refl])
    fix a' assume "dm_get (allocations t1) i = Some a'"
    with a1 have "a' = a1" by simp
    moreover have "within_caps ?cfg ?now a1" "alloc_inv a1"
      using t1 a1 table_inv_alloc [OF inv(2)] by (auto simp: caps_ok_def)
    moreover have "peer_for_channel ?now a1 chan = Some peer \<or> channels_count ?now a1 < cfg_max_channels_per_alloc ?cfg"
      using room a1(2) by (simp add: peer_for_channel_def channels_count_def)
    ultimately show "within_caps ?cfg ?now (f a')"
      using within_caps_bind \<open>b\<close> by (simp add: f_def)
  qed
  then show ?thesis
    using t1 unfolding commit_bind_def
    by (simp add: Let_def case_prod_unfold t1_def [symmetric] f_def [symmetric] caps.holds_def split: option.split)
qed

lemma caps_channel_bind:
  assumes "caps.holds (en_cfg e) (en_now e) w"
  shows "caps.holds (en_cfg e) (en_now e) (snd (handle_channel_bind e msg src w))"
  using assms caps_commit [OF assms]
  by (auto simp: handle_channel_bind_def Let_def split: option.splits list.splits sum.splits bind_outcome.splits)

lemma caps_packet:
  assumes "caps.holds (en_cfg e) (en_now e) w" "id_counter (w_table w) + 1 < 2 ^ 64"
  shows "caps.holds (en_cfg e) (en_now e) (snd (handle_packet e data src w))"
proof (rule caps.holds_packet_from_stun [OF assms(1)])
  fix msg
  show "caps.holds (en_cfg e) (en_now e) (snd (handle_stun e msg src w))"
    using assms
    by (auto simp: handle_stun_def ext_ip_def caps.holds_allocate caps.holds_refresh caps_create_permission
        caps_channel_bind caps.holds_send caps.holds_binding caps.holds_client_response
        split: stun_class.split stun_method.split)
qed

lemma caps_later:
  assumes "caps.holds cfg now w" "now \<le> now'"
  shows "caps.holds cfg now' w"
  using assms
  by (auto simp: caps.holds_def caps_ok_def dest: table_inv_alloc intro: within_caps_later)

section \<open>Runs\<close>

text \<open>The cached clock never runs backwards: events, newest first, with times that do not grow.\<close>

definition event_time :: "event \<Rightarrow> u64" where
  "event_time ev = en_now (event_env ev)"

definition chronological :: "event list \<Rightarrow> bool" where
  "chronological evs \<longleftrightarrow> sorted_wrt (\<lambda>later earlier. event_time earlier \<le> event_time later) evs"

lemma run_caps:
  assumes "run cfg evs w" "length evs + 2 < 2 ^ 64" "chronological evs"
    "list_all (\<lambda>ev. event_time ev \<le> now) evs"
  shows "caps.holds cfg now w"
  using assms
proof (induction arbitrary: now rule: run.induct)
  case start
  have "caps_ok cfg now new_table rl" for rl
    using new_table_inv by (simp add: caps_ok_def) (simp add: new_table_def)
  then show ?case by (simp add: caps.holds_def server_new_def)
next
  case (event evs w ev w')
  let ?t = "event_time ev"
  have w: "caps.holds cfg ?t w"
    using event.IH [of ?t] event.prems by (simp add: chronological_def list_all_iff)
  have "id_counter (w_table w) \<le> Suc (length evs)"
    using run_owned [OF event.hyps(1)] event.prems by (simp add: owned_by_def)
  then have room: "id_counter (w_table w) + 1 < 2 ^ 64" using event.prems by simp
  have "caps.holds cfg ?t w'"
    using event.hyps(2,3) w caps_packet [OF _ room] caps.holds_tick [OF w]
    by (cases ev) (auto simp: step_function event_time_def)
  moreover have "?t \<le> now" using event.prems(3) by simp
  ultimately show ?case by (rule caps_later)
qed

section \<open>The property\<close>

text \<open>
  C6. No allocation outgrows its caps. In any run, with a clock that does not run backwards, every
  allocation holds at any time at most \<open>max_channels_per_alloc\<close> live channel bindings and at most
  \<open>max_permissions_per_alloc\<close> live permissions, plus one while it is permitted for the server's own
  relay address, which a connectivity check grants without looking at the cap.
\<close>

theorem lease_caps_hold:
  assumes "run cfg evs w" "length evs + 2 < 2 ^ 64" "chronological evs"
    and "list_all (\<lambda>ev. event_time ev \<le> now) evs" "table_get (w_table w) i = Some a"
  shows "channels_count now a \<le> cfg_max_channels_per_alloc cfg \<and>
    permissions_count now a \<le> cfg_max_permissions_per_alloc cfg +
      (if is_permitted now a (cfg_external_ip cfg) then 1 else 0)"
proof -
  have "caps.holds cfg now w" by (rule run_caps [OF assms(1-4)])
  with assms(5) have "within_caps cfg now a" "alloc_inv a"
    by (auto simp: caps.holds_def caps_ok_def table_get_def dest: table_inv_alloc)
  with permissions_count_bound permissions_count_without_relay show ?thesis
    by (simp add: channels_count_card) (simp add: within_caps_def)
qed

theorem lease_caps_hold_witness:
  "\<exists>a. get_by_client (w_table demo_after) demo_client = Some a \<and>
    channels_count 2000 a \<le> cfg_max_channels_per_alloc demo_config \<and>
    permissions_count 2000 a \<le> cfg_max_permissions_per_alloc demo_config + 1"
proof -
  obtain a where a: "get_by_client (w_table demo_after) demo_client = Some a"
    using demo_after_alloc by blast
  then obtain i where i: "table_get (w_table demo_after) i = Some a"
    by (auto simp: get_by_client_def table_get_def split: option.splits)
  have "chronological [demo_event]" "list_all (\<lambda>ev. event_time ev \<le> 2000) [demo_event]"
    by (simp_all add: chronological_def event_time_def demo_event_def demo_env_def)
  from lease_caps_hold [OF demo_run _ this i] a show ?thesis
    by (intro exI [of _ a]) (auto split: if_splits)
qed

end
