(* ===== verification/Spec2Isabelle.thy ===== *)
theory Spec2Isabelle
  imports Calls Interleaving Loops Store Startup Lock_Order Create_Race Lease_Caps
begin

text \<open>
  \<^bold>\<open>uTURN: a single-port TURN server for WebRTC\<close>

  \<^bold>\<open>The program.\<close> One UDP socket receives everything. \<open>Server::run\<close> hands each datagram to
  \<open>handle_packet\<close>, which classifies it (\<open>demux\<close>) and passes STUN messages to the TURN handler
  (\<open>turn/handler.rs\<close>), ChannelData and traffic of external peers to the relay engine
  (\<open>relay/engine.rs\<close>), and raw data of clients along their ICE pair. All of them work on one
  allocation table (\<open>lookup/table.rs\<close>), a primary map with four secondary indices, and one rate
  limiter (\<open>lookup/rate_limit.rs\<close>). A second task sweeps both every two seconds. Because all
  allocations share one relay address, the peer of a client is found by the ICE user name fragments
  the client announced.

  \<^bold>\<open>Theories, and the code they model\<close> (paths below \<open>src/\<close>)
  \<^item> \<open>Prelude\<close>: bytes, Rust strings with UTF-8 validity, 64-bit counters as numbers with explicit
    wrap-around, concurrent maps as association lists, and the lemmas the components share.
  \<^item> \<open>Net_Addr\<close>: socket and IP addresses of the standard library, and the peer policy
    \<open>is_forbidden_peer_ip\<close> of \<open>turn/handler.rs\<close>.
  \<^item> \<open>Stun_Msg\<close> (\<open>demux/stun.rs\<close>), \<open>Rtp\<close> (\<open>demux/rtp.rs\<close>), \<open>Demux\<close> (\<open>demux/protocol.rs\<close>): the
    parsers. The attribute loop is a recursive function with its termination measure, the bytes left.
  \<^item> \<open>Coarse_Time\<close> (\<open>coarse_time.rs\<close>), \<open>Rate_Limit\<close> (\<open>lookup/rate_limit.rs\<close>): the cached clock, the
    sliding window and the quota per address; the locale \<open>quota_ledger\<close> is the limiter's interface
    to whoever reserves and releases slots.
  \<^item> \<open>Allocation\<close>, \<open>Alloc_Table\<close> (\<open>lookup/table.rs\<close>): one allocation with its leases and timers; the
    table. \<open>table_inv\<close> is the consistency of the indices with the primary map.
  \<^item> \<open>Table_Core\<close>: the part of the table that calls with the id of a removed allocation cannot harm.
    \<open>Store\<close>: the specification of the table, a store without indices but for recorded tuples and stray
    permission entries, and the simulation between the two as a locale.
  \<^item> \<open>Auth\<close> (\<open>turn/auth.rs\<close>, \<open>config.rs\<close>), \<open>Turn_Error\<close> (\<open>turn/message.rs\<close>), \<open>Responses\<close> (the message
    builders of \<open>turn/handler.rs\<close>, \<open>relay/engine.rs\<close> and \<open>server.rs\<close>).
  \<^item> \<open>World\<close>: the state every handler threads (table, limiter, datagrams sent, random draws) and the
    environment of one call (configuration, clocks, random bytes, which sends succeed). The locale
    \<open>lease_state\<close> lists what every elementary update of a handler that grants no lease keeps of a
    property, \<open>packet_state\<close> those of every handler, \<open>lease_sweeps\<close> and \<open>relay_state\<close> those of the cleanup
    task beside them, \<open>lease_invariant\<close> and \<open>packet_invariant\<close> the creation of an allocation; the
    stronger contracts give the weaker ones as sublocales. Each handler is shown once, inside them,
    to keep the property. They are interpreted for index consistency, for the exactness of the quota,
    for the caps on leases, for the origin of allocations, and for being the effect of a sequence of
    calls.
  \<^item> \<open>Handler\<close> (\<open>turn/handler.rs\<close>), \<open>Engine\<close> (\<open>relay/engine.rs\<close>), \<open>Server\<close> (\<open>server.rs\<close>): one definition
    per handler, early returns and failed sends included. \<open>step\<close> and \<open>run\<close> are the histories of the
    two tasks; a run is a list of datagrams and ticks, newest first, in any order, each handled to
    its end.
  \<^item> \<open>Interleaving\<close>: the packet task and the cleanup task of \<open>Server::run\<close> side by side. Each is a program
    counter with the local variables the code keeps between two calls; a step is one call of a method
    of the table or the limiter, and a sweep is one step per allocation or limiter entry it visits, in
    any order and with entries inserted while it runs.
  \<^item> \<open>Locking\<close>: tasks that take readers-writer locks on a pool of worker threads, as step relations; the
    locale \<open>lock_order\<close> is a set of methods that keep one order of the locks and hold none across an
    await. \<open>Lock_Order\<close> (\<open>lookup/table.rs\<close>, \<open>lookup/rate_limit.rs\<close>) has, for every method of the
    allocation, the table and the limiter, the guards it takes and drops on each branch, and
    interprets the locale on them.
  \<^item> \<open>Create_Race\<close>: the steps of concurrent \<open>create_or_get\<close> calls (\<open>lookup/table.rs\<close>), each access to a
    map or to the id counter on its own.
  \<^item> \<open>Loops\<close>: the \<open>while\<close> loops of the code as they are written, on \<open>while_option\<close>, with checked accesses
    and panics; the locale \<open>bounded_loop\<close> is a loop with invariant, variant and result, and is
    interpreted for each of them.
  \<^item> \<open>Calls\<close>: how two Binding requests establish a call.
  \<^item> \<open>Startup\<close> (\<open>main.rs\<close>): credentials, secrets and the checks before the server starts.
  \<^item> \<open>Requests\<close>, \<open>Egress\<close>, \<open>Routing\<close>, \<open>Runs\<close>, \<open>Lease_Caps\<close>: the properties that span components.

  \<^bold>\<open>What is shown\<close>
  \<^item> Over whole runs (\<open>Runs\<close>): the indices stay consistent, the limiter's counts are the numbers of
    allocations, the quota is never exceeded, every allocation goes back to an authenticated request
    of its own client, and a correctly signed request is admitted. No allocation ever holds more live
    channels or permissions than configured, the permission for the relay address apart
    (\<open>Lease_Caps\<close>).
  \<^item> Over all interleavings (\<open>Interleaving\<close>): the limiter counts the allocations and the slots in
    flight, never more than the quota, and the client index stays exact; every run is one of these
    interleavings; and the two races the code has, which leave a peer's address behind for an
    allocation that is gone, and a permission that a CreatePermission granted anew without its index
    entry.
  \<^item> For the locks (\<open>Lock_Order\<close>): the order documented on \<open>AllocationTable\<close> is extended to all locks and
    kept by every method, so tasks on any number of workers never deadlock and every task finishes;
    the two faults the comments warn of, an inverted order and a guard held across an await, do
    deadlock in the model.
  \<^item> For concurrent Allocate requests (\<open>Create_Race\<close>): in every interleaving exactly one call creates
    the allocation of a new client, all calls return its id, and no discarded allocation is left.
  \<^item> For the loops (\<open>Loops\<close>): each of them ends, without a panic, with the result of the recursive
    function that models it; so does the STUN parser as a whole, its match arms and the address
    decoder with every access checked.
  \<^item> For any single datagram (\<open>Egress\<close>): nothing leaves the server except to the sender, to clients
    and to permitted, not forbidden peers.
  \<^item> For each request (\<open>Requests\<close>): the exact effect on every branch, and none at all without the
    right credentials.
  \<^item> For relayed traffic (\<open>Routing\<close>): media stays between ICE partners and does reach them, the two
    ways to send to a peer agree away from the relay address, peers reach the client that permits
    them, and a cleanup tick removes exactly what has lapsed. Two clients that send each other connectivity checks become
    partners, and their media then flows (\<open>Calls\<close>).
  \<^item> For the components: the table refines the store also when it is called with stale ids, removal leaves no trace, channel bindings are
    one-to-one, messages survive building and parsing, nonces and ephemeral passwords expire when
    they should, the rate limit holds in every window.

  \<^bold>\<open>Bounds.\<close> Allocation ids are drawn from a 64-bit counter; the statements on runs assume fewer than
  \<open>2 ^ 64 - 2\<close> events, and those on interleavings fewer than \<open>2 ^ 64 - 2\<close> steps, so that it does not
  wrap. The expiry times of the request statements assume a
  clock more than ten minutes away from the end of its range. No definition uses fuel: every loop is
  a total function with its measure, and \<open>Loops\<close> shows that the loop as written returns its value.

  \<^bold>\<open>Parameters.\<close> HMAC-SHA1, MD5 and base64 are the fields of \<open>crypto\<close>; \<open>digest_lengths\<close> states that
  their results have 20 and 16 bytes, and is shown to be satisfiable. Random bytes, clocks and the
  success of each send are fields of \<open>env\<close>, arbitrary unless a statement says otherwise. The shard of a
  key, the number of shards of a map and whether an iterator takes the next shard before it gives back
  the last are fields of \<open>sharding\<close>, all arbitrary; \<open>Lock_Order\<close> relies on what the map library
  documents: lookups take a shard's lock shared, changes and entries take it exclusively.

  \<^bold>\<open>Not modelled.\<close> Socket set-up, signal handling, logging and argument parsing are calls into
  libraries; of the asynchronous runtime there is the scheduling of tasks on workers in \<open>Locking\<close>. The
  interleavings of the two tasks are those of method calls: a method of the table that updates
  several maps is one step of \<open>Interleaving\<close>. Orders inside a method are covered for the locks of
  every method (\<open>Lock_Order\<close>) and for the data of \<open>create_or_get\<close> against itself (\<open>Create_Race\<close>), and not
  for the data of the other methods. \<open>Interleaving\<close> does not follow the datagrams sent, which
  \<open>Egress\<close> and \<open>Routing\<close> treat for whole handlers. The rest of the source files are unit tests.
\<close>

end
